(* ===== verification/Sb_Prelude.thy ===== *)
theory Sb_Prelude
  imports Main "HOL-Library.AList" "HOL-Library.List_Lexorder" "HOL-Library.Char_ord"
begin

text \<open>
  Shared vocabulary of the development: results that may be errors (\<open>bindR\<close>, \<open>mapR\<close>),
  state-passing computations whose effects survive an exception (\<open>bindM\<close> and its kin),
  Python dictionaries as insertion-ordered association lists, and the generic list lemmas
  the component theories use.
\<close>

named_theorems sb_monad \<open>unfolding rules of the result and state combinators\<close>
named_theorems sb_inv \<open>facts about preserved invariants\<close>

section \<open>Results: a value or an error\<close>

definition bindR :: "'e + 'a \<Rightarrow> ('a \<Rightarrow> 'e + 'b) \<Rightarrow> 'e + 'b" where
  "bindR r f = (case r of Inl e \<Rightarrow> Inl e | Inr a \<Rightarrow> f a)"

lemma bindR_simps [simp, sb_monad]:
  "bindR (Inl e) f = Inl e"
  "bindR (Inr a) f = f a"
  by (simp_all add: bindR_def)

lemma bindR_Inr_iff: "bindR r f = Inr b \<longleftrightarrow> (\<exists>a. r = Inr a \<and> f a = Inr b)"
  by (cases r) auto

lemma bindR_Inl_iff:
  "bindR r f = Inl e \<longleftrightarrow> r = Inl e \<or> (\<exists>a. r = Inr a \<and> f a = Inl e)"
  by (cases r) auto

lemma bindR_InrE:
  assumes "bindR r f = Inr b"
  obtains a where "r = Inr a" and "f a = Inr b"
  using assms by (auto simp: bindR_Inr_iff)

lemma bindR_cong [fundef_cong]:
  "r = r' \<Longrightarrow> (\<And>a. r' = Inr a \<Longrightarrow> f a = g a) \<Longrightarrow> bindR r f = bindR r' g"
  by (cases r') auto

text \<open>A check that raises: the code's \<open>if bad: raise e\<close>.\<close>

definition raise_if :: "bool \<Rightarrow> 'e \<Rightarrow> 'e + unit" where
  "raise_if b e = (if b then Inl e else Inr ())"

lemma raise_if_simps [simp]:
  "raise_if True e = Inl e"
  "raise_if False e = Inr ()"
  by (simp_all add: raise_if_def)

lemma raise_if_Inr_iff [simp]: "raise_if b e = Inr u \<longleftrightarrow> \<not> b"
  by (simp add: raise_if_def)

lemma raise_if_Inl_iff [simp]: "raise_if b e = Inl e' \<longleftrightarrow> b \<and> e' = e"
  by (auto simp: raise_if_def)

text \<open>A loop that collects results and stops at the first exception.\<close>

fun mapR :: "('a \<Rightarrow> 'e + 'b) \<Rightarrow> 'a list \<Rightarrow> 'e + 'b list" where
  "mapR f [] = Inr []"
| "mapR f (x # xs) = bindR (f x) (\<lambda>y. bindR (mapR f xs) (\<lambda>ys. Inr (y # ys)))"

lemma mapR_cong [fundef_cong]:
  "xs = ys \<Longrightarrow> (\<And>x. x \<in> set ys \<Longrightarrow> f x = g x) \<Longrightarrow> mapR f xs = mapR g ys"
  by (induction ys arbitrary: xs) auto

lemma mapR_length: "mapR f xs = Inr ys \<Longrightarrow> length ys = length xs"
  by (induction xs arbitrary: ys) (auto simp: bindR_Inr_iff)

lemma mapR_Inr_iff:
  "mapR f xs = Inr ys \<longleftrightarrow> list_all2 (\<lambda>x y. f x = Inr y) xs ys"
  by (induction xs arbitrary: ys) (auto simp: bindR_Inr_iff list_all2_Cons1)

lemma mapR_map_Inr: "(\<And>x. x \<in> set xs \<Longrightarrow> f x = Inr (g x)) \<Longrightarrow> mapR f xs = Inr (map g xs)"
  by (induction xs) auto

lemma mapR_defined: "mapR f xs = Inr ys \<Longrightarrow> x \<in> set xs \<Longrightarrow> \<exists>y. f x = Inr y"
  by (induction xs arbitrary: ys) (auto simp: bindR_Inr_iff)

lemma mapR_all:
  "mapR f xs = Inr ys \<Longrightarrow> \<forall>x \<in> set xs. \<forall>y. f x = Inr y \<longrightarrow> P y \<Longrightarrow> list_all P ys"
  by (induction xs arbitrary: ys) (auto simp: bindR_Inr_iff)

lemma mapR_append_Inr:
  "mapR f (xs @ ys) = Inr zs \<longleftrightarrow>
     (\<exists>us vs. mapR f xs = Inr us \<and> mapR f ys = Inr vs \<and> zs = us @ vs)"
  by (induction xs arbitrary: zs) (auto simp: bindR_Inr_iff)

section \<open>State-passing computations with exceptions\<close>

text \<open>
  A step that reads and writes the state \<open>'s\<close> and may raise. The state after the step is
  returned in both cases: what was written before the exception stays written.
\<close>

type_synonym ('s, 'e, 'a) sm = "'s \<Rightarrow> ('e + 'a) \<times> 's"

definition returnM :: "'a \<Rightarrow> ('s, 'e, 'a) sm" where
  "returnM a s = (Inr a, s)"

definition raiseM :: "'e \<Rightarrow> ('s, 'e, 'a) sm" where
  "raiseM e s = (Inl e, s)"

definition liftM :: "'e + 'a \<Rightarrow> ('s, 'e, 'a) sm" where
  "liftM r s = (r, s)"

definition bindM :: "('s, 'e, 'a) sm \<Rightarrow> ('a \<Rightarrow> ('s, 'e, 'b) sm) \<Rightarrow> ('s, 'e, 'b) sm" where
  "bindM m f s = (case m s of (Inl e, s') \<Rightarrow> (Inl e, s') | (Inr a, s') \<Rightarrow> f a s')"

definition modifyM :: "('s \<Rightarrow> 's) \<Rightarrow> ('s, 'e, unit) sm" where
  "modifyM g s = (Inr (), g s)"

lemmas sm_defs = returnM_def raiseM_def liftM_def bindM_def modifyM_def

lemma bindM_Inr:
  "bindM m f s = (Inr b, t) \<longleftrightarrow> (\<exists>a u. m s = (Inr a, u) \<and> f a u = (Inr b, t))"
  by (auto simp: bindM_def split: prod.splits sum.splits)

lemma bindM_Inl:
  "bindM m f s = (Inl e, t) \<longleftrightarrow>
     m s = (Inl e, t) \<or> (\<exists>a u. m s = (Inr a, u) \<and> f a u = (Inl e, t))"
  by (auto simp: bindM_def split: prod.splits sum.splits)

lemma bindM_simps [simp]:
  "m s = (Inr a, t) \<Longrightarrow> bindM m f s = f a t"
  "m s = (Inl e, t) \<Longrightarrow> bindM m f s = (Inl e, t)"
  by (simp_all add: bindM_def)

lemma sm_basic_simps [simp]:
  "returnM a s = (Inr a, s)"
  "raiseM e s = (Inl e, s)"
  "liftM r s = (r, s)"
  "modifyM g s = (Inr (), g s)"
  by (simp_all add: sm_defs)

text \<open>A loop over a list of effects; the first exception stops it, earlier effects stay.\<close>

fun forM :: "('a \<Rightarrow> ('s, 'e, unit) sm) \<Rightarrow> 'a list \<Rightarrow> ('s, 'e, unit) sm" where
  "forM f [] = returnM ()"
| "forM f (x # xs) = bindM (f x) (\<lambda>_. forM f xs)"

lemma forM_append_Inr:
  "forM f (xs @ ys) s = (Inr u, t) \<longleftrightarrow>
     (\<exists>m. forM f xs s = (Inr (), m) \<and> forM f ys m = (Inr u, t))"
  by (induction xs arbitrary: s) (auto simp: bindM_Inr)

lemma forM_map: "forM f (map h xs) = forM (\<lambda>x. f (h x)) xs"
  by (induction xs) simp_all

lemma forM_invariant:
  assumes "\<And>x s r s'. x \<in> set xs \<Longrightarrow> P s \<Longrightarrow> f x s = (r, s') \<Longrightarrow> P s'"
    and "P s" and "forM f xs s = (r, s')"
  shows "P s'"
  using assms
proof (induction xs arbitrary: s)
  case (Cons x xs)
  obtain q u where q: "f x s = (q, u)" by fastforce
  have "P u" using Cons.prems(1) [OF _ Cons.prems(2) q] by simp
  then show ?case
    using Cons.prems(3) q Cons.IH [of u] Cons.prems(1)
    by (cases q) (auto simp: bindM_def)
qed simp

section \<open>Python dictionaries\<close>

text \<open>
  A Python dictionary keeps insertion order; assigning an existing key keeps its place, a
  new key goes to the end. That is \<open>AList.update\<close>; \<open>map_of\<close> is \<open>.get\<close>.
\<close>

type_synonym ('k, 'v) dict = "('k \<times> 'v) list"

abbreviation dict_keys :: "('k, 'v) dict \<Rightarrow> 'k list" where
  "dict_keys d \<equiv> map fst d"

abbreviation dict_set :: "('k, 'v) dict \<Rightarrow> 'k \<Rightarrow> 'v \<Rightarrow> ('k, 'v) dict" where
  "dict_set d k v \<equiv> AList.update k v d"

definition dict_has :: "('k, 'v) dict \<Rightarrow> 'k \<Rightarrow> bool" where
  "dict_has d k \<longleftrightarrow> k \<in> set (dict_keys d)"

lemma dict_has_iff: "dict_has d k \<longleftrightarrow> map_of d k \<noteq> None"
  by (auto simp: dict_has_def map_of_eq_None_iff)

lemma dict_get_set: "map_of (dict_set d k v) k' = (if k' = k then Some v else map_of d k')"
  by (simp add: update_conv')

lemma dict_set_new: "k \<notin> set (dict_keys d) \<Longrightarrow> dict_set d k v = d @ [(k, v)]"
  by (induction d) auto

lemma map_of_map_key: "map_of (map (\<lambda>k. (k, f k)) ks) k = (if k \<in> set ks then Some (f k) else None)"
  by (induction ks) auto

section \<open>Lists\<close>

text \<open>The first occurrence of each element, in order: the \<open>seen\<close> loops of the code.\<close>

fun dedup_by :: "('a \<Rightarrow> 'k) \<Rightarrow> 'k list \<Rightarrow> 'a list \<Rightarrow> 'a list" where
  "dedup_by key seen [] = []"
| "dedup_by key seen (x # xs) =
     (if key x \<in> set seen then dedup_by key seen xs
      else x # dedup_by key (key x # seen) xs)"

lemma dedup_by_subset: "set (dedup_by key seen xs) \<subseteq> set xs"
  by (induction key seen xs rule: dedup_by.induct) auto

lemma dedup_by_not_seen: "x \<in> set (dedup_by key seen xs) \<Longrightarrow> key x \<notin> set seen"
  by (induction key seen xs rule: dedup_by.induct) (auto split: if_splits)

lemma dedup_by_distinct: "distinct (map key (dedup_by key seen xs))"
  by (induction key seen xs rule: dedup_by.induct) (auto dest: dedup_by_not_seen)

lemma dedup_by_keys:
  "key ` set (dedup_by key seen xs) = key ` set xs - set seen"
  by (induction key seen xs rule: dedup_by.induct) auto

lemma dedup_by_id:
  "distinct (map key xs) \<Longrightarrow> key ` set xs \<inter> set seen = {} \<Longrightarrow> dedup_by key seen xs = xs"
  by (induction key seen xs rule: dedup_by.induct) auto

lemma filter_distinct_map: "distinct (map f xs) \<Longrightarrow> distinct (map f (filter P xs))"
  by (induction xs) auto

lemma distinct_map_inj: "distinct (map f xs) \<Longrightarrow> x \<in> set xs \<Longrightarrow> y \<in> set xs \<Longrightarrow> f x = f y \<Longrightarrow> x = y"
  by (auto simp: distinct_map dest: inj_onD)

lemma concat_map_eq_Nil: "concat (map f xs) = [] \<longleftrightarrow> (\<forall>x \<in> set xs. f x = [])"
  by auto

end
