(* ===== verification/Py_Text.thy ===== *)
theory Py_Text
  imports Sb_Prelude
begin

text \<open>
  The Python string operations the program uses, on strings of the code points U+0000 to
  U+00FF (one \<open>char\<close> per code point, so \<open>length\<close> is Python's \<open>len\<close>): \<open>str.strip\<close>,
  \<open>split\<close>, \<open>join\<close>, \<open>lower\<close>, \<open>isdigit\<close>, \<open>isalnum\<close>, \<open>startswith\<close>, \<open>int(...)\<close>, \<open>str(int)\<close>
  and \<open>repr\<close>, with the character classes CPython has on that range. The regular expressions
  of the program are anchored character classes; each is a predicate here, with the one
  newline that \<open>$\<close> lets pass at the end of the text.
\<close>

section \<open>Characters\<close>

definition ord :: "char \<Rightarrow> nat" where
  "ord c = of_char c"

definition newline :: char where
  "newline = CHR 0x0A"

definition is_space :: "char \<Rightarrow> bool" where
  "is_space c \<longleftrightarrow> (let n = ord c in
     (9 \<le> n \<and> n \<le> 13) \<or> (28 \<le> n \<and> n \<le> 32) \<or> n = 133 \<or> n = 160)"

definition is_ascii_digit :: "char \<Rightarrow> bool" where
  "is_ascii_digit c \<longleftrightarrow> 48 \<le> ord c \<and> ord c \<le> 57"

definition is_digit_ch :: "char \<Rightarrow> bool" where
  "is_digit_ch c \<longleftrightarrow> is_ascii_digit c \<or> ord c = 178 \<or> ord c = 179 \<or> ord c = 185"

definition is_ascii_letter :: "char \<Rightarrow> bool" where
  "is_ascii_letter c \<longleftrightarrow> (65 \<le> ord c \<and> ord c \<le> 90) \<or> (97 \<le> ord c \<and> ord c \<le> 122)"

definition is_alnum_ch :: "char \<Rightarrow> bool" where
  "is_alnum_ch c \<longleftrightarrow> is_digit_ch c \<or> is_ascii_letter c \<or> (let n = ord c in
     n = 170 \<or> n = 181 \<or> n = 186 \<or> (188 \<le> n \<and> n \<le> 190) \<or>
     (192 \<le> n \<and> n \<le> 214) \<or> (216 \<le> n \<and> n \<le> 246) \<or> 248 \<le> n)"

text \<open>\<open>[A-Za-z_]\<close> and \<open>[A-Za-z0-9_]\<close> of the identifier patterns.\<close>

definition is_ident_start :: "char \<Rightarrow> bool" where
  "is_ident_start c \<longleftrightarrow> is_ascii_letter c \<or> c = CHR ''_''"

definition is_ident_char :: "char \<Rightarrow> bool" where
  "is_ident_char c \<longleftrightarrow> is_ident_start c \<or> is_ascii_digit c"

definition lower_ch :: "char \<Rightarrow> char" where
  "lower_ch c = (let n = ord c in
     if (65 \<le> n \<and> n \<le> 90) \<or> (192 \<le> n \<and> n \<le> 222 \<and> n \<noteq> 215) then char_of (n + 32) else c)"

section \<open>Strings\<close>

definition strip_by :: "(char \<Rightarrow> bool) \<Rightarrow> string \<Rightarrow> string" where
  "strip_by p s = rev (dropWhile p (rev (dropWhile p s)))"

abbreviation py_strip :: "string \<Rightarrow> string" where
  "py_strip s \<equiv> strip_by is_space s"

definition py_lower :: "string \<Rightarrow> string" where
  "py_lower s = map lower_ch s"

definition py_isdigit :: "string \<Rightarrow> bool" where
  "py_isdigit s \<longleftrightarrow> s \<noteq> [] \<and> list_all is_digit_ch s"

definition py_isalnum :: "string \<Rightarrow> bool" where
  "py_isalnum s \<longleftrightarrow> s \<noteq> [] \<and> list_all is_alnum_ch s"

definition starts_with :: "string \<Rightarrow> string \<Rightarrow> bool" where
  "starts_with p s \<longleftrightarrow> take (length p) s = p"

definition ends_with :: "string \<Rightarrow> string \<Rightarrow> bool" where
  "ends_with p s \<longleftrightarrow> length p \<le> length s \<and> drop (length s - length p) s = p"

text \<open>\<open>s.split(c)\<close> for a one-character separator, and \<open>sep.join(parts)\<close>.\<close>

fun split_on :: "char \<Rightarrow> string \<Rightarrow> string list" where
  "split_on c [] = [[]]"
| "split_on c (x # xs) =
     (if x = c then [] # split_on c xs
      else (case split_on c xs of [] \<Rightarrow> [[x]] | y # ys \<Rightarrow> (x # y) # ys))"

fun join_with :: "string \<Rightarrow> string list \<Rightarrow> string" where
  "join_with sep [] = []"
| "join_with sep [s] = s"
| "join_with sep (s # t # ts) = s @ sep @ join_with sep (t # ts)"

text \<open>\<open>re.match(r"^[A-Za-z_][A-Za-z0-9_]*$", s)\<close>: the \<open>$\<close> also matches before one final newline.\<close>

definition strip_nl :: "string \<Rightarrow> string" where
  "strip_nl s = (if s \<noteq> [] \<and> last s = newline then butlast s else s)"

definition is_ident :: "string \<Rightarrow> bool" where
  "is_ident s \<longleftrightarrow> (case s of [] \<Rightarrow> False
     | c # cs \<Rightarrow> is_ident_start c \<and> list_all is_ident_char cs)"

section \<open>Numbers and text\<close>

fun show_nat :: "nat \<Rightarrow> string" where
  "show_nat n = (if n < 10 then [char_of (48 + n)] else show_nat (n div 10) @ [char_of (48 + n mod 10)])"

declare show_nat.simps [simp del]

definition show_int :: "int \<Rightarrow> string" where
  "show_int i = (if i < 0 then CHR ''-'' # show_nat (nat (- i)) else show_nat (nat i))"

text \<open>
  \<open>int(text)\<close>: blanks around, one sign, decimal digits with single underscores between them;
  \<open>None\<close> is \<open>ValueError\<close>.
\<close>

definition is_int_space :: "char \<Rightarrow> bool" where
  "is_int_space c \<longleftrightarrow> (let n = ord c in (9 \<le> n \<and> n \<le> 13) \<or> n = 32 \<or> n = 133 \<or> n = 160)"

fun parse_digits :: "nat \<Rightarrow> bool \<Rightarrow> string \<Rightarrow> nat option" where
  "parse_digits acc prev [] = (if prev then Some acc else None)"
| "parse_digits acc prev (c # cs) =
     (if is_ascii_digit c then parse_digits (10 * acc + (ord c - 48)) True cs
      else if c = CHR ''_'' \<and> prev then parse_digits acc False cs
      else None)"

definition py_int :: "string \<Rightarrow> int option" where
  "py_int s = (case strip_by is_int_space s of
       [] \<Rightarrow> None
     | c # cs \<Rightarrow>
         if c = CHR ''+'' then map_option int (parse_digits 0 False cs)
         else if c = CHR ''-'' then map_option (\<lambda>n. - int n) (parse_digits 0 False cs)
         else map_option int (parse_digits 0 False (c # cs)))"

section \<open>Facts about stripping\<close>

lemma ord_char_of [simp]: "n < 256 \<Longrightarrow> ord (char_of n) = n"
  by (simp add: ord_def)

lemma dropWhile_hd: "dropWhile p s \<noteq> [] \<Longrightarrow> \<not> p (hd (dropWhile p s))"
  by (rule hd_dropWhile)

lemma strip_by_Nil [simp]: "strip_by p [] = []"
  by (simp add: strip_by_def)

lemma dropWhile_id: "s = [] \<or> \<not> p (hd s) \<Longrightarrow> dropWhile p s = s"
  by (cases s) auto

lemma strip_by_id:
  assumes "s = [] \<or> (\<not> p (hd s) \<and> \<not> p (last s))"
  shows "strip_by p s = s"
proof -
  have "dropWhile p s = s"
    using assms by (intro dropWhile_id) auto
  moreover have "dropWhile p (rev s) = rev s"
    using assms by (intro dropWhile_id) (auto simp: hd_rev)
  ultimately show ?thesis by (simp add: strip_by_def)
qed

lemma rev_dropWhile_rev_hd:
  "rev (dropWhile p (rev s)) \<noteq> [] \<Longrightarrow> hd (rev (dropWhile p (rev s))) = hd s"
proof (induction s rule: rev_induct)
  case (snoc c cs)
  then show ?case by (cases "p c") (auto simp: hd_append split: if_splits)
qed simp

lemma strip_by_ends:
  assumes "strip_by p s \<noteq> []"
  shows "\<not> p (hd (strip_by p s))" and "\<not> p (last (strip_by p s))"
proof -
  let ?d = "dropWhile p s"
  have "?d \<noteq> []" using assms unfolding strip_by_def by (metis dropWhile.simps(1) rev.simps(1))
  then have "\<not> p (hd ?d)" by (rule hd_dropWhile)
  moreover have "hd (strip_by p s) = hd ?d"
    using assms rev_dropWhile_rev_hd [of p ?d] by (simp add: strip_by_def)
  ultimately show "\<not> p (hd (strip_by p s))" by simp
  have ne: "dropWhile p (rev ?d) \<noteq> []" using assms by (simp add: strip_by_def)
  then have "\<not> p (hd (dropWhile p (rev ?d)))" by (rule hd_dropWhile)
  then show "\<not> p (last (strip_by p s))"
    by (simp add: strip_by_def last_rev)
qed

lemma strip_by_idem [simp]: "strip_by p (strip_by p s) = strip_by p s"
  by (rule strip_by_id) (use strip_by_ends [of p s] in blast)

lemma strip_by_Nil_iff: "strip_by p s = [] \<longleftrightarrow> list_all p s"
proof
  assume "strip_by p s = []"
  then have "dropWhile p (rev (dropWhile p s)) = []" by (simp add: strip_by_def)
  then have "\<forall>c \<in> set (dropWhile p s). p c" by (simp add: dropWhile_eq_Nil_conv)
  then have "dropWhile p s = []"
    by (metis hd_dropWhile list.set_sel(1))
  then show "list_all p s" by (simp add: dropWhile_eq_Nil_conv list_all_iff)
next
  assume "list_all p s"
  then show "strip_by p s = []"
    by (auto simp: strip_by_def list_all_iff dest: set_dropWhileD)
qed

lemma dropWhile_pad: "list_all p xs \<Longrightarrow> dropWhile p (xs @ s) = dropWhile p s"
  by (induction xs) auto

lemma strip_by_pad_left: "list_all p xs \<Longrightarrow> strip_by p (xs @ s) = strip_by p s"
  by (simp add: strip_by_def dropWhile_pad)

lemma strip_by_pad_right:
  assumes "list_all p ys"
  shows "strip_by p (s @ ys) = strip_by p s"
proof (cases "list_all p s")
  case True
  with assms show ?thesis by (metis list_all_append strip_by_Nil_iff)
next
  case False
  then have "dropWhile p (s @ ys) = dropWhile p s @ ys"
    by (auto simp: dropWhile_append list_all_iff dest: set_dropWhileD)
  with assms show ?thesis
    by (simp add: strip_by_def dropWhile_pad list_all_iff)
qed

lemma strip_by_decomp:
  obtains pre post where "s = pre @ strip_by p s @ post" "list_all p pre" "list_all p post"
proof -
  let ?d = "dropWhile p s"
  have s: "s = takeWhile p s @ ?d" by simp
  have d: "?d = rev (dropWhile p (rev ?d)) @ rev (takeWhile p (rev ?d))"
    by (metis rev_append rev_rev_ident takeWhile_dropWhile_id)
  show thesis
  proof (rule that)
    show "s = takeWhile p s @ strip_by p s @ rev (takeWhile p (rev ?d))"
      using s d by (simp add: strip_by_def)
    show "list_all p (takeWhile p s)"
      by (auto simp: list_all_iff dest: set_takeWhileD)
    show "list_all p (rev (takeWhile p (rev ?d)))"
      by (auto simp: list_all_iff dest: set_takeWhileD)
  qed
qed

lemma length_strip_by: "length (strip_by p s) \<le> length s"
  by (metis length_append le_add1 le_add2 le_trans strip_by_decomp)

section \<open>Facts about splitting and joining\<close>

lemma split_on_not_Nil [simp]: "split_on c s \<noteq> []"
  by (induction s) (auto split: list.splits)

lemma join_with_Cons:
  "ss \<noteq> [] \<Longrightarrow> join_with sep (s # ss) = s @ sep @ join_with sep ss"
  by (cases ss) auto

lemma join_split_on: "join_with [c] (split_on c s) = s"
proof (induction s)
  case (Cons x xs)
  obtain y ys where ys: "split_on c xs = y # ys" by (cases "split_on c xs") auto
  with Cons have "join_with [c] (y # ys) = xs" by simp
  then show ?case by (cases ys) (auto simp: ys)
qed simp

lemma split_on_no_sep: "c \<notin> set s \<Longrightarrow> split_on c s = [s]"
  by (induction s) auto

lemma split_on_append_sep:
  "c \<notin> set s \<Longrightarrow> split_on c (s @ c # t) = s # split_on c t"
  by (induction s) auto

lemma split_on_join:
  "ss \<noteq> [] \<Longrightarrow> \<forall>s \<in> set ss. c \<notin> set s \<Longrightarrow> split_on c (join_with [c] ss) = ss"
  by (induction "[c]" ss rule: join_with.induct)
    (auto simp: split_on_no_sep split_on_append_sep)

lemma split_on_pieces: "s \<in> set (split_on c t) \<Longrightarrow> c \<notin> set s"
  by (induction t arbitrary: s) (force split: list.splits if_splits)+

section \<open>Facts about numbers\<close>

lemma show_nat_not_Nil [simp]: "show_nat n \<noteq> []"
  by (subst show_nat.simps) simp

lemma digit_char [simp]:
  "k < 10 \<Longrightarrow> is_ascii_digit (char_of (48 + k))"
  "k < 10 \<Longrightarrow> ord (char_of (48 + k)) = 48 + k"
  by (simp_all add: is_ascii_digit_def)

lemma show_nat_digits: "list_all is_ascii_digit (show_nat n)"
proof (induction n rule: show_nat.induct)
  case (1 n)
  then show ?case
    by (subst show_nat.simps) auto
qed

lemma parse_digits_append:
  "list_all is_ascii_digit xs \<Longrightarrow> xs \<noteq> [] \<Longrightarrow>
     parse_digits acc b (xs @ [c]) =
       (case parse_digits acc b xs of None \<Rightarrow> None | Some m \<Rightarrow> parse_digits m True [c])"
proof (induction xs arbitrary: acc b)
  case (Cons x xs)
  show ?case
  proof (cases "xs = []")
    case False
    with Cons.prems Cons.IH [of "10 * acc + (ord x - 48)" True] show ?thesis by simp
  qed (use Cons.prems in simp)
qed simp

lemma parse_digits_all: "list_all is_ascii_digit xs \<Longrightarrow> xs \<noteq> [] \<Longrightarrow> parse_digits acc b xs \<noteq> None"
proof (induction xs arbitrary: acc b)
  case (Cons c cs)
  then show ?case by (cases "cs = []") auto
qed simp

lemma parse_show_nat: "parse_digits 0 False (show_nat n) = Some n"
proof (induction n rule: show_nat.induct)
  case (1 n)
  show ?case
  proof (cases "n < 10")
    case True
    then show ?thesis by (subst show_nat.simps) simp
  next
    case False
    then have "parse_digits 0 False (show_nat (n div 10)) = Some (n div 10)" using 1 by simp
    then have "parse_digits 0 False (show_nat (n div 10) @ [char_of (48 + n mod 10)]) = Some n"
      by (simp add: parse_digits_append show_nat_digits)
    with False show ?thesis by (subst show_nat.simps) simp
  qed
qed

lemma show_nat_inj: "show_nat m = show_nat n \<longleftrightarrow> m = n"
  by (metis option.inject parse_show_nat)

lemma show_nat_hd: "is_ascii_digit (hd (show_nat n))"
  by (metis list.set_sel(1) list_all_iff show_nat_digits show_nat_not_Nil)

lemma show_int_inj: "show_int i = show_int j \<longleftrightarrow> i = j"
proof -
  have minus: "\<not> is_ascii_digit (CHR ''-'')"
    by (simp add: is_ascii_digit_def ord_def)
  have ne: "CHR ''-'' # x \<noteq> show_nat n" for x n
    using show_nat_hd [of n] minus by (metis list.sel(1))
  show ?thesis
    by (auto simp: show_int_def show_nat_inj ne ne [symmetric] nat_eq_iff split: if_splits)
qed

lemma digit_not_int_space: "is_ascii_digit c \<Longrightarrow> \<not> is_int_space c"
  by (auto simp: is_ascii_digit_def is_int_space_def Let_def)

lemma py_int_show_int: "py_int (show_int i) = Some i"
proof -
  have last_ok: "\<not> is_int_space (last (show_nat n))" for n
    using show_nat_digits [of n] last_in_set [OF show_nat_not_Nil [of n]]
    by (simp add: list_all_iff digit_not_int_space)
  have hd_ok: "\<not> is_int_space (hd (show_nat n))" for n
    using show_nat_hd by (rule digit_not_int_space)
  have sgn_ok: "\<not> is_int_space (CHR ''-'')"
    by (simp add: is_int_space_def ord_def)
  have "strip_by is_int_space (show_int i) = show_int i"
    by (rule strip_by_id) (auto simp: show_int_def hd_ok last_ok sgn_ok)
  then show ?thesis
  proof (cases "i < 0")
    case True
    then show ?thesis using \<open>strip_by is_int_space (show_int i) = show_int i\<close>
      by (simp add: py_int_def show_int_def parse_show_nat)
  next
    case False
    obtain c cs where ccs: "show_nat (nat i) = c # cs" by (cases "show_nat (nat i)") auto
    then have "is_ascii_digit c" using show_nat_hd [of "nat i"] by simp
    then have "c \<noteq> CHR ''+''" "c \<noteq> CHR ''-''"
      by (auto simp: is_ascii_digit_def ord_def)
    with False ccs show ?thesis
      using \<open>strip_by is_int_space (show_int i) = show_int i\<close> parse_show_nat [of "nat i"]
      by (simp add: py_int_def show_int_def)
  qed
qed

end
