(* ===== verification/Py_Value.thy ===== *)
theory Py_Value
  imports Py_Text
begin

text \<open>
  The dynamically typed values that cross the program's boundaries: schema declarations,
  row cells, request bodies, JSON records. A float is kept as its \<open>repr\<close> text (no arithmetic
  is done on these), any other Python object (a date, a \<open>Decimal\<close>) as its \<open>str\<close> text; such an
  object has no JSON form, so \<open>json.dumps\<close> without a \<open>default=\<close> raises on it.
\<close>

datatype pyval =
    PNone
  | PBool bool
  | PInt int
  | PFloat string
  | PStr string
  | PList "pyval list"
  | PDict "(string \<times> pyval) list"
  | PObj string

type_synonym pyrow = "(string, pyval) dict"

text \<open>Truth value, as in \<open>a or b\<close> and \<open>if not a\<close>.\<close>

fun truthy :: "pyval \<Rightarrow> bool" where
  "truthy PNone = False"
| "truthy (PBool b) = b"
| "truthy (PInt i) = (i \<noteq> 0)"
| "truthy (PFloat s) = (s \<noteq> ''0.0'' \<and> s \<noteq> ''-0.0'')"
| "truthy (PStr s) = (s \<noteq> [])"
| "truthy (PList xs) = (xs \<noteq> [])"
| "truthy (PDict d) = (d \<noteq> [])"
| "truthy (PObj s) = True"

text \<open>Lists and dictionaries cannot be members of a set or keys of a dictionary.\<close>

fun hashable :: "pyval \<Rightarrow> bool" where
  "hashable (PList xs) = False"
| "hashable (PDict d) = False"
| "hashable v = True"

definition dict_get :: "pyrow \<Rightarrow> string \<Rightarrow> pyval" where
  "dict_get d k = (case map_of d k of None \<Rightarrow> PNone | Some v \<Rightarrow> v)"

section \<open>Text forms\<close>

fun hex_digit :: "nat \<Rightarrow> char" where
  "hex_digit n = (if n < 10 then char_of (48 + n) else char_of (87 + n))"

definition hex2 :: "nat \<Rightarrow> string" where
  "hex2 n = [hex_digit (n div 16), hex_digit (n mod 16)]"

definition repr_char :: "char \<Rightarrow> char \<Rightarrow> string" where
  "repr_char q c = (let n = ord c in
     if c = q \<or> c = CHR 0x5C then [CHR 0x5C, c]
     else if n = 10 then [CHR 0x5C, CHR ''n'']
     else if n = 13 then [CHR 0x5C, CHR ''r'']
     else if n = 9 then [CHR 0x5C, CHR ''t'']
     else if n < 32 \<or> (127 \<le> n \<and> n \<le> 160) \<or> n = 173 then [CHR 0x5C, CHR ''x''] @ hex2 n
     else [c])"

definition repr_str :: "string \<Rightarrow> string" where
  "repr_str s = (let q = (if CHR 0x27 \<in> set s \<and> CHR 0x22 \<notin> set s then CHR 0x22 else CHR 0x27)
     in q # concat (map (repr_char q) s) @ [q])"

fun py_repr :: "pyval \<Rightarrow> string" where
  "py_repr PNone = ''None''"
| "py_repr (PBool b) = (if b then ''True'' else ''False'')"
| "py_repr (PInt i) = show_int i"
| "py_repr (PFloat s) = s"
| "py_repr (PStr s) = repr_str s"
| "py_repr (PList xs) = ''['' @ join_with '', '' (map py_repr xs) @ '']''"
| "py_repr (PDict d) =
     ''{'' @ join_with '', '' (map (\<lambda>(k, v). repr_str k @ '': '' @ py_repr v) d) @ ''}''"
| "py_repr (PObj s) = s"

definition py_str :: "pyval \<Rightarrow> string" where
  "py_str v = (case v of PStr s \<Rightarrow> s | _ \<Rightarrow> py_repr v)"

lemma py_str_simps [simp]:
  "py_str (PStr s) = s"
  "py_str (PInt i) = show_int i"
  "py_str PNone = ''None''"
  by (simp_all add: py_str_def)

section \<open>JSON text\<close>

text \<open>
  \<open>json.dumps(v)\<close> with its separators (comma-blank, colon-blank). The escape function tells
  \<open>ensure_ascii\<close>: \<open>json_char\<close> with it (the default, used for the cells of \<open>json\<close> columns),
  \<open>json_char_raw\<close> without (the lines of the file mirror, of the task log and of the result
  files). \<open>None\<close> is the \<open>TypeError\<close> of a value with no JSON form.
\<close>

definition json_short :: "char \<Rightarrow> string option" where
  "json_short c = (let n = ord c in
     if n = 34 \<or> n = 92 then Some [CHR 0x5C, c]
     else if n = 10 then Some [CHR 0x5C, CHR ''n'']
     else if n = 13 then Some [CHR 0x5C, CHR ''r'']
     else if n = 9 then Some [CHR 0x5C, CHR ''t'']
     else if n = 12 then Some [CHR 0x5C, CHR ''f'']
     else if n = 8 then Some [CHR 0x5C, CHR ''b'']
     else None)"

definition json_u :: "char \<Rightarrow> string" where
  "json_u c = [CHR 0x5C, CHR ''u'', CHR ''0'', CHR ''0''] @ hex2 (ord c)"

definition json_char :: "char \<Rightarrow> string" where
  "json_char c = (case json_short c of Some s \<Rightarrow> s
     | None \<Rightarrow> if ord c < 32 \<or> 126 < ord c then json_u c else [c])"

definition json_char_raw :: "char \<Rightarrow> string" where
  "json_char_raw c = (case json_short c of Some s \<Rightarrow> s
     | None \<Rightarrow> if ord c < 32 then json_u c else [c])"

definition json_str :: "(char \<Rightarrow> string) \<Rightarrow> string \<Rightarrow> string" where
  "json_str esc s = CHR 0x22 # concat (map esc s) @ [CHR 0x22]"

fun json_ok :: "pyval \<Rightarrow> bool" where
  "json_ok (PList xs) = list_all json_ok xs"
| "json_ok (PDict d) = list_all (\<lambda>(k, v). json_ok v) d"
| "json_ok (PObj s) = False"
| "json_ok v = True"

fun json_text :: "(char \<Rightarrow> string) \<Rightarrow> pyval \<Rightarrow> string" where
  "json_text esc PNone = ''null''"
| "json_text esc (PBool b) = (if b then ''true'' else ''false'')"
| "json_text esc (PInt i) = show_int i"
| "json_text esc (PFloat s) =
     (if s = ''inf'' then ''Infinity'' else if s = ''-inf'' then ''-Infinity''
      else if s = ''nan'' then ''NaN'' else s)"
| "json_text esc (PStr s) = json_str esc s"
| "json_text esc (PList xs) = CHR ''['' # join_with '', '' (map (json_text esc) xs) @ '']''"
| "json_text esc (PDict d) =
     CHR ''{'' # join_with '', '' (map (\<lambda>(k, v). json_str esc k @ '': '' @ json_text esc v) d) @ ''}''"
| "json_text esc (PObj s) = []"

definition json_dumps :: "pyval \<Rightarrow> string option" where
  "json_dumps v = (if json_ok v then Some (json_text json_char v) else None)"

definition json_line :: "pyval \<Rightarrow> string option" where
  "json_line v = (if json_ok v then Some (json_text json_char_raw v) else None)"

text \<open>\<open>json.dumps(r, default=str)\<close> read back: objects come back as their text.\<close>

fun json_default_str :: "pyval \<Rightarrow> pyval" where
  "json_default_str (PList xs) = PList (map json_default_str xs)"
| "json_default_str (PDict d) = PDict (map (\<lambda>(k, v). (k, json_default_str v)) d)"
| "json_default_str (PObj s) = PStr s"
| "json_default_str v = v"

lemma json_default_str_id: "json_ok v \<Longrightarrow> json_default_str v = v"
proof (induction v)
  case (PList xs)
  then show ?case by (auto simp: list_all_iff intro: map_idI)
next
  case (PDict d)
  then show ?case by (fastforce simp: list_all_iff intro!: map_idI)
qed auto

lemma json_default_str_ok: "json_ok (json_default_str v)"
proof (induction v)
  case (PList xs)
  then show ?case by (auto simp: list_all_iff)
next
  case (PDict d)
  then show ?case by (fastforce simp: list_all_iff)
qed auto

end
