(* ===== verification/Errors_Wire.thy ===== *)
theory Errors_Wire
  imports Py_Value
begin

text \<open>
  The error hierarchy (\<open>seekbase/_types.py\<close>) and its mapping to and from HTTP
  (\<open>seekbase/_wire.py\<close>). An exception is its class and its \<open>str\<close>. Besides the library's own
  classes there are the Python and DuckDB exceptions that the code lets through. In the
  model the message names the raise site; its exact wording is not modelled.
\<close>

datatype err_class =
    SeekbaseError
  | SeekbaseUnavailable
  | SchemaError
  | EmbedderInvalid
  | ReadOnlyError
  | QueryError
  | PermissionDenied
  | NotFound
  | PyTypeError
  | PyValueError
  | PyKeyError
  | PyIndexError
  | PyAttributeError
  | PyOverflowError
  | PyRuntimeError
  | DuckError
  | OSErr

datatype exn = Exn (exn_class: err_class) (exn_msg: string)

type_synonym 'a res = "exn + 'a"

abbreviation raise :: "err_class \<Rightarrow> string \<Rightarrow> 'a res" where
  "raise c m \<equiv> Inl (Exn c m)"

text \<open>\<open>isinstance(exc, SeekbaseError)\<close>: every class of \<open>_types.py\<close> derives from it.\<close>

fun is_seekbase :: "err_class \<Rightarrow> bool" where
  "is_seekbase SeekbaseError = True"
| "is_seekbase SeekbaseUnavailable = True"
| "is_seekbase SchemaError = True"
| "is_seekbase EmbedderInvalid = True"
| "is_seekbase ReadOnlyError = True"
| "is_seekbase QueryError = True"
| "is_seekbase PermissionDenied = True"
| "is_seekbase NotFound = True"
| "is_seekbase c = False"

fun class_name :: "err_class \<Rightarrow> string" where
  "class_name SeekbaseError = ''SeekbaseError''"
| "class_name SeekbaseUnavailable = ''SeekbaseUnavailable''"
| "class_name SchemaError = ''SchemaError''"
| "class_name EmbedderInvalid = ''EmbedderInvalid''"
| "class_name ReadOnlyError = ''ReadOnlyError''"
| "class_name QueryError = ''QueryError''"
| "class_name PermissionDenied = ''PermissionDenied''"
| "class_name NotFound = ''NotFound''"
| "class_name PyTypeError = ''TypeError''"
| "class_name PyValueError = ''ValueError''"
| "class_name PyKeyError = ''KeyError''"
| "class_name PyIndexError = ''IndexError''"
| "class_name PyAttributeError = ''AttributeError''"
| "class_name PyOverflowError = ''OverflowError''"
| "class_name PyRuntimeError = ''RuntimeError''"
| "class_name DuckError = ''Error''"
| "class_name OSErr = ''OSError''"

section \<open>The wire mapping\<close>

definition ERROR_TYPES :: "(string \<times> err_class) list" where
  "ERROR_TYPES = map (\<lambda>c. (class_name c, c))
     [SeekbaseError, SeekbaseUnavailable, SchemaError, EmbedderInvalid,
      ReadOnlyError, QueryError, NotFound, PermissionDenied]"

definition status_for :: "exn \<Rightarrow> nat" where
  "status_for e = (let c = exn_class e in
     if c = SeekbaseUnavailable then 503
     else if c = NotFound then 404
     else if c = PermissionDenied then 403
     else if is_seekbase c then 400
     else 500)"

definition error_body :: "exn \<Rightarrow> pyrow" where
  "error_body e = [(''type'', PStr (class_name (exn_class e))), (''message'', PStr (exn_msg e))]"

text \<open>\<open>err.get("type", "")\<close> is looked up in a dictionary, so it has to be hashable; the message
  becomes the exception's argument, whose \<open>str\<close> is the new exception's text.\<close>

definition exception_from :: "pyrow \<Rightarrow> exn res" where
  "exception_from err = (let ty = (case map_of err ''type'' of None \<Rightarrow> PStr [] | Some v \<Rightarrow> v);
       msg = (case map_of err ''message'' of None \<Rightarrow> PStr [] | Some v \<Rightarrow> v)
     in if \<not> hashable ty then raise PyTypeError ''unhashable type''
        else (let cls = (case ty of PStr n \<Rightarrow> (case map_of ERROR_TYPES n of None \<Rightarrow> SeekbaseError | Some c \<Rightarrow> c)
                           | _ \<Rightarrow> SeekbaseError)
              in Inr (Exn cls (py_str msg))))"

section \<open>Facts\<close>

lemma error_types_lookup: "is_seekbase c \<Longrightarrow> map_of ERROR_TYPES (class_name c) = Some c"
  by (cases c) (simp_all add: ERROR_TYPES_def)

lemma error_types_foreign: "\<not> is_seekbase c \<Longrightarrow> map_of ERROR_TYPES (class_name c) = None"
  by (cases c) (simp_all add: ERROR_TYPES_def)

lemma exception_from_error_body:
  "exception_from (error_body e) =
     Inr (Exn (if is_seekbase (exn_class e) then exn_class e else SeekbaseError) (exn_msg e))"
  by (simp add: exception_from_def error_body_def error_types_lookup error_types_foreign)

lemma status_for_range: "status_for e \<in> {400, 403, 404, 500, 503}"
  by (simp add: status_for_def Let_def)

lemma status_for_500_iff: "status_for e = 500 \<longleftrightarrow> \<not> is_seekbase (exn_class e)"
  by (cases e; cases "exn_class e") (auto simp: status_for_def)

end
