(* ===== verification/Schema_Parse.thy ===== *)
theory Schema_Parse
  imports Errors_Wire
begin

text \<open>
  \<open>struct/schema.py\<close> (Column, TableSpec, Schema) and \<open>seekbase/schema.py\<close> (parsing and
  validating a declared SCHEMA). Raw input is a Python value; every check is a branch in the
  code's order. Names are strings: for a declared name of another type the code raises
  \<open>TypeError\<close> here when it is unhashable and at its first use as an SQL identifier during
  \<open>open\<close> otherwise; the model raises it here in both cases.
\<close>

section \<open>struct/schema.py\<close>

definition META_COLUMNS :: "string list" where
  "META_COLUMNS = [''ds'', ''created_at'', ''deleted_ds'', ''deleted_at'']"

record column =
  c_name :: string
  c_type :: string
  c_sql_type :: string

record tablespec =
  ts_name :: string
  ts_columns :: "column list"
  ts_primary :: string
  ts_searchable :: "string list"

record schema =
  sc_tables :: "tablespec list"

definition column_names :: "tablespec \<Rightarrow> string list" where
  "column_names ts = map c_name (ts_columns ts)"

definition all_column_names :: "tablespec \<Rightarrow> string list" where
  "all_column_names ts = column_names ts @ META_COLUMNS"

definition is_column :: "tablespec \<Rightarrow> string \<Rightarrow> bool" where
  "is_column ts n \<longleftrightarrow> n \<in> set (column_names ts) \<or> n \<in> set META_COLUMNS"

fun find_table :: "tablespec list \<Rightarrow> string \<Rightarrow> tablespec option" where
  "find_table [] n = None"
| "find_table (t # ts) n = (if ts_name t = n then Some t else find_table ts n)"

definition schema_table :: "schema \<Rightarrow> string \<Rightarrow> tablespec res" where
  "schema_table s n = (case find_table (sc_tables s) n of
       Some t \<Rightarrow> Inr t
     | None \<Rightarrow> raise SchemaError ''unknown table'')"

definition table_names :: "schema \<Rightarrow> string list" where
  "table_names s = map ts_name (sc_tables s)"

section \<open>schema.py: types\<close>

definition SCALAR_SQL :: "(string \<times> string) list" where
  "SCALAR_SQL =
     [(''str'', ''VARCHAR''), (''int'', ''BIGINT''), (''float'', ''DOUBLE''), (''bool'', ''BOOLEAN''),
      (''timestamptz'', ''TIMESTAMP WITH TIME ZONE''), (''json'', ''JSON'')]"

definition PRIMARY_OK :: "string list" where
  "PRIMARY_OK = [''str'', ''int'']"

text \<open>
  \<open>^decimal\((\d+),(\d+)\)$\<close>: the two numbers, when the declaration has that form.
\<close>

definition decimal_match :: "string \<Rightarrow> (nat \<times> nat) option" where
  "decimal_match decl = (let s = strip_nl decl in
     if \<not> starts_with ''decimal('' s then None
     else (let r = drop 8 s; p = takeWhile is_ascii_digit r; r2 = dropWhile is_ascii_digit r in
       case r2 of
         [] \<Rightarrow> None
       | c # r3 \<Rightarrow>
           if c \<noteq> CHR '','' then None
           else if dropWhile is_ascii_digit r3 \<noteq> '')'' then None
           else (case (parse_digits 0 False p, parse_digits 0 False (takeWhile is_ascii_digit r3)) of
               (Some m, Some n) \<Rightarrow> Some (m, n)
             | _ \<Rightarrow> None)))"

definition sql_type_of :: "pyval \<Rightarrow> string res" where
  "sql_type_of decl = (case decl of
       PStr d \<Rightarrow>
         (case map_of SCALAR_SQL d of
            Some t \<Rightarrow> Inr t
          | None \<Rightarrow>
              (case decimal_match d of
                 Some (p, s) \<Rightarrow>
                   if \<not> (1 \<le> p \<and> s \<le> p) then raise SchemaError ''illegal decimal''
                   else Inr (''DECIMAL('' @ show_nat p @ '','' @ show_nat s @ '')'')
               | None \<Rightarrow> raise SchemaError ''unknown type''))
     | _ \<Rightarrow> raise PyTypeError ''type declaration is not a str'')"

section \<open>schema.py: columns, tables, the schema\<close>

definition as_name :: "pyval \<Rightarrow> string res" where
  "as_name v = (case v of PStr s \<Rightarrow> Inr s | _ \<Rightarrow> raise PyTypeError ''name is not a str'')"

fun parse_columns_from :: "string list \<Rightarrow> pyval list \<Rightarrow> column list res" where
  "parse_columns_from seen [] = Inr []"
| "parse_columns_from seen (entry # rest) =
     (case entry of
        PDict d \<Rightarrow>
          (case (map_of d ''name'', map_of d ''type'') of
             (Some nm, Some ty) \<Rightarrow>
               bindR (as_name nm) (\<lambda>name.
               if name \<in> set META_COLUMNS then raise SchemaError ''engine-managed column''
               else if name \<in> set seen then raise SchemaError ''duplicate column''
               else bindR (sql_type_of ty) (\<lambda>sql.
               bindR (parse_columns_from (name # seen) rest) (\<lambda>cols.
               Inr (\<lparr>c_name = name, c_type = py_str ty, c_sql_type = sql\<rparr> # cols))))
           | _ \<Rightarrow> raise SchemaError ''need name and type'')
      | _ \<Rightarrow> raise SchemaError ''need name and type'')"

definition parse_columns :: "pyval \<Rightarrow> column list res" where
  "parse_columns raw = (case raw of
       PList es \<Rightarrow>
         if es = [] then raise SchemaError ''columns must be a non-empty list''
         else parse_columns_from [] es
     | _ \<Rightarrow> raise SchemaError ''columns must be a non-empty list'')"

definition find_column :: "column list \<Rightarrow> string \<Rightarrow> column option" where
  "find_column cols n = List.find (\<lambda>c. c_name c = n) cols"

text \<open>\<open>tuple(v)\<close>: what iterating a Python value gives.\<close>

definition py_tuple :: "pyval \<Rightarrow> pyval list res" where
  "py_tuple v = (case v of
       PList xs \<Rightarrow> Inr xs
     | PStr s \<Rightarrow> Inr (map (\<lambda>c. PStr [c]) s)
     | PDict d \<Rightarrow> Inr (map (\<lambda>(k, _). PStr k) d)
     | _ \<Rightarrow> raise PyTypeError ''not iterable'')"

definition check_searchable :: "column list \<Rightarrow> pyval \<Rightarrow> string res" where
  "check_searchable cols s =
     (if \<not> hashable s then raise PyTypeError ''unhashable type''
      else (case s of
         PStr n \<Rightarrow> (case find_column cols n of
             None \<Rightarrow> raise SchemaError ''searchable is not a declared column''
           | Some c \<Rightarrow> if c_type c \<noteq> ''str'' then raise SchemaError ''searchable must be a str column''
                       else Inr n)
       | _ \<Rightarrow> raise SchemaError ''searchable is not a declared column''))"

definition parse_primary :: "column list \<Rightarrow> pyval \<Rightarrow> string res" where
  "parse_primary cols p =
     (if \<not> hashable p then raise PyTypeError ''unhashable type''
      else (case p of
         PStr n \<Rightarrow> (case find_column cols n of
             None \<Rightarrow> raise SchemaError ''primary is not a declared column''
           | Some c \<Rightarrow> if c_type c \<notin> set PRIMARY_OK then raise SchemaError ''primary must be str or int''
                       else Inr n)
       | _ \<Rightarrow> raise SchemaError ''primary is not a declared column''))"

definition parse_table :: "pyval \<Rightarrow> tablespec res" where
  "parse_table entry = (case entry of
       PDict d \<Rightarrow>
         (case map_of d ''table'' of
            None \<Rightarrow> raise SchemaError ''each item needs a table name''
          | Some table \<Rightarrow>
              if \<not> list_all (\<lambda>(k, _). k \<in> {''table'', ''columns'', ''primary'', ''searchable''}) d
              then raise SchemaError ''unknown key''
              else (case map_of d ''columns'' of
                None \<Rightarrow> raise SchemaError ''missing columns''
              | Some rawcols \<Rightarrow>
                  bindR (parse_columns rawcols) (\<lambda>cols.
                  case map_of d ''primary'' of
                    None \<Rightarrow> raise SchemaError ''missing primary''
                  | Some prim \<Rightarrow>
                      bindR (parse_primary cols prim) (\<lambda>pk.
                      bindR (case map_of d ''searchable'' of None \<Rightarrow> Inr [] | Some v \<Rightarrow> py_tuple v) (\<lambda>ss.
                      bindR (mapR (check_searchable cols) ss) (\<lambda>search.
                      bindR (as_name table) (\<lambda>name.
                      Inr \<lparr>ts_name = name, ts_columns = cols, ts_primary = pk,
                           ts_searchable = search\<rparr>)))))))
     | _ \<Rightarrow> raise SchemaError ''each item needs a table name'')"

fun parse_tables_from :: "string list \<Rightarrow> pyval list \<Rightarrow> tablespec list res" where
  "parse_tables_from seen [] = Inr []"
| "parse_tables_from seen (entry # rest) =
     bindR (parse_table entry) (\<lambda>spec.
     if ts_name spec \<in> set seen then raise SchemaError ''duplicate table''
     else bindR (parse_tables_from (ts_name spec # seen) rest) (\<lambda>specs. Inr (spec # specs)))"

definition parse_schema :: "pyval \<Rightarrow> schema res" where
  "parse_schema raw = (case raw of
       PList es \<Rightarrow>
         if es = [] then raise SchemaError ''SCHEMA must be a non-empty list''
         else bindR (parse_tables_from [] es) (\<lambda>ts. Inr \<lparr>sc_tables = ts\<rparr>)
     | _ \<Rightarrow> raise SchemaError ''SCHEMA must be a non-empty list'')"

section \<open>Well-formed schemas\<close>

definition wf_column :: "column \<Rightarrow> bool" where
  "wf_column c \<longleftrightarrow> c_name c \<notin> set META_COLUMNS \<and> sql_type_of (PStr (c_type c)) = Inr (c_sql_type c)"

definition has_column :: "tablespec \<Rightarrow> string \<Rightarrow> string list \<Rightarrow> bool" where
  "has_column ts n types \<longleftrightarrow> list_ex (\<lambda>c. c_name c = n \<and> c_type c \<in> set types) (ts_columns ts)"

definition wf_table :: "tablespec \<Rightarrow> bool" where
  "wf_table ts \<longleftrightarrow> ts_columns ts \<noteq> [] \<and> distinct (column_names ts) \<and>
     list_all wf_column (ts_columns ts) \<and> has_column ts (ts_primary ts) PRIMARY_OK \<and>
     list_all (\<lambda>s. has_column ts s [''str'']) (ts_searchable ts)"

definition wf_schema :: "schema \<Rightarrow> bool" where
  "wf_schema s \<longleftrightarrow> sc_tables s \<noteq> [] \<and> distinct (table_names s) \<and> list_all wf_table (sc_tables s)"

text \<open>The declaration a well-formed schema is the parse of.\<close>

definition raw_column :: "column \<Rightarrow> pyval" where
  "raw_column c = PDict [(''name'', PStr (c_name c)), (''type'', PStr (c_type c))]"

definition raw_table :: "tablespec \<Rightarrow> pyval" where
  "raw_table ts = PDict [(''table'', PStr (ts_name ts)),
     (''columns'', PList (map raw_column (ts_columns ts))),
     (''primary'', PStr (ts_primary ts)),
     (''searchable'', PList (map PStr (ts_searchable ts)))]"

definition raw_schema :: "schema \<Rightarrow> pyval" where
  "raw_schema s = PList (map raw_table (sc_tables s))"

section \<open>What parsing accepts is well formed\<close>

lemma as_name_Inr [simp]: "as_name v = Inr n \<longleftrightarrow> v = PStr n"
  by (auto simp: as_name_def split: pyval.splits)

lemma sql_type_of_str: "sql_type_of v = Inr t \<Longrightarrow> \<exists>d. v = PStr d"
  by (auto simp: sql_type_of_def split: pyval.splits)

lemma parse_columns_from_sound:
  "parse_columns_from seen es = Inr cols \<Longrightarrow>
     list_all wf_column cols \<and> distinct (map c_name cols) \<and>
     set (map c_name cols) \<inter> set seen = {} \<and> length cols = length es"
proof (induction seen es arbitrary: cols rule: parse_columns_from.induct)
  case (2 seen entry rest)
  from "2.prems" obtain d nm ty name sql cs where d: "entry = PDict d"
    and k: "map_of d ''name'' = Some nm" "map_of d ''type'' = Some ty"
    and n: "as_name nm = Inr name" "name \<notin> set META_COLUMNS" "name \<notin> set seen"
    and sql: "sql_type_of ty = Inr sql"
    and cs: "parse_columns_from (name # seen) rest = Inr cs"
    and cols: "cols = \<lparr>c_name = name, c_type = py_str ty, c_sql_type = sql\<rparr> # cs"
    by (auto simp: bindR_Inr_iff split: pyval.splits option.splits if_splits)
  have "list_all wf_column cs \<and> distinct (map c_name cs) \<and>
      set (map c_name cs) \<inter> set (name # seen) = {} \<and> length cs = length rest"
    using "2.IH" d k n sql cs by blast
  moreover obtain t where "ty = PStr t" using sql_type_of_str [OF sql] by blast
  then have "wf_column \<lparr>c_name = name, c_type = py_str ty, c_sql_type = sql\<rparr>"
    using n sql by (simp add: wf_column_def)
  ultimately show ?case using cols n by auto
qed simp

lemma find_column_Some: "find_column cols n = Some c \<Longrightarrow> c \<in> set cols \<and> c_name c = n"
  by (auto simp: find_column_def find_Some_iff)

lemma check_searchable_Inr:
  "check_searchable cols s = Inr n \<Longrightarrow> list_ex (\<lambda>c. c_name c = n \<and> c_type c = ''str'') cols"
  by (auto simp: check_searchable_def list_ex_iff split: if_splits pyval.splits option.splits
      dest!: find_column_Some)

lemma parse_primary_Inr:
  "parse_primary cols p = Inr n \<Longrightarrow> list_ex (\<lambda>c. c_name c = n \<and> c_type c \<in> set PRIMARY_OK) cols"
  by (auto simp: parse_primary_def list_ex_iff split: if_splits pyval.splits option.splits
      dest!: find_column_Some)

lemma mapR_check_searchable:
  "mapR (check_searchable cols) ss = Inr ns \<Longrightarrow>
     \<forall>n \<in> set ns. list_ex (\<lambda>c. c_name c = n \<and> c_type c = ''str'') cols"
  by (induction ss arbitrary: ns) (auto simp: bindR_Inr_iff dest: check_searchable_Inr)

lemma parse_columns_sound:
  "parse_columns raw = Inr cols \<Longrightarrow>
     cols \<noteq> [] \<and> list_all wf_column cols \<and> distinct (map c_name cols)"
  by (auto simp: parse_columns_def split: pyval.splits if_splits dest!: parse_columns_from_sound)

lemma parse_table_sound:
  assumes "parse_table entry = Inr ts"
  shows "wf_table ts"
proof -
  from assms obtain d rawcols prim ss where
    cols: "parse_columns rawcols = Inr (ts_columns ts)" and
    prim: "parse_primary (ts_columns ts) prim = Inr (ts_primary ts)" and
    search: "mapR (check_searchable (ts_columns ts)) ss = Inr (ts_searchable ts)"
    by (auto simp: parse_table_def bindR_Inr_iff split: pyval.splits option.splits if_splits)
      (use mapR.simps(1) in blast)
  have "\<forall>s \<in> set (ts_searchable ts). has_column ts s [''str'']"
    using mapR_check_searchable [OF search] by (simp add: has_column_def)
  then show ?thesis
    using parse_columns_sound [OF cols] parse_primary_Inr [OF prim]
    by (auto simp: wf_table_def column_names_def has_column_def list_all_iff)
qed

lemma parse_tables_from_sound:
  "parse_tables_from seen es = Inr specs \<Longrightarrow>
     list_all wf_table specs \<and> distinct (map ts_name specs) \<and>
     set (map ts_name specs) \<inter> set seen = {} \<and> length specs = length es"
proof (induction seen es arbitrary: specs rule: parse_tables_from.induct)
  case (2 seen entry rest)
  from "2.prems" obtain spec ss where spec: "parse_table entry = Inr spec"
    and new: "ts_name spec \<notin> set seen"
    and ss: "parse_tables_from (ts_name spec # seen) rest = Inr ss" and "specs = spec # ss"
    by (auto simp: bindR_Inr_iff split: if_splits)
  with "2.IH" [OF spec new ss] parse_table_sound [OF spec] show ?case by auto
qed simp

lemma parse_schema_wf: "parse_schema raw = Inr s \<Longrightarrow> wf_schema s"
  by (auto simp: parse_schema_def wf_schema_def table_names_def bindR_Inr_iff
      split: pyval.splits if_splits dest!: parse_tables_from_sound)

section \<open>Every well-formed schema is the parse of its declaration\<close>

lemma find_column_distinct:
  "distinct (map c_name cols) \<Longrightarrow> c \<in> set cols \<Longrightarrow> c_name c = n \<Longrightarrow> find_column cols n = Some c"
  by (induction cols) (auto simp: find_column_def)

lemma parse_raw_columns:
  "list_all wf_column cols \<Longrightarrow> distinct (map c_name cols) \<Longrightarrow>
     set (map c_name cols) \<inter> set seen = {} \<Longrightarrow>
     parse_columns_from seen (map raw_column cols) = Inr cols"
  by (induction cols arbitrary: seen) (auto simp: raw_column_def wf_column_def as_name_def)

lemma parse_raw_table: "wf_table ts \<Longrightarrow> parse_table (raw_table ts) = Inr ts"
proof -
  assume wf: "wf_table ts"
  let ?cols = "ts_columns ts"
  have dist: "distinct (map c_name ?cols)" using wf by (simp add: wf_table_def column_names_def)
  have cols: "parse_columns (PList (map raw_column ?cols)) = Inr ?cols"
    using wf parse_raw_columns [of ?cols "[]"]
    by (auto simp: parse_columns_def wf_table_def column_names_def)
  have prim: "parse_primary ?cols (PStr (ts_primary ts)) = Inr (ts_primary ts)"
    using wf find_column_distinct [OF dist]
    by (auto simp: parse_primary_def wf_table_def has_column_def list_ex_iff)
  have "\<And>s. s \<in> set (ts_searchable ts) \<Longrightarrow> check_searchable ?cols (PStr s) = Inr s"
    using wf find_column_distinct [OF dist]
    by (fastforce simp: check_searchable_def wf_table_def has_column_def list_ex_iff list_all_iff)
  then have "mapR (check_searchable ?cols) (map PStr (ts_searchable ts)) = Inr (ts_searchable ts)"
    by (simp add: mapR_Inr_iff list_all2_map1 list.rel_refl_strong)
  with cols prim show ?thesis
    by (simp add: parse_table_def raw_table_def py_tuple_def as_name_def)
qed

lemma parse_raw_tables:
  "list_all wf_table ts \<Longrightarrow> distinct (map ts_name ts) \<Longrightarrow> set (map ts_name ts) \<inter> set seen = {} \<Longrightarrow>
     parse_tables_from seen (map raw_table ts) = Inr ts"
  by (induction ts arbitrary: seen) (auto simp: parse_raw_table)

lemma parse_raw_schema: "wf_schema s \<Longrightarrow> parse_schema (raw_schema s) = Inr s"
  by (auto simp: parse_schema_def raw_schema_def wf_schema_def table_names_def parse_raw_tables)

section \<open>Lookup\<close>

lemma find_table_Some: "find_table ts n = Some t \<Longrightarrow> t \<in> set ts \<and> ts_name t = n"
  by (induction ts) (auto split: if_splits)

lemma find_table_None: "find_table ts n = None \<longleftrightarrow> n \<notin> set (map ts_name ts)"
  by (induction ts) auto

lemma schema_table_Inr:
  "schema_table s n = Inr t \<Longrightarrow> t \<in> set (sc_tables s) \<and> ts_name t = n"
  by (auto simp: schema_table_def split: option.splits dest: find_table_Some)

lemma schema_table_distinct:
  "distinct (map ts_name ts) \<Longrightarrow> t \<in> set ts \<Longrightarrow> find_table ts (ts_name t) = Some t"
  by (induction ts) auto

lemma schema_table_total:
  "(\<exists>t. schema_table s n = Inr t) \<longleftrightarrow> n \<in> set (table_names s)"
proof (cases "find_table (sc_tables s) n")
  case None
  then have "n \<notin> set (table_names s)" by (simp add: table_names_def find_table_None)
  with None show ?thesis by (simp add: schema_table_def)
next
  case (Some t)
  then show ?thesis using find_table_Some [OF Some] by (auto simp: schema_table_def table_names_def)
qed

lemma wf_schema_table: "wf_schema s \<Longrightarrow> schema_table s n = Inr t \<Longrightarrow> wf_table t"
  by (auto simp: wf_schema_def list_all_iff dest: schema_table_Inr)

lemma wf_table_primary: "wf_table ts \<Longrightarrow> ts_primary ts \<in> set (column_names ts)"
  by (force simp: wf_table_def has_column_def list_ex_iff column_names_def)

lemma wf_table_searchable: "wf_table ts \<Longrightarrow> set (ts_searchable ts) \<subseteq> set (column_names ts)"
  by (force simp: wf_table_def has_column_def list_ex_iff list_all_iff column_names_def)

end
