(* ===== verification/Pipeline_Split.thy ===== *)
theory Pipeline_Split
  imports Errors_Wire
begin

text \<open>
  The text scanners of \<open>service/pipeline_service.py\<close>: \<open>split_pipeline\<close>, \<open>_count_placeholders\<close> and
  the leading-token pattern \<open>_LEAD\<close>, each written as the code's loop, and the one quote
  automaton both loops implement. The facts are about what a split keeps: the text, the
  quoting, the placeholders.
\<close>

definition is_quote :: "char \<Rightarrow> bool" where
  "is_quote c \<longleftrightarrow> c = CHR 0x27 \<or> c = CHR 0x22"

section \<open>The loops of the code\<close>

text \<open>\<open>split_pipeline\<close>: the open quote, the current buffer and the finished segments.\<close>

fun split_scan :: "char option \<Rightarrow> string \<Rightarrow> string list \<Rightarrow> string \<Rightarrow> string list" where
  "split_scan q buf segs [] = segs @ [buf]"
| "split_scan (Some k) buf segs (c # rest) =
     (if c = k then
        (case rest of
           [] \<Rightarrow> split_scan None (buf @ [c]) segs rest
         | d # rest' \<Rightarrow> if d = k then split_scan (Some k) (buf @ [c, d]) segs rest'
                        else split_scan None (buf @ [c]) segs rest)
      else split_scan (Some k) (buf @ [c]) segs rest)"
| "split_scan None buf segs (c # rest) =
     (if is_quote c then split_scan (Some c) (buf @ [c]) segs rest
      else if c = CHR ''|'' then
        (case rest of
           [] \<Rightarrow> split_scan None [] (segs @ [buf]) rest
         | d # rest' \<Rightarrow> if d = CHR ''|'' then split_scan None (buf @ ''||'') segs rest'
                        else split_scan None [] (segs @ [buf]) rest)
      else split_scan None (buf @ [c]) segs rest)"

definition split_pipeline :: "string \<Rightarrow> string list res" where
  "split_pipeline text = (let out = map py_strip (split_scan None [] [] text) in
     if list_ex (\<lambda>s. s = []) out then raise QueryError ''empty pipeline segment'' else Inr out)"

text \<open>\<open>_count_placeholders\<close>: the open quote, the count so far.\<close>

fun count_scan :: "char option \<Rightarrow> nat \<Rightarrow> string \<Rightarrow> nat" where
  "count_scan q n [] = n"
| "count_scan (Some k) n (c # rest) =
     (if c = k then
        (case rest of
           [] \<Rightarrow> count_scan None n rest
         | d # rest' \<Rightarrow> if d = k then count_scan (Some k) n rest' else count_scan None n rest)
      else count_scan (Some k) n rest)"
| "count_scan None n (c # rest) =
     (if is_quote c then count_scan (Some c) n rest
      else if c = CHR ''?'' then count_scan None (Suc n) rest
      else count_scan None n rest)"

definition count_placeholders :: "string \<Rightarrow> nat" where
  "count_placeholders sql = count_scan None 0 sql"

text \<open>
  \<open>_LEAD = ^\s*([A-Za-z_][A-Za-z0-9_]*)\<close>: the leading token and the text after the match.
\<close>

definition lead_match :: "string \<Rightarrow> (string \<times> string) option" where
  "lead_match s = (let t = dropWhile is_space s in
     case t of [] \<Rightarrow> None
     | c # _ \<Rightarrow> if is_ident_start c then Some (takeWhile is_ident_char t, dropWhile is_ident_char t)
                else None)"

section \<open>The quote automaton\<close>

text \<open>
  A quote opens a literal, the same quote closes it. A doubled quote inside a literal
  closes and reopens it, so it needs no case of its own.
\<close>

fun qstep :: "char option \<Rightarrow> char \<Rightarrow> char option" where
  "qstep (Some k) c = (if c = k then None else Some k)"
| "qstep None c = (if is_quote c then Some c else None)"

definition qrun :: "char option \<Rightarrow> string \<Rightarrow> char option" where
  "qrun q s = foldl qstep q s"

fun holes :: "char option \<Rightarrow> string \<Rightarrow> nat" where
  "holes q [] = 0"
| "holes q (c # s) = (if q = None \<and> c = CHR ''?'' then 1 else 0) + holes (qstep q c) s"

text \<open>Text that leaves no literal open.\<close>

definition closed_text :: "string \<Rightarrow> bool" where
  "closed_text s \<longleftrightarrow> qrun None s = None"

definition valid_q :: "char option \<Rightarrow> bool" where
  "valid_q q \<longleftrightarrow> (case q of None \<Rightarrow> True | Some k \<Rightarrow> is_quote k)"

lemma qrun_simps [simp]:
  "qrun q [] = q"
  "qrun q (c # s) = qrun (qstep q c) s"
  "qrun q (s @ t) = qrun (qrun q s) t"
  by (simp_all add: qrun_def)

lemma is_quote_not_hole [simp]: "\<not> is_quote (CHR ''?'')" "\<not> is_quote (CHR ''|'')"
  by (simp_all add: is_quote_def)

lemma valid_q_simps [simp]: "valid_q None" "valid_q (Some k) = is_quote k"
  by (simp_all add: valid_q_def)

lemma valid_q_step: "valid_q q \<Longrightarrow> valid_q (qstep q c)"
  by (cases q) auto

lemma holes_append: "holes q (s @ t) = holes q s + holes (qrun q s) t"
  by (induction s arbitrary: q) auto

lemma count_scan_holes: "valid_q q \<Longrightarrow> count_scan q n s = n + holes q s"
proof (induction q n s rule: count_scan.induct)
  case (2 k n c rest)
  then show ?case by (cases rest) (auto simp: is_quote_def)
qed auto

lemma count_placeholders_holes: "count_placeholders s = holes None s"
  by (simp add: count_placeholders_def count_scan_holes)

lemma count_placeholders_append:
  "closed_text s \<Longrightarrow> count_placeholders (s @ t) = count_placeholders s + count_placeholders t"
  by (simp add: count_placeholders_holes holes_append closed_text_def)

lemma closed_text_append: "closed_text s \<Longrightarrow> closed_text (s @ t) \<longleftrightarrow> closed_text t"
  by (simp add: closed_text_def)

text \<open>Text without quotes: closed, and every question mark is a placeholder.\<close>

lemma qrun_no_quote: "\<forall>c \<in> set s. \<not> is_quote c \<Longrightarrow> qrun None s = None"
  by (induction s) auto

lemma closed_no_quote: "\<forall>c \<in> set s. \<not> is_quote c \<Longrightarrow> closed_text s"
  by (simp add: closed_text_def qrun_no_quote)

lemma holes_no_quote:
  "\<forall>c \<in> set s. \<not> is_quote c \<Longrightarrow> holes None s = length (filter (\<lambda>c. c = CHR ''?'') s)"
  by (induction s) auto

lemma qrun_in_literal: "k \<notin> set s \<Longrightarrow> qrun (Some k) s = Some k"
  by (induction s) auto

lemma holes_in_literal: "k \<notin> set s \<Longrightarrow> holes (Some k) s = 0"
  by (induction s) auto

text \<open>A quoted literal that does not contain its quote.\<close>

lemma closed_literal:
  "is_quote k \<Longrightarrow> k \<notin> set s \<Longrightarrow> closed_text (k # s @ [k])"
  by (simp add: closed_text_def qrun_in_literal)

lemma holes_literal:
  "is_quote k \<Longrightarrow> k \<notin> set s \<Longrightarrow> count_placeholders (k # s @ [k]) = 0"
  by (auto simp: count_placeholders_holes holes_append holes_in_literal qrun_in_literal)

section \<open>What a split keeps\<close>

text \<open>A segment as the loop leaves it: no bar outside literals but doubled ones.\<close>

fun bar_free :: "char option \<Rightarrow> string \<Rightarrow> bool" where
  "bar_free q [] = True"
| "bar_free (Some k) (c # s) = bar_free (qstep (Some k) c) s"
| "bar_free None (c # s) =
     (if c = CHR ''|'' then (case s of [] \<Rightarrow> False | d # s' \<Rightarrow> d = CHR ''|'' \<and> bar_free None s')
      else bar_free (qstep None c) s)"

text \<open>The same split without accumulators: the first segment grows at its front.\<close>

definition cons_hd :: "char \<Rightarrow> string list \<Rightarrow> string list" where
  "cons_hd c ss = (case ss of [] \<Rightarrow> [[c]] | t # ts \<Rightarrow> (c # t) # ts)"

fun segs_of :: "char option \<Rightarrow> string \<Rightarrow> string list" where
  "segs_of q [] = [[]]"
| "segs_of (Some k) (c # s) = cons_hd c (segs_of (qstep (Some k) c) s)"
| "segs_of None (c # s) =
     (if c = CHR ''|'' then
        (case s of
           [] \<Rightarrow> [] # segs_of None s
         | d # s' \<Rightarrow> if d = CHR ''|'' then cons_hd c (cons_hd d (segs_of None s'))
                     else [] # segs_of None s)
      else cons_hd c (segs_of (qstep None c) s))"

lemma cons_hd_not_Nil [simp]: "cons_hd c ss \<noteq> []"
  by (simp add: cons_hd_def split: list.splits)

lemma segs_of_not_Nil [simp]: "segs_of q s \<noteq> []"
proof (induction q s rule: segs_of.induct)
  case (3 c s)
  then show ?case by (cases s) auto
qed auto

lemma cons_hd_simps [simp]:
  "ss \<noteq> [] \<Longrightarrow> hd (cons_hd c ss) = c # hd ss"
  "tl (cons_hd c ss) = tl ss"
  by (simp_all add: cons_hd_def split: list.splits)

lemma cons_hd_eq: "ss \<noteq> [] \<Longrightarrow> cons_hd c ss = (c # hd ss) # tl ss"
  by (cases ss) (auto simp: cons_hd_def)

lemma split_scan_segs_of:
  "valid_q q \<Longrightarrow> split_scan q buf segs s = segs @ (buf @ hd (segs_of q s)) # tl (segs_of q s)"
proof (induction q buf segs s rule: split_scan.induct)
  case (2 k buf segs c rest)
  then show ?case by (cases rest) (auto simp: is_quote_def)
next
  case (3 buf segs c rest)
  show ?case
  proof (cases "c = CHR ''|''")
    case True
    with 3 show ?thesis by (cases rest) (auto simp: cons_hd_eq)
  next
    case False
    with 3 show ?thesis by simp
  qed
qed simp

lemma split_scan_is: "split_scan None [] [] s = segs_of None s"
  by (simp add: split_scan_segs_of)

lemma join_cons_hd: "ss \<noteq> [] \<Longrightarrow> join_with sep (cons_hd c ss) = c # join_with sep ss"
  by (cases ss; cases "tl ss") (auto simp: cons_hd_def)

lemma segs_of_join: "join_with ''|'' (segs_of q s) = s"
proof (induction q s rule: segs_of.induct)
  case (3 c s)
  then show ?case by (cases s) (auto simp: join_cons_hd join_with_Cons)
qed (auto simp: join_cons_hd)

text \<open>Every segment but the last leaves no literal open; the placeholders are shared out.\<close>

lemma segs_of_closed:
  "tl (segs_of q s) \<noteq> [] \<Longrightarrow>
     qrun q (hd (segs_of q s)) = None \<and> list_all closed_text (butlast (tl (segs_of q s)))"
proof (induction q s rule: segs_of.induct)
  case (3 c s)
  show ?case
  proof (cases "c = CHR ''|''")
    case bar: True
    show ?thesis
    proof (cases s)
      case (Cons d s')
      show ?thesis
      proof (cases "d = CHR ''|''")
        case True
        with 3 bar Cons show ?thesis by simp
      next
        case False
        have "segs_of None s \<noteq> []" by simp
        then obtain t ts where ts: "segs_of None s = t # ts" by (cases "segs_of None s") auto
        have "ts \<noteq> [] \<Longrightarrow> closed_text t \<and> list_all closed_text (butlast ts)"
          using "3.IH"(3) [OF bar Cons False] unfolding ts by (simp flip: closed_text_def)
        moreover have "segs_of None (c # s) = [] # t # ts" using bar Cons False ts by simp
        ultimately show ?thesis by auto
      qed
    qed (use bar in simp)
  next
    case False
    with 3 show ?thesis by simp
  qed
qed auto

lemma segs_of_holes:
  "holes q s = holes q (hd (segs_of q s)) + sum_list (map count_placeholders (tl (segs_of q s)))"
proof (induction q s rule: segs_of.induct)
  case (3 c s)
  show ?case
  proof (cases "c = CHR ''|''")
    case bar: True
    show ?thesis
    proof (cases s)
      case (Cons d s')
      show ?thesis
      proof (cases "d = CHR ''|''")
        case True
        with 3 bar Cons show ?thesis by simp
      next
        case False
        have "segs_of None s \<noteq> []" by simp
        then obtain t ts where ts: "segs_of None s = t # ts" by (cases "segs_of None s") auto
        moreover have "segs_of None (c # s) = [] # t # ts" using bar Cons False ts by simp
        moreover have "holes None (c # s) = holes None s" using bar by simp
        ultimately show ?thesis using "3.IH"(3) [OF bar Cons False]
          by (simp add: count_placeholders_holes)
      qed
    qed (use bar in \<open>simp add: count_placeholders_holes\<close>)
  next
    case False
    with 3 show ?thesis by simp
  qed
qed (auto simp: count_placeholders_holes)

lemma segs_of_bar_free:
  "bar_free q (hd (segs_of q s)) \<and> list_all (bar_free None) (tl (segs_of q s))"
proof (induction q s rule: segs_of.induct)
  case (3 c s)
  show ?case
  proof (cases "c = CHR ''|''")
    case bar: True
    show ?thesis
    proof (cases s)
      case (Cons d s')
      show ?thesis
      proof (cases "d = CHR ''|''")
        case True
        with 3 bar Cons show ?thesis by simp
      next
        case False
        have "segs_of None s \<noteq> []" by simp
        then obtain t ts where ts: "segs_of None s = t # ts" by (cases "segs_of None s") auto
        moreover have "segs_of None (c # s) = [] # t # ts" using bar Cons False ts by simp
        ultimately show ?thesis using "3.IH"(3) [OF bar Cons False] by simp
      qed
    qed (use bar in simp)
  next
    case False
    with 3 show ?thesis by simp
  qed
qed auto

text \<open>Conversely, bar-free text is one segment, and a single bar after closed text cuts.\<close>

lemma segs_of_one: "bar_free q s \<Longrightarrow> segs_of q s = [s]"
proof (induction q s rule: bar_free.induct)
  case (3 c s)
  then show ?case by (cases s) (auto simp: cons_hd_def split: if_splits)
qed (auto simp: cons_hd_def)

lemma segs_of_cut:
  "bar_free q a \<Longrightarrow> qrun q a = None \<Longrightarrow> b = [] \<or> hd b \<noteq> CHR ''|'' \<Longrightarrow>
     segs_of q (a @ CHR ''|'' # b) = a # segs_of None b"
proof (induction q a rule: bar_free.induct)
  case (1 q)
  then show ?case by (cases b) auto
next
  case (3 c s)
  then show ?case by (cases s) (auto simp: cons_hd_def split: if_splits)
qed (auto simp: cons_hd_def)

lemma bar_free_prefix_no_bar:
  "CHR ''|'' \<notin> set a \<Longrightarrow> bar_free q (a @ b) = bar_free (qrun q a) b"
proof (induction a arbitrary: q)
  case (Cons c a)
  then show ?case by (cases q) auto
qed simp

lemma bar_free_drop_suffix:
  "bar_free q (a @ b) \<Longrightarrow> b = [] \<or> hd b \<noteq> CHR ''|'' \<Longrightarrow> bar_free q a"
proof (induction q a rule: bar_free.induct)
  case (3 c s)
  show ?case
  proof (cases s)
    case Nil
    then show ?thesis using "3.prems" by (cases b) (auto split: if_splits)
  next
    case (Cons d s')
    then show ?thesis using 3 by (auto split: if_splits)
  qed
qed auto

lemma bar_free_add_suffix:
  "bar_free q a \<Longrightarrow> CHR ''|'' \<notin> set b \<Longrightarrow> bar_free q (a @ b)"
proof (induction q a rule: bar_free.induct)
  case (1 q)
  then show ?case using bar_free_prefix_no_bar [of b q "[]"] by simp
next
  case (3 c s)
  then show ?case by (cases s) (auto split: if_splits)
qed auto

section \<open>Blanks around a segment\<close>

lemma space_facts:
  assumes "is_space c"
  shows "\<not> is_quote c" and "c \<noteq> CHR ''?''" and "c \<noteq> CHR ''|''"
  using assms by (auto simp: is_space_def is_quote_def ord_def)

lemma holes_spaces: "list_all is_space s \<Longrightarrow> holes q s = 0"
proof (induction s arbitrary: q)
  case (Cons c s)
  then show ?case by (cases q) (auto dest: space_facts)
qed simp

lemma qrun_spaces: "list_all is_space s \<Longrightarrow> valid_q q \<Longrightarrow> qrun q s = q"
proof (induction s arbitrary: q)
  case (Cons c s)
  then show ?case by (cases q) (auto dest: space_facts)
qed simp

lemma no_bar_spaces: "list_all is_space s \<Longrightarrow> CHR ''|'' \<notin> set s"
  using space_facts(3) by (auto simp: list_all_iff)

lemma count_placeholders_strip [simp]: "count_placeholders (py_strip s) = count_placeholders s"
proof -
  obtain a b where s: "s = a @ py_strip s @ b" and ab: "list_all is_space a" "list_all is_space b"
    by (rule strip_by_decomp)
  have "holes None (a @ t @ b) = holes None t" for t
    using ab by (simp add: holes_append holes_spaces qrun_spaces)
  from this [of "py_strip s", folded s] show ?thesis by (simp add: count_placeholders_holes)
qed

lemma closed_text_strip [simp]: "closed_text (py_strip s) = closed_text s"
proof -
  obtain a b where s: "s = a @ py_strip s @ b" and ab: "list_all is_space a" "list_all is_space b"
    by (rule strip_by_decomp)
  have v: "valid_q q \<Longrightarrow> valid_q (qrun q t)" for q t
    by (induction t arbitrary: q) (auto simp: valid_q_step)
  have "qrun None (a @ t @ b) = qrun None t" for t
    using ab by (simp add: qrun_spaces v)
  from this [of "py_strip s", folded s] show ?thesis by (simp add: closed_text_def)
qed

lemma bar_free_strip: "bar_free None s \<Longrightarrow> bar_free None (py_strip s)"
proof -
  assume bf: "bar_free None s"
  obtain a b where s: "s = a @ py_strip s @ b" and ab: "list_all is_space a" "list_all is_space b"
    by (rule strip_by_decomp)
  have "bar_free None (a @ (py_strip s @ b))" using bf by (simp flip: s)
  then have "bar_free None (py_strip s @ b)"
    using bar_free_prefix_no_bar [OF no_bar_spaces [OF ab(1)]] ab(1) by (simp add: qrun_spaces)
  then show ?thesis
    by (rule bar_free_drop_suffix) (use no_bar_spaces [OF ab(2)] in \<open>cases b, auto\<close>)
qed

section \<open>The result of a split\<close>

lemma split_pipeline_Inr:
  "split_pipeline inp = Inr segs \<longleftrightarrow>
     segs = map py_strip (segs_of None inp) \<and> [] \<notin> set segs"
proof -
  let ?out = "map py_strip (segs_of None inp)"
  have "list_ex (\<lambda>s. s = []) ?out \<longleftrightarrow> [] \<in> set ?out"
    by (auto simp: list_ex_iff image_iff)
  then show ?thesis by (auto simp: split_pipeline_def split_scan_is Let_def)
qed

lemma split_pipeline_error: "split_pipeline inp = Inl e \<Longrightarrow> exn_class e = QueryError"
  by (auto simp: split_pipeline_def Let_def split: if_splits)

lemma split_pipeline_counts:
  "split_pipeline inp = Inr segs \<Longrightarrow>
     sum_list (map count_placeholders segs) = count_placeholders inp"
proof -
  assume "split_pipeline inp = Inr segs"
  then have segs: "segs = map py_strip (segs_of None inp)" by (simp add: split_pipeline_Inr)
  obtain t ts where ts: "segs_of None inp = t # ts" by (cases "segs_of None inp") auto
  show ?thesis
    using segs_of_holes [of None inp] segs ts
    by (simp add: comp_def flip: count_placeholders_holes)
qed

lemma split_pipeline_segments:
  assumes "split_pipeline inp = Inr segs"
  shows "segs \<noteq> []"
    and "list_all closed_text (butlast segs)"
    and "list_all (bar_free None) segs"
    and "list_all (\<lambda>s. s \<noteq> [] \<and> py_strip s = s) segs"
proof -
  have segs: "segs = map py_strip (segs_of None inp)" and ne: "[] \<notin> set segs"
    using assms unfolding split_pipeline_Inr by blast+
  obtain t ts where ts: "segs_of None inp = t # ts" by (cases "segs_of None inp") auto
  show "segs \<noteq> []" using segs by simp
  show "list_all closed_text (butlast segs)"
    using segs_of_closed [of None inp] segs ts
    by (cases "ts = []") (auto simp: list_all_iff map_butlast [symmetric] closed_text_def [symmetric])
  show "list_all (bar_free None) segs"
    using segs_of_bar_free [of None inp] segs ts by (auto simp: list_all_iff bar_free_strip)
  show "list_all (\<lambda>s. s \<noteq> [] \<and> py_strip s = s) segs"
  proof -
    have "\<forall>s \<in> set segs. py_strip s = s" by (auto simp: segs)
    then show ?thesis using ne by (auto simp: list_all_iff)
  qed
qed

text \<open>Writing a pipeline and splitting it gives the segments back.\<close>

definition clean_segment :: "string \<Rightarrow> bool" where
  "clean_segment s \<longleftrightarrow> s \<noteq> [] \<and> py_strip s = s \<and> closed_text s \<and> bar_free None s"

lemma space_is_space [simp]: "is_space (CHR '' '')"
  by (simp add: is_space_def ord_def)

lemma segs_of_written:
  assumes "list_all clean_segment segs" and "segs \<noteq> []" and "pre = [] \<or> pre = '' ''"
  shows "map py_strip (segs_of None (pre @ join_with '' | '' segs)) = segs"
  using assms
proof (induction segs arbitrary: pre)
  case (Cons s ss)
  have s: "py_strip s = s" "closed_text s" "bar_free None s"
    using Cons.prems by (auto simp: clean_segment_def)
  have pre: "list_all is_space pre" "CHR ''|'' \<notin> set pre"
    using Cons.prems(3) by auto
  show ?case
  proof (cases ss)
    case Nil
    have "bar_free None (pre @ s)"
      using bar_free_prefix_no_bar [OF pre(2)] pre(1) s(3) by (simp add: qrun_spaces)
    then show ?thesis using Nil pre(1) s(1) by (simp add: segs_of_one strip_by_pad_left)
  next
    case (Cons s2 ss2)
    let ?a = "pre @ s @ '' ''"
    have bf: "bar_free None ?a"
      using bar_free_prefix_no_bar [OF pre(2)] pre(1) s(3) bar_free_add_suffix [OF s(3), of "'' ''"]
      by (simp add: qrun_spaces)
    have cl: "qrun None ?a = None"
      using pre(1) s(2) qrun_spaces [of "'' ''" None] by (simp add: qrun_spaces closed_text_def)
    have "segs_of None (?a @ CHR ''|'' # ('' '' @ join_with '' | '' ss)) =
        ?a # segs_of None ('' '' @ join_with '' | '' ss)"
      by (rule segs_of_cut [OF bf cl]) simp
    moreover have "pre @ join_with '' | '' (s # ss) = ?a @ CHR ''|'' # ('' '' @ join_with '' | '' ss)"
      using Cons by simp
    moreover have "map py_strip (segs_of None ('' '' @ join_with '' | '' ss)) = ss"
      using Cons.IH [of "'' ''"] Cons.prems Cons by simp
    moreover have "py_strip ?a = s"
      using pre(1) s(1) by (simp add: strip_by_pad_left strip_by_pad_right)
    ultimately show ?thesis by simp
  qed
qed simp

lemma split_written:
  "list_all clean_segment segs \<Longrightarrow> segs \<noteq> [] \<Longrightarrow>
     split_pipeline (join_with '' | '' segs) = Inr segs"
  using segs_of_written [of segs "[]"]
  by (auto simp: split_pipeline_Inr clean_segment_def list_all_iff)

section \<open>Leading tokens\<close>

lemma lead_match_Some:
  assumes "lead_match s = Some (tok, rest)"
  shows "tok \<noteq> []" and "list_all is_ident_char tok" and "dropWhile is_space s = tok @ rest"
proof -
  let ?t = "dropWhile is_space s"
  from assms obtain c cs where t: "?t = c # cs" and c: "is_ident_start c"
    and tok: "tok = takeWhile is_ident_char ?t" and rest: "rest = dropWhile is_ident_char ?t"
    by (auto simp: lead_match_def Let_def split: list.splits if_splits)
  show "tok \<noteq> []" using c by (simp add: tok t is_ident_char_def)
  show "list_all is_ident_char tok" by (auto simp: tok list_all_iff dest: set_takeWhileD)
  show "?t = tok @ rest" by (simp add: tok rest)
qed

end
