(* ===== verification/Sql_Text.thy ===== *)
theory Sql_Text
  imports Schema_Parse Pipeline_Split Complex_Main
begin

text \<open>
  The SQL the store sends to DuckDB (\<open>service/store_service.py\<close>): identifiers, the as-of
  predicate, the visibility view, the two hybrid-search statements and the DDL, as the exact
  text the f-strings build. Beside the text, the as-of predicate is kept as data
  (\<open>asof_cond\<close>), so that the theory of rows can say what it means. The facts here are
  lexical: quoting stays balanced and each statement has as many placeholders as parameters.
\<close>

section \<open>Identifiers and literals\<close>

definition qid :: "string \<Rightarrow> string" where
  "qid n = CHR 0x22 # n @ [CHR 0x22]"

definition qlit :: "string \<Rightarrow> string" where
  "qlit s = CHR 0x27 # s @ [CHR 0x27]"

definition veccol :: "string \<Rightarrow> string" where
  "veccol col = ''_vec_'' @ col"

definition tokcol :: "string \<Rightarrow> string" where
  "tokcol col = ''_tok_'' @ col"

definition sql_ident :: "string \<Rightarrow> string res" where
  "sql_ident name = (if \<not> is_ident (strip_nl name) then raise QueryError ''illegal identifier''
     else Inr (qid name))"

definition phys :: "string \<Rightarrow> string res" where
  "phys name = sql_ident (''_sb_'' @ name)"

text \<open>\<open>_DS_RE = ^\d{8}$\<close>.\<close>

definition ds_match :: "string \<Rightarrow> bool" where
  "ds_match v \<longleftrightarrow> (let s = strip_nl v in length s = 8 \<and> list_all is_ascii_digit s)"

definition check_ds :: "string \<Rightarrow> string option \<Rightarrow> unit res" where
  "check_ds label value = (case value of
       None \<Rightarrow> Inr ()
     | Some v \<Rightarrow> if \<not> ds_match v then raise QueryError (label @ '' must be YYYYMMDD'') else Inr ())"

definition rstrip_semi :: "string \<Rightarrow> string" where
  "rstrip_semi s = rev (dropWhile (\<lambda>c. c = CHR '';'') (rev s))"

definition one_statement :: "string \<Rightarrow> string \<Rightarrow> string res" where
  "one_statement sql label = (let s = py_strip (rstrip_semi (py_strip sql)) in
     if CHR '';'' \<in> set s then raise QueryError (label @ '' must be a single statement'') else Inr s)"

section \<open>The visibility predicate\<close>

text \<open>
  The four conditions \<open>_asof_conds\<close> may emit, on the metadata columns.
\<close>

datatype asof_cond = DeletedIsNull | DsLe string | NotDeletedBy string | DsGe string

fun render_cond :: "asof_cond \<Rightarrow> string" where
  "render_cond DeletedIsNull = qid ''deleted_ds'' @ '' IS NULL''"
| "render_cond (DsLe d) = qid ''ds'' @ '' <= '' @ qlit d"
| "render_cond (NotDeletedBy d) =
     ''('' @ qid ''deleted_ds'' @ '' IS NULL OR '' @ qid ''deleted_ds'' @ '' > '' @ qlit d @ '')''"
| "render_cond (DsGe d) = qid ''ds'' @ '' >= '' @ qlit d"

definition asof_conds :: "string option \<Rightarrow> string option \<Rightarrow> asof_cond list" where
  "asof_conds ds_start ds_end =
     (case ds_end of None \<Rightarrow> [DeletedIsNull] | Some d \<Rightarrow> [DsLe d, NotDeletedBy d]) @
     (case ds_start of None \<Rightarrow> [] | Some d \<Rightarrow> [DsGe d])"

definition asof_text :: "string option \<Rightarrow> string option \<Rightarrow> string" where
  "asof_text ds_start ds_end = join_with '' AND '' (map render_cond (asof_conds ds_start ds_end))"

definition visible_text :: "tablespec \<Rightarrow> string option \<Rightarrow> string option \<Rightarrow> string res" where
  "visible_text spec ds_start ds_end =
     bindR (mapR sql_ident (all_column_names spec)) (\<lambda>cols.
     bindR (phys (ts_name spec)) (\<lambda>p.
     Inr (''SELECT '' @ join_with '', '' cols @ '' FROM '' @ p @ '' WHERE '' @
          asof_text ds_start ds_end)))"

section \<open>The store's configuration and DDL\<close>

record store_cfg =
  cfg_schema :: schema
  cfg_dim :: "nat option"
  cfg_backend :: string
  cfg_lance_dir :: string

definition is_vss :: "store_cfg \<Rightarrow> bool" where
  "is_vss cfg \<longleftrightarrow> cfg_backend cfg = ''vss'' \<and> cfg_dim cfg \<noteq> None"

definition is_lance :: "store_cfg \<Rightarrow> bool" where
  "is_lance cfg \<longleftrightarrow> cfg_backend cfg = ''lance'' \<and> cfg_dim cfg \<noteq> None"

text \<open>\<open>StoreService.open\<close> refuses any other backend name before it touches the database.\<close>

definition check_backend :: "string \<Rightarrow> unit res" where
  "check_backend b = (if b \<notin> {''vss'', ''lance''} then raise QueryError ''unknown search backend''
     else Inr ())"

definition dim_text :: "store_cfg \<Rightarrow> string" where
  "dim_text cfg = (case cfg_dim cfg of None \<Rightarrow> ''None'' | Some n \<Rightarrow> show_nat n)"

definition create_table_text :: "store_cfg \<Rightarrow> tablespec \<Rightarrow> string res" where
  "create_table_text cfg spec =
     bindR (mapR (\<lambda>c. bindR (sql_ident (c_name c)) (\<lambda>i. Inr (i @ '' '' @ c_sql_type c)))
              (ts_columns spec)) (\<lambda>defs.
     bindR (mapR (\<lambda>m. bindR (sql_ident m) (\<lambda>i. Inr (i @ '' VARCHAR''))) META_COLUMNS) (\<lambda>meta.
     bindR (if is_vss cfg then
              mapR (\<lambda>col. bindR (sql_ident (veccol col)) (\<lambda>v. bindR (sql_ident (tokcol col)) (\<lambda>t.
                      Inr (v @ '' FLOAT['' @ dim_text cfg @ ''], '' @ t @ '' VARCHAR''))))
                (ts_searchable spec)
            else Inr []) (\<lambda>srch.
     bindR (sql_ident (ts_primary spec)) (\<lambda>pk.
     bindR (phys (ts_name spec)) (\<lambda>p.
     Inr (''CREATE TABLE IF NOT EXISTS '' @ p @ '' ('' @
          join_with '', '' (defs @ meta @ srch @ [''PRIMARY KEY ('' @ pk @ '')'']) @ '')''))))))"

definition create_tables :: "store_cfg \<Rightarrow> string list res" where
  "create_tables cfg = mapR (create_table_text cfg) (sc_tables (cfg_schema cfg))"

section \<open>Hybrid search\<close>

definition SEARCH_K :: int where
  "SEARCH_K = 100"

definition OVERFETCH :: int where
  "OVERFETCH = 4"

text \<open>\<open>_h\<close>: reciprocal rank fusion of the two arms, shared by the backends.\<close>

definition rrf_text :: string where
  "rrf_text = ''_h AS (SELECT COALESCE(_v.pk, _f.pk) pk, '' @
     ''COALESCE(1.0/(60+_v.rk),0)+COALESCE(1.0/(60+_f.rk),0) score '' @
     ''FROM _v FULL OUTER JOIN _f ON _v.pk=_f.pk''"

text \<open>
  The pieces of the statement, in the order the adjacent f-strings concatenate them;
  \<open>view\<close> is the visibility view's text and \<open>pkq\<close> the quoted primary key.
\<close>

definition vss_pieces ::
    "store_cfg \<Rightarrow> tablespec \<Rightarrow> string \<Rightarrow> string \<Rightarrow> int \<Rightarrow> string option \<Rightarrow> string option
      \<Rightarrow> string \<Rightarrow> string \<Rightarrow> string list" where
  "vss_pieces cfg spec table col k ds_start ds_end view pkq =
     (let ph = ''_sb_'' @ table; pk = ts_primary spec; f = ''fts_main_'' @ ph;
          vc = veccol col; tc = tokcol col; vis = asof_text ds_start ds_end;
          cand = show_int (if ds_end \<noteq> None then k * OVERFETCH else k)
      in [''WITH _v AS (SELECT pk, row_number() OVER (ORDER BY dd) rk FROM '',
          ''(SELECT '', qid pk, '' pk, array_cosine_distance('', qid vc, '', ?::FLOAT['',
          dim_text cfg, '']) dd '',
          ''FROM '', qid ph, '' WHERE '', qid vc, '' IS NOT NULL AND '', vis, '' '',
          ''ORDER BY dd LIMIT '', cand, '')), '',
          ''_f AS (SELECT pk, row_number() OVER (ORDER BY sc DESC) rk FROM '',
          ''(SELECT '', qid pk, '' pk, '', f, ''.match_bm25('', qid pk, '', ?, fields := '',
          qlit tc, '') sc '',
          ''FROM '', qid ph, '' WHERE '', f, ''.match_bm25('', qid pk, '', ?, fields := '',
          qlit tc, '') IS NOT NULL '',
          ''AND '', vis, '' ORDER BY sc DESC LIMIT '', cand, '')), '',
          rrf_text, '' ORDER BY score DESC LIMIT '', show_int k, '') '',
          ''SELECT base.*, _h.score AS _score '',
          ''FROM ('', view, '') base '',
          ''JOIN _h ON CAST(base.'', pkq, '' AS VARCHAR) = CAST(_h.pk AS VARCHAR)''])"

definition vss_search_sql ::
    "store_cfg \<Rightarrow> string \<Rightarrow> string \<Rightarrow> int \<Rightarrow> string option \<Rightarrow> string option \<Rightarrow> string res" where
  "vss_search_sql cfg table col k ds_start ds_end =
     bindR (schema_table (cfg_schema cfg) table) (\<lambda>spec.
     bindR (visible_text spec ds_start ds_end) (\<lambda>view.
     bindR (sql_ident (ts_primary spec)) (\<lambda>pkq.
     Inr (concat (vss_pieces cfg spec table col k ds_start ds_end view pkq)))))"

definition lance_ds :: "store_cfg \<Rightarrow> string \<Rightarrow> string" where
  "lance_ds cfg table = cfg_lance_dir cfg @ ''/'' @ table @ ''.lance''"

definition lance_pieces ::
    "store_cfg \<Rightarrow> string \<Rightarrow> string \<Rightarrow> int \<Rightarrow> string \<Rightarrow> string \<Rightarrow> string list" where
  "lance_pieces cfg table col k view pkq =
     (let ds = lance_ds cfg table; cand = show_int (k * OVERFETCH)
      in [''WITH _v AS (SELECT pk, row_number() OVER (ORDER BY _distance) rk '',
          ''FROM lance_vector_search('', qlit ds, '', '', qlit (''vec_'' @ col), '', ?::FLOAT['',
          dim_text cfg, ''], k='', cand, '')), '',
          ''_f AS (SELECT pk, row_number() OVER (ORDER BY _score DESC) rk '',
          ''FROM lance_fts('', qlit ds, '', '', qlit (''tok_'' @ col), '', ?, k='', cand, '')), '',
          rrf_text, '') '',
          ''SELECT base.*, _h.score AS _score '',
          ''FROM ('', view, '') base '',
          ''JOIN _h ON CAST(base.'', pkq, '' AS VARCHAR) = _h.pk '',
          ''ORDER BY _score DESC LIMIT '', show_int k])"

definition lance_search_sql ::
    "store_cfg \<Rightarrow> string \<Rightarrow> string \<Rightarrow> int \<Rightarrow> string option \<Rightarrow> string option \<Rightarrow> string res" where
  "lance_search_sql cfg table col k ds_start ds_end =
     bindR (schema_table (cfg_schema cfg) table) (\<lambda>spec.
     bindR (visible_text spec ds_start ds_end) (\<lambda>view.
     bindR (sql_ident (ts_primary spec)) (\<lambda>pkq.
     Inr (concat (lance_pieces cfg table col k view pkq)))))"

text \<open>A bound parameter: a user value, a query vector or a token string.\<close>

datatype sqlparam = ParamVal pyval | ParamVec "real list" | ParamTok string

text \<open>\<open>_l2_normalize\<close>, over the reals (rounding is not modelled).\<close>

definition l2_norm :: "real list \<Rightarrow> real" where
  "l2_norm v = sqrt (sum_list (map (\<lambda>x. x * x) v))"

text \<open>The square root has no exact evaluation; symbolic evaluation leaves the norm as it stands.\<close>

declare l2_norm_def [code del]

definition l2_normalize :: "real list \<Rightarrow> real list" where
  "l2_normalize v = (let n = l2_norm v in if n \<noteq> 0 then map (\<lambda>x. x / n) v else v)"

definition search_lower ::
    "store_cfg \<Rightarrow> string \<Rightarrow> string \<Rightarrow> real list \<Rightarrow> string \<Rightarrow> int \<Rightarrow> string option \<Rightarrow> string option
      \<Rightarrow> (string \<times> sqlparam list) res" where
  "search_lower cfg table col qvec qtok k ds_start ds_end =
     (if is_vss cfg then
        bindR (vss_search_sql cfg table col k ds_start ds_end) (\<lambda>sql.
        Inr (sql, [ParamVec qvec, ParamTok qtok, ParamTok qtok]))
      else if is_lance cfg then
        bindR (lance_search_sql cfg table col k ds_start ds_end) (\<lambda>sql.
        Inr (sql, [ParamVec (l2_normalize qvec), ParamTok qtok]))
      else raise QueryError ''search needs a searchable column and an embedder'')"

definition visible_sql :: "store_cfg \<Rightarrow> string \<Rightarrow> string option \<Rightarrow> string option \<Rightarrow> string res" where
  "visible_sql cfg table ds_start ds_end =
     bindR (schema_table (cfg_schema cfg) table) (\<lambda>spec. visible_text spec ds_start ds_end)"

section \<open>Quoting and placeholders of the generated text\<close>

text \<open>Text that is closed and has a known number of placeholders.\<close>

definition sql_ok :: "string \<Rightarrow> nat \<Rightarrow> bool" where
  "sql_ok s n \<longleftrightarrow> closed_text s \<and> count_placeholders s = n"

definition quiet :: "string \<Rightarrow> bool" where
  "quiet s \<longleftrightarrow> list_all (\<lambda>c. \<not> is_quote c \<and> c \<noteq> CHR ''?'') s"

lemma sql_ok_append: "sql_ok s m \<Longrightarrow> sql_ok t n \<Longrightarrow> sql_ok (s @ t) (m + n)"
  by (simp add: sql_ok_def closed_text_append count_placeholders_append)

lemma sql_ok_quiet: "quiet s \<Longrightarrow> sql_ok s 0"
  by (auto simp: sql_ok_def quiet_def list_all_iff closed_no_quote count_placeholders_holes
      holes_no_quote)

lemma quiet_append [simp]: "quiet (s @ t) \<longleftrightarrow> quiet s \<and> quiet t"
  by (simp add: quiet_def)

lemma quiet_Cons [simp]: "quiet (c # s) \<longleftrightarrow> \<not> is_quote c \<and> c \<noteq> CHR ''?'' \<and> quiet s"
  by (simp add: quiet_def)

lemma quiet_Nil [simp]: "quiet []"
  by (simp add: quiet_def)

lemma digit_quiet: "is_ascii_digit c \<Longrightarrow> \<not> is_quote c \<and> c \<noteq> CHR ''?''"
  by (auto simp: is_ascii_digit_def is_quote_def ord_def)

lemma quiet_show_nat [simp]: "quiet (show_nat n)"
  using show_nat_digits [of n] by (auto simp: quiet_def list_all_iff dest: digit_quiet)

lemma quiet_show_int [simp]: "quiet (show_int i)"
  by (simp add: show_int_def is_quote_def)

lemma quiet_dim_text [simp]: "quiet (dim_text cfg)"
  by (simp add: dim_text_def is_quote_def split: option.splits)

lemma ident_char_quiet: "is_ident_char c \<Longrightarrow> \<not> is_quote c \<and> c \<noteq> CHR ''?'' \<and> c \<noteq> CHR '';''"
  by (auto simp: is_ident_char_def is_ident_start_def is_ascii_letter_def is_ascii_digit_def
      is_quote_def ord_def)

lemma strip_nl_cases: "s = strip_nl s \<or> s = strip_nl s @ [newline]"
  by (metis append_butlast_last_id strip_nl_def)

lemma is_ident_chars: "is_ident s \<Longrightarrow> list_all is_ident_char s"
  by (auto simp: is_ident_def is_ident_char_def split: list.splits)

lemma quiet_ident_chars: "list_all is_ident_char s \<Longrightarrow> quiet s"
  by (auto simp: quiet_def list_all_iff dest: ident_char_quiet)

lemma quiet_ident:
  assumes "is_ident (strip_nl s)"
  shows "quiet s"
proof -
  have "quiet (strip_nl s)"
    using assms by (intro quiet_ident_chars is_ident_chars)
  moreover have "quiet [newline]" by (simp add: newline_def is_quote_def)
  ultimately show ?thesis using strip_nl_cases [of s] by (metis quiet_append)
qed

text \<open>Simplification rules that walk over generated text character by character.\<close>

lemma lex_Cons:
  "\<not> is_quote c \<Longrightarrow> closed_text (c # s) \<longleftrightarrow> closed_text s"
  "\<not> is_quote c \<Longrightarrow> count_placeholders (c # s) = (if c = CHR ''?'' then 1 else 0) + count_placeholders s"
  by (simp_all add: closed_text_def count_placeholders_holes)

lemma lex_Nil: "closed_text []" "count_placeholders [] = 0"
  by (simp_all add: closed_text_def count_placeholders_holes)

lemma lex_quiet:
  "quiet s \<Longrightarrow> closed_text s"
  "quiet s \<Longrightarrow> count_placeholders s = 0"
  using sql_ok_quiet [of s] by (simp_all add: sql_ok_def)

lemma quiet_no_quote: "quiet s \<Longrightarrow> CHR 0x22 \<notin> set s \<and> CHR 0x27 \<notin> set s"
  by (auto simp: quiet_def list_all_iff is_quote_def)

lemma lex_qid:
  assumes "quiet n"
  shows "closed_text (qid n)" and "count_placeholders (qid n) = 0"
  using closed_literal [of "CHR 0x22" n] holes_literal [of "CHR 0x22" n] quiet_no_quote [OF assms]
  by (simp_all add: qid_def is_quote_def)

lemma lex_qlit:
  assumes "quiet n"
  shows "closed_text (qlit n)" and "count_placeholders (qlit n) = 0"
  using closed_literal [of "CHR 0x27" n] holes_literal [of "CHR 0x27" n] quiet_no_quote [OF assms]
  by (simp_all add: qlit_def is_quote_def)

lemmas lex_simps = lex_Cons lex_Nil lex_quiet lex_qid lex_qlit closed_text_append
  count_placeholders_append is_quote_def

lemma sql_ok_lex:
  "sql_ok s n \<Longrightarrow> closed_text s"
  "sql_ok s n \<Longrightarrow> count_placeholders s = n"
  by (simp_all add: sql_ok_def)

lemma sql_ok_join:
  assumes "list_all (\<lambda>s. sql_ok s 0) ss" and "quiet sep"
  shows "sql_ok (join_with sep ss) 0"
  using assms
proof (induction sep ss rule: join_with.induct)
  case (3 sep s t ts)
  then show ?case
    by (simp add: sql_ok_def closed_text_append count_placeholders_append lex_quiet)
qed (simp_all add: sql_ok_def lex_Nil)

lemma sql_ident_ok: "sql_ident n = Inr q \<Longrightarrow> sql_ok q 0 \<and> quiet n"
  by (auto simp: sql_ident_def sql_ok_def lex_qid quiet_ident split: if_splits)

lemma phys_ok: "phys n = Inr q \<Longrightarrow> sql_ok q 0 \<and> quiet n"
  unfolding phys_def by (drule sql_ident_ok) simp

definition quiet_opt :: "string option \<Rightarrow> bool" where
  "quiet_opt v \<longleftrightarrow> (case v of None \<Rightarrow> True | Some s \<Rightarrow> quiet s)"

lemma check_ds_quiet: "check_ds l v = Inr u \<Longrightarrow> quiet_opt v"
proof (cases v)
  case (Some s)
  assume "check_ds l v = Inr u"
  with Some have "list_all is_ascii_digit (strip_nl s)"
    by (auto simp: check_ds_def ds_match_def Let_def split: if_splits)
  then have "quiet (strip_nl s)" by (auto simp: quiet_def list_all_iff dest: digit_quiet)
  moreover have "quiet [newline]" by (simp add: newline_def is_quote_def)
  ultimately show ?thesis using strip_nl_cases [of s] Some
    by (metis option.simps(5) quiet_append quiet_opt_def)
qed (simp add: quiet_opt_def)

lemma render_cond_ok:
  "quiet_opt s \<Longrightarrow> quiet_opt e \<Longrightarrow> c \<in> set (asof_conds s e) \<Longrightarrow> sql_ok (render_cond c) 0"
  by (auto simp: asof_conds_def quiet_opt_def sql_ok_def lex_simps split: option.splits if_splits)

lemma asof_text_ok: "quiet_opt s \<Longrightarrow> quiet_opt e \<Longrightarrow> sql_ok (asof_text s e) 0"
  unfolding asof_text_def
  by (rule sql_ok_join) (auto simp: list_all_iff is_quote_def dest: render_cond_ok)

lemma sql_ok_concat:
  "list_all closed_text ss \<Longrightarrow> sum_list (map count_placeholders ss) = n \<Longrightarrow> sql_ok (concat ss) n"
proof (induction ss arbitrary: n)
  case (Cons s ss)
  then have "sql_ok (concat ss) (sum_list (map count_placeholders ss))" by simp
  then show ?case using Cons.prems
    by (auto simp: sql_ok_def closed_text_append count_placeholders_append)
qed (simp add: sql_ok_def lex_Nil)

lemma visible_text_ok:
  assumes "quiet_opt s" and "quiet_opt e" and "visible_text spec s e = Inr sql"
  shows "sql_ok sql 0"
proof -
  from assms(3) obtain cols p where cols: "mapR sql_ident (all_column_names spec) = Inr cols"
    and p: "phys (ts_name spec) = Inr p"
    and sql: "sql = ''SELECT '' @ join_with '', '' cols @ '' FROM '' @ p @ '' WHERE '' @ asof_text s e"
    unfolding visible_text_def by (elim bindR_InrE) simp
  have "list_all (\<lambda>s. sql_ok s 0) cols"
    using mapR_all [OF cols, of "\<lambda>s. sql_ok s 0"] by (auto dest: sql_ident_ok)
  then have c: "sql_ok (join_with '', '' cols) 0"
    by (rule sql_ok_join) (simp add: is_quote_def)
  show ?thesis
    using sql_ok_lex [OF c] sql_ok_lex [OF asof_text_ok [OF assms(1,2)]]
      sql_ok_lex [of p 0] phys_ok [OF p]
    by (simp add: sql sql_ok_def lex_Cons closed_text_append count_placeholders_append is_quote_def)
qed

lemma schema_table_name: "schema_table sch table = Inr spec \<Longrightarrow> ts_name spec = table"
  by (auto dest: schema_table_Inr)

lemma visible_text_quiet:
  "visible_text spec s e = Inr sql \<Longrightarrow> quiet (ts_name spec)"
  unfolding visible_text_def by (elim bindR_InrE) (auto dest: phys_ok)

lemma quiet_rrf: "quiet rrf_text"
  by (simp add: rrf_text_def is_quote_def)

lemma vss_search_sql_ok:
  assumes "quiet_opt s" and "quiet_opt e" and "quiet col"
    and "vss_search_sql cfg table col k s e = Inr sql"
  shows "sql_ok sql 3"
proof -
  from assms(4) obtain spec view pkq where spec: "schema_table (cfg_schema cfg) table = Inr spec"
    and view: "visible_text spec s e = Inr view" and pkq: "sql_ident (ts_primary spec) = Inr pkq"
    and sql: "sql = concat (vss_pieces cfg spec table col k s e view pkq)"
    unfolding vss_search_sql_def by (elim bindR_InrE) simp
  have q: "quiet (ts_primary spec)" "quiet (veccol col)" "quiet (tokcol col)"
    "quiet (''_sb_'' @ table)" "quiet (''fts_main_'' @ ''_sb_'' @ table)"
    using visible_text_quiet [OF view] schema_table_name [OF spec] sql_ident_ok [OF pkq] assms(3)
    by (simp_all add: veccol_def tokcol_def is_quote_def)
  note lex = sql_ok_lex [OF asof_text_ok [OF assms(1,2)]] lex_qid [OF q(1)] lex_qid [OF q(2)]
    lex_qlit [OF q(3)] lex_qid [OF q(4)] lex_quiet [OF q(5)] lex_quiet [OF quiet_rrf]
    sql_ok_lex [OF visible_text_ok [OF assms(1,2) view]] sql_ok_lex [OF conjunct1 [OF sql_ident_ok [OF pkq]]]
  show ?thesis
    unfolding sql
    by (rule sql_ok_concat; unfold vss_pieces_def Let_def list.map sum_list_simps list.pred_inject)
      (simp_all only: lex lex_quiet [OF quiet_show_int] lex_quiet [OF quiet_dim_text],
       simp_all add: lex_Cons lex_Nil is_quote_def)
qed

lemma lance_search_sql_ok:
  assumes "quiet_opt s" and "quiet_opt e" and "quiet col" and "quiet (cfg_lance_dir cfg)"
    and "lance_search_sql cfg table col k s e = Inr sql"
  shows "sql_ok sql 2"
proof -
  from assms(5) obtain spec view pkq where spec: "schema_table (cfg_schema cfg) table = Inr spec"
    and view: "visible_text spec s e = Inr view" and pkq: "sql_ident (ts_primary spec) = Inr pkq"
    and sql: "sql = concat (lance_pieces cfg table col k view pkq)"
    unfolding lance_search_sql_def by (elim bindR_InrE) simp
  have q: "quiet (lance_ds cfg table)" "quiet (''vec_'' @ col)" "quiet (''tok_'' @ col)"
    using visible_text_quiet [OF view] schema_table_name [OF spec] assms(3,4)
    by (simp_all add: lance_ds_def is_quote_def)
  note lex = lex_qlit [OF q(1)] lex_qlit [OF q(2)] lex_qlit [OF q(3)] lex_quiet [OF quiet_rrf]
    sql_ok_lex [OF visible_text_ok [OF assms(1,2) view]] sql_ok_lex [OF conjunct1 [OF sql_ident_ok [OF pkq]]]
  show ?thesis
    unfolding sql
    by (rule sql_ok_concat; unfold lance_pieces_def Let_def list.map sum_list_simps list.pred_inject)
      (simp_all only: lex lex_quiet [OF quiet_show_int] lex_quiet [OF quiet_dim_text],
       simp_all add: lex_Cons lex_Nil is_quote_def)
qed

lemma search_lower_ok:
  assumes "search_lower cfg table col qvec qtok k s e = Inr (sql, params)"
    and "quiet_opt s" and "quiet_opt e" and "quiet col" and "quiet (cfg_lance_dir cfg)"
  shows "sql_ok sql (length params)"
  using assms vss_search_sql_ok lance_search_sql_ok
  by (auto simp: search_lower_def bindR_Inr_iff numeral_2_eq_2 numeral_3_eq_3 split: if_splits)

text \<open>Every name of a schema whose tables were created is quiet, whatever the names are.\<close>

lemma create_tables_quiet:
  assumes "create_tables cfg = Inr ds" and "spec \<in> set (sc_tables (cfg_schema cfg))"
  shows "quiet (ts_name spec)" and "list_all quiet (column_names spec)"
proof -
  have "\<exists>d. create_table_text cfg spec = Inr d"
    using assms unfolding create_tables_def by (blast dest: mapR_defined)
  then obtain defs p where
    defs: "mapR (\<lambda>c. bindR (sql_ident (c_name c)) (\<lambda>i. Inr (i @ '' '' @ c_sql_type c)))
              (ts_columns spec) = Inr defs"
    and p: "phys (ts_name spec) = Inr p"
    unfolding create_table_text_def by (elim exE bindR_InrE) blast
  show "quiet (ts_name spec)" using phys_ok [OF p] by simp
  have "\<forall>c \<in> set (ts_columns spec). quiet (c_name c)"
    using mapR_defined [OF defs] by (fastforce simp: bindR_Inr_iff dest: sql_ident_ok)
  then show "list_all quiet (column_names spec)"
    by (simp add: column_names_def list_all_iff)
qed

end
