(* ===== verification/Embedding.thy ===== *)
theory Embedding
  imports Schema_Parse Complex_Main
begin

text \<open>
  \<open>service/embedding_service.py\<close> (vectors and tokens for the searchable columns) and
  \<open>embedders/api.py\<close> (batching and retries against an HTTP endpoint). The injected embedder,
  the tokenizer and the endpoint are parameters. Vectors are lists of reals.
\<close>

record embedder =
  e_dim :: nat
  e_embed :: "string list \<Rightarrow> real list list res"
  e_lcut :: "string \<Rightarrow> string list"

section \<open>EmbeddingService\<close>

definition embed :: "embedder \<Rightarrow> string list \<Rightarrow> real list list res" where
  "embed em ts =
     bindR (e_embed em ts) (\<lambda>out.
     if list_ex (\<lambda>v. length v \<noteq> e_dim em) out then raise EmbedderInvalid ''unexpected dim''
     else Inr out)"

definition tokens :: "embedder \<Rightarrow> string \<Rightarrow> string" where
  "tokens em s = (if s = [] then []
     else join_with '' '' (filter (\<lambda>t. t \<noteq> []) (map (\<lambda>t. py_lower (py_strip t)) (e_lcut em s))))"

text \<open>The cells that are embedded: not \<open>None\<close> and not empty as text.\<close>

definition has_text :: "pyval \<Rightarrow> bool" where
  "has_text v \<longleftrightarrow> v \<noteq> PNone \<and> py_str v \<noteq> []"

type_synonym vecs = "(string, real list option list) dict"
type_synonym toks = "(string, string option list) dict"

text \<open>The inner loop: \<open>for j, i in enumerate(idx): cv[i] = emb[j]; ct[i] = tok(str(texts[i]))\<close>.\<close>

fun embed_fill ::
    "embedder \<Rightarrow> pyval list \<Rightarrow> real list list \<Rightarrow> nat \<Rightarrow> nat list
      \<Rightarrow> real list option list \<Rightarrow> string option list
      \<Rightarrow> (real list option list \<times> string option list) res" where
  "embed_fill em cells emb j [] cv ct = Inr (cv, ct)"
| "embed_fill em cells emb j (i # is) cv ct =
     (if j < length emb
      then embed_fill em cells emb (Suc j) is (cv[i := Some (emb ! j)])
             (ct[i := Some (tokens em (py_str (cells ! i)))])
      else raise PyIndexError ''list index out of range'')"

definition embed_column ::
    "embedder \<Rightarrow> pyrow list \<Rightarrow> string \<Rightarrow> (real list option list \<times> string option list) res" where
  "embed_column em records col =
     (let cells = map (\<lambda>rec. dict_get rec col) records;
          idx = filter (\<lambda>i. has_text (cells ! i)) [0..<length cells]
      in bindR (if idx = [] then Inr [] else embed em (map (\<lambda>i. py_str (cells ! i)) idx)) (\<lambda>emb.
         embed_fill em cells emb 0 idx (replicate (length records) None)
           (replicate (length records) None)))"

fun embed_columns ::
    "embedder \<Rightarrow> pyrow list \<Rightarrow> string list \<Rightarrow> vecs \<Rightarrow> toks \<Rightarrow> (vecs \<times> toks) res" where
  "embed_columns em records [] vecs toks = Inr (vecs, toks)"
| "embed_columns em records (col # cols) vecs toks =
     bindR (embed_column em records col) (\<lambda>(cv, ct).
     embed_columns em records cols (dict_set vecs col cv) (dict_set toks col ct))"

definition embed_records :: "embedder \<Rightarrow> tablespec \<Rightarrow> pyrow list \<Rightarrow> (vecs \<times> toks) res" where
  "embed_records em spec records = embed_columns em records (ts_searchable spec) [] []"

section \<open>ApiEmbedder\<close>

text \<open>
  One POST of a batch, as the retry loop sees it: a transport error or an error status
  (both retried), the vectors of the reply, or another exception (let through).
\<close>

datatype http_reply = TransportError | HTTPStatusError | Vectors "real list list" | Raised exn

fun embed_attempts :: "(nat \<Rightarrow> http_reply) \<Rightarrow> nat \<Rightarrow> nat \<Rightarrow> nat \<Rightarrow> real list list res" where
  "embed_attempts post d attempt 0 = raise EmbedderInvalid ''embedding API failed''"
| "embed_attempts post d attempt (Suc left) =
     (case post attempt of
        TransportError \<Rightarrow> embed_attempts post d (Suc attempt) left
      | HTTPStatusError \<Rightarrow> embed_attempts post d (Suc attempt) left
      | Vectors vs \<Rightarrow>
          if list_ex (\<lambda>v. length v \<noteq> d) vs then raise EmbedderInvalid ''unexpected dim''
          else Inr vs
      | Raised e \<Rightarrow> Inl e)"

definition embed_batch ::
    "(string list \<Rightarrow> nat \<Rightarrow> http_reply) \<Rightarrow> nat \<Rightarrow> nat \<Rightarrow> string list \<Rightarrow> real list list res" where
  "embed_batch post d max_retries batch = embed_attempts (post batch) d 0 max_retries"

text \<open>\<open>for start in range(0, len(texts), batch_size)\<close> with a positive step.\<close>

function embed_chunks ::
    "(string list \<Rightarrow> real list list res) \<Rightarrow> nat \<Rightarrow> string list \<Rightarrow> real list list res" where
  "embed_chunks f n ts =
     (if ts = [] \<or> n = 0 then Inr []
      else bindR (f (take n ts)) (\<lambda>vs.
           bindR (embed_chunks f n (drop n ts)) (\<lambda>ws. Inr (vs @ ws))))"
  by pat_completeness auto
termination
  by (relation "measure (\<lambda>(f, n, ts). length ts)") auto

declare embed_chunks.simps [simp del]

definition api_embed ::
    "(string list \<Rightarrow> nat \<Rightarrow> http_reply) \<Rightarrow> nat \<Rightarrow> int \<Rightarrow> nat \<Rightarrow> string list \<Rightarrow> real list list res" where
  "api_embed post d batch_size max_retries ts =
     (if batch_size = 0 then raise PyValueError ''range() arg 3 must not be zero''
      else if batch_size < 0 then Inr []
      else embed_chunks (embed_batch post d max_retries) (nat batch_size) ts)"

section \<open>Alignment of vectors and tokens with the records\<close>

lemma embed_fill_length:
  "embed_fill em cells emb j is cv ct = Inr (cv', ct') \<Longrightarrow>
     length cv' = length cv \<and> length ct' = length ct"
  by (induction em cells emb j "is" cv ct rule: embed_fill.induct) (auto split: if_splits)

lemma embed_fill_spec:
  assumes "j + length is \<le> length emb" and "distinct is" and "\<forall>i \<in> set is. i < length cv"
    and "length ct = length cv"
  shows "\<exists>cv' ct'. embed_fill em cells emb j is cv ct = Inr (cv', ct') \<and>
     length cv' = length cv \<and> length ct' = length cv \<and>
     (\<forall>n < length is. cv' ! (is ! n) = Some (emb ! (j + n)) \<and>
        ct' ! (is ! n) = Some (tokens em (py_str (cells ! (is ! n))))) \<and>
     (\<forall>m < length cv. m \<notin> set is \<longrightarrow> cv' ! m = cv ! m \<and> ct' ! m = ct ! m)"
  using assms
proof (induction "is" arbitrary: j cv ct)
  case (Cons i rest)
  let ?cv = "cv[i := Some (emb ! j)]"
  let ?ct = "ct[i := Some (tokens em (py_str (cells ! i)))]"
  have "\<exists>cv' ct'. embed_fill em cells emb (Suc j) rest ?cv ?ct = Inr (cv', ct') \<and>
     length cv' = length ?cv \<and> length ct' = length ?cv \<and>
     (\<forall>n < length rest. cv' ! (rest ! n) = Some (emb ! (Suc j + n)) \<and>
        ct' ! (rest ! n) = Some (tokens em (py_str (cells ! (rest ! n))))) \<and>
     (\<forall>m < length ?cv. m \<notin> set rest \<longrightarrow> cv' ! m = ?cv ! m \<and> ct' ! m = ?ct ! m)"
    using Cons.prems by (intro Cons.IH) auto
  then obtain cv' ct' where r: "embed_fill em cells emb (Suc j) rest ?cv ?ct = Inr (cv', ct')"
    and len: "length cv' = length cv" "length ct' = length cv"
    and hit: "\<forall>n < length rest. cv' ! (rest ! n) = Some (emb ! (Suc j + n)) \<and>
        ct' ! (rest ! n) = Some (tokens em (py_str (cells ! (rest ! n))))"
    and miss: "\<forall>m < length cv. m \<notin> set rest \<longrightarrow> cv' ! m = ?cv ! m \<and> ct' ! m = ?ct ! m"
    by auto
  have i: "i < length cv" "i \<notin> set rest" using Cons.prems by auto
  have here: "cv' ! i = Some (emb ! j)" "ct' ! i = Some (tokens em (py_str (cells ! i)))"
    using miss i Cons.prems(4) by auto
  have "\<forall>n < length (i # rest). cv' ! ((i # rest) ! n) = Some (emb ! (j + n)) \<and>
        ct' ! ((i # rest) ! n) = Some (tokens em (py_str (cells ! ((i # rest) ! n))))"
    using hit here by (auto simp: nth_Cons split: nat.splits)
  moreover have "\<forall>m < length cv. m \<notin> set (i # rest) \<longrightarrow> cv' ! m = cv ! m \<and> ct' ! m = ct ! m"
    using miss by auto
  moreover have "embed_fill em cells emb j (i # rest) cv ct = Inr (cv', ct')"
    using r Cons.prems(1) by simp
  ultimately show ?case using len by blast
qed simp

text \<open>
  An embedder whose vectors depend on each text alone: what the protocol promises when
  it embeds \<open>a batch of texts\<close>.
\<close>

definition pointwise :: "embedder \<Rightarrow> (string \<Rightarrow> real list) \<Rightarrow> bool" where
  "pointwise em g \<longleftrightarrow> (\<forall>ts. e_embed em ts = Inr (map g ts)) \<and> (\<forall>s. length (g s) = e_dim em)"

lemma embed_pointwise: "pointwise em g \<Longrightarrow> embed em ts = Inr (map g ts)"
  by (auto simp: pointwise_def embed_def list_ex_iff)

definition vec_of :: "(string \<Rightarrow> real list) \<Rightarrow> pyval \<Rightarrow> real list option" where
  "vec_of g v = (if has_text v then Some (g (py_str v)) else None)"

definition tok_of :: "embedder \<Rightarrow> pyval \<Rightarrow> string option" where
  "tok_of em v = (if has_text v then Some (tokens em (py_str v)) else None)"

lemma embed_column_pointwise:
  assumes "pointwise em g"
  shows "embed_column em records col =
     Inr (map (\<lambda>rec. vec_of g (dict_get rec col)) records,
          map (\<lambda>rec. tok_of em (dict_get rec col)) records)"
proof -
  let ?cells = "map (\<lambda>rec. dict_get rec col) records"
  let ?idx = "filter (\<lambda>i. has_text (?cells ! i)) [0..<length ?cells]"
  let ?emb = "map (\<lambda>i. g (py_str (?cells ! i))) ?idx"
  let ?n = "replicate (length records) None"
  have emb: "(if ?idx = [] then Inr [] else embed em (map (\<lambda>i. py_str (?cells ! i)) ?idx)) = Inr ?emb"
    using embed_pointwise [OF assms] by simp
  have "\<exists>cv' ct'. embed_fill em ?cells ?emb 0 ?idx ?n ?n = Inr (cv', ct') \<and>
     length cv' = length (?n :: real list option list) \<and> length ct' = length (?n :: real list option list) \<and>
     (\<forall>n < length ?idx. cv' ! (?idx ! n) = Some (?emb ! (0 + n)) \<and>
        ct' ! (?idx ! n) = Some (tokens em (py_str (?cells ! (?idx ! n))))) \<and>
     (\<forall>m < length (?n :: real list option list). m \<notin> set ?idx \<longrightarrow> cv' ! m = ?n ! m \<and> ct' ! m = ?n ! m)"
    by (rule embed_fill_spec) auto
  then obtain cv' ct' where r: "embed_fill em ?cells ?emb 0 ?idx ?n ?n = Inr (cv', ct')"
    and len: "length cv' = length records" "length ct' = length records"
    and hit: "\<forall>n < length ?idx. cv' ! (?idx ! n) = Some (?emb ! n) \<and>
        ct' ! (?idx ! n) = Some (tokens em (py_str (?cells ! (?idx ! n))))"
    and miss: "\<forall>m < length records. m \<notin> set ?idx \<longrightarrow> cv' ! m = None \<and> ct' ! m = None"
    by auto
  have at: "cv' ! m = vec_of g (?cells ! m) \<and> ct' ! m = tok_of em (?cells ! m)"
    if m: "m < length records" for m
  proof (cases "has_text (?cells ! m)")
    case True
    then have "m \<in> set ?idx" using m by auto
    then obtain n where "n < length ?idx" "?idx ! n = m" by (metis in_set_conv_nth)
    then show ?thesis using hit True by (auto simp: vec_of_def tok_of_def)
  next
    case False
    then have "m \<notin> set ?idx" by auto
    then show ?thesis using miss m False by (auto simp: vec_of_def tok_of_def)
  qed
  have "cv' = map (\<lambda>rec. vec_of g (dict_get rec col)) records"
    using len at by (intro nth_equalityI) auto
  moreover have "ct' = map (\<lambda>rec. tok_of em (dict_get rec col)) records"
    using len at by (intro nth_equalityI) auto
  ultimately show ?thesis
    using emb r by (simp add: embed_column_def Let_def)
qed

lemma embed_columns_pointwise:
  "pointwise em g \<Longrightarrow> embed_columns em records cols vs ks =
     Inr (foldl (\<lambda>d c. dict_set d c (map (\<lambda>rec. vec_of g (dict_get rec c)) records)) vs cols,
          foldl (\<lambda>d c. dict_set d c (map (\<lambda>rec. tok_of em (dict_get rec c)) records)) ks cols)"
  by (induction cols arbitrary: vs ks) (simp_all add: embed_column_pointwise)

lemma foldl_dict_set_get:
  "map_of (foldl (\<lambda>d c. dict_set d c (f c)) d cols) k =
     (if k \<in> set cols then Some (f k) else map_of d k)"
  by (induction cols arbitrary: d) (auto simp: dict_get_set)

lemma embed_records_pointwise:
  assumes "pointwise em g"
  shows "\<exists>vs ks. embed_records em spec records = Inr (vs, ks) \<and>
     (\<forall>c. map_of vs c = (if c \<in> set (ts_searchable spec)
        then Some (map (\<lambda>rec. vec_of g (dict_get rec c)) records) else None)) \<and>
     (\<forall>c. map_of ks c = (if c \<in> set (ts_searchable spec)
        then Some (map (\<lambda>rec. tok_of em (dict_get rec c)) records) else None))"
  using assms by (simp add: embed_records_def embed_columns_pointwise foldl_dict_set_get)

section \<open>Batching and retries\<close>

lemma embed_chunks_map:
  assumes "\<And>b. b \<noteq> [] \<Longrightarrow> length b \<le> n \<Longrightarrow> set b \<subseteq> set ts \<Longrightarrow> f b = Inr (map g b)" and "0 < n"
  shows "embed_chunks f n ts = Inr (map g ts)"
  using assms
proof (induction f n ts rule: embed_chunks.induct)
  case (1 f n ts)
  show ?case
  proof (cases "ts = []")
    case True
    then show ?thesis by (simp add: embed_chunks.simps)
  next
    case False
    have a: "f (take n ts) = Inr (map g (take n ts))"
      using 1 False by (intro "1.prems"(1)) (auto dest: in_set_takeD)
    have "embed_chunks f n (drop n ts) = Inr (map g (drop n ts))"
    proof (rule "1.IH" [OF _ a])
      show "\<not> (ts = [] \<or> n = 0)" using 1 False by simp
      show "f b = Inr (map g b)" if "b \<noteq> []" "length b \<le> n" "set b \<subseteq> set (drop n ts)" for b
        using that "1.prems"(1) [of b] by (auto dest: in_set_dropD)
    qed (use 1 in simp)
    with a False show ?thesis using 1
      by (subst embed_chunks.simps) (simp flip: map_append)
  qed
qed

lemma embed_attempts_first:
  assumes "\<And>i. i < n \<Longrightarrow> post (a + i) \<in> {TransportError, HTTPStatusError}"
    and "post (a + n) = Vectors vs" and "n < k" and "list_all (\<lambda>v. length v = d) vs"
  shows "embed_attempts post d a k = Inr vs"
  using assms
proof (induction n arbitrary: a k)
  case 0
  then show ?case by (cases k) (auto simp: list_ex_iff list_all_iff)
next
  case (Suc n)
  then obtain k' where k: "k = Suc k'" by (cases k) auto
  have "embed_attempts post d (Suc a) k' = Inr vs"
    using Suc.prems k Suc.prems(1) [of "Suc i" for i]
    by (intro Suc.IH) auto
  then show ?case using Suc.prems(1) [of 0] k by auto
qed

lemma embed_attempts_dim:
  "embed_attempts post d a k = Inr vs \<Longrightarrow> list_all (\<lambda>v. length v = d) vs"
  by (induction post d a k rule: embed_attempts.induct)
    (auto simp: list_ex_iff list_all_iff split: http_reply.splits if_splits)

lemma embed_attempts_error:
  "embed_attempts post d a k = Inl e \<Longrightarrow>
     exn_class e = EmbedderInvalid \<or> (\<exists>i < k. post (a + i) = Raised e)"
proof (induction post d a k rule: embed_attempts.induct)
  case (2 post d a k)
  then show ?case
    by (auto split: http_reply.splits if_splits)
qed auto

end
