(* ===== verification/Operator_Base.thy ===== *)
theory Operator_Base
  imports Sql_Text Embedding
begin

text \<open>
  \<open>operator/base.py\<close>: capabilities, the operator contract, argument tokens. An operator
  subclass is a record: its class attributes, which execution cells it defines (a cell is
  present exactly when the subclass overrides the method; a duck cell carries the number of
  parameters of its signature without \<open>self\<close>) and what the methods compute.
\<close>

section \<open>Capabilities\<close>

datatype cap = PURE | FS_READ | FS_WRITE | NET | EXEC

fun cap_rank :: "cap \<Rightarrow> nat" where
  "cap_rank PURE = 0"
| "cap_rank FS_READ = 1"
| "cap_rank FS_WRITE = 2"
| "cap_rank NET = 3"
| "cap_rank EXEC = 4"

lemma cap_rank_inj: "cap_rank a = cap_rank b \<longleftrightarrow> a = b"
  by (cases a; cases b) simp_all

text \<open>The declaration order of the enumeration.\<close>

instantiation cap :: linorder
begin

definition less_eq_cap :: "cap \<Rightarrow> cap \<Rightarrow> bool" where
  "less_eq_cap a b \<longleftrightarrow> cap_rank a \<le> cap_rank b"

definition less_cap :: "cap \<Rightarrow> cap \<Rightarrow> bool" where
  "less_cap a b \<longleftrightarrow> cap_rank a < cap_rank b"

instance
  by standard (auto simp: less_eq_cap_def less_cap_def cap_rank_inj)

end

text \<open>\<open>frozenset(Cap)\<close>.\<close>

definition ALL_CAPS :: "cap list" where
  "ALL_CAPS = [PURE, FS_READ, FS_WRITE, NET, EXEC]"

lemma ALL_CAPS_all: "c \<in> set ALL_CAPS"
  by (cases c) (simp_all add: ALL_CAPS_def)

section \<open>Arguments and the operator contract\<close>

text \<open>
  The namespaces the \<open>parse_args\<close> methods build. The last field of \<open>ASearch\<close> and \<open>AScan\<close> is
  what \<open>prepare\<close> attaches (\<open>_sql\<close>, \<open>_params\<close>); \<open>AUser\<close> is the base class's namespace.
\<close>

datatype op_args =
    ASearch string string "string option" int "(string \<times> sqlparam list) option"
  | AScan string "string option"
  | AGrep string string
  | ASh string
  | AJq string
  | AWatch string int
  | AIngest string int int
  | AUser "string list" "(string, string) dict"

record op_ctx =
  ctx_cfg :: store_cfg
  ctx_embedding :: "embedder option"
  ctx_ds_start :: "string option"
  ctx_ds_end :: "string option"

record operator =
  op_name :: string
  op_caps :: "cap list"
  op_bounded :: bool
  op_source :: "bool option"
  op_duck_arity :: "nat option"
  op_run_duck_arity :: "nat option"
  op_has_bash :: bool
  op_has_run_bash :: bool
  op_parse_args :: "string list \<Rightarrow> op_args res"
  op_prepare :: "op_args \<Rightarrow> op_ctx \<Rightarrow> op_args res"
  op_duck_source :: "op_args \<Rightarrow> (string \<times> sqlparam list) res"
  op_duck_middle :: "string \<Rightarrow> op_args \<Rightarrow> (string \<times> sqlparam list) res"
  op_bash :: "op_args \<Rightarrow> string list res"

text \<open>\<open>is_source\<close>: an override (\<open>op_source\<close>) decides, else the first duck cell's signature.\<close>

definition is_source :: "operator \<Rightarrow> bool res" where
  "is_source op = (case op_source op of
       Some b \<Rightarrow> Inr b
     | None \<Rightarrow>
         (case op_duck_arity op of
            Some n \<Rightarrow> Inr (n < 2)
          | None \<Rightarrow>
              (case op_run_duck_arity op of
                 Some n \<Rightarrow> Inr (n < 3)
               | None \<Rightarrow> if op_has_bash op \<or> op_has_run_bash op then Inr False
                         else raise QueryError ''no executable cell'')))"

section \<open>Tokens\<close>

fun parse_tokens_from ::
    "string list \<Rightarrow> (string, string) dict \<Rightarrow> string list
      \<Rightarrow> (string list \<times> (string, string) dict) res" where
  "parse_tokens_from pos opts [] = Inr (pos, opts)"
| "parse_tokens_from pos opts (t # ts) =
     (if starts_with ''--'' t then
        (case ts of
           [] \<Rightarrow> raise QueryError ''option needs a value''
         | v # ts' \<Rightarrow> parse_tokens_from pos (dict_set opts (drop 2 t) v) ts')
      else parse_tokens_from (pos @ [t]) opts ts)"

definition parse_tokens :: "string list \<Rightarrow> (string list \<times> (string, string) dict) res" where
  "parse_tokens ts = parse_tokens_from [] [] ts"

text \<open>
  \<open>shlex.split(text, posix=True)\<close>: the states of \<open>shlex.read_token\<close> with
  \<open>whitespace_split\<close>, no comment characters, backslash as escape and the double quote as the
  only quote inside which the backslash escapes.
\<close>

datatype shstate = Gap | InWord | InQuote char | EscWord | EscQuote char

definition is_sh_space :: "char \<Rightarrow> bool" where
  "is_sh_space c \<longleftrightarrow> ord c \<in> {9, 10, 13, 32}"

abbreviation backslash :: char where
  "backslash \<equiv> CHR 0x5C"

fun shlex_scan :: "shstate \<Rightarrow> string \<Rightarrow> string list \<Rightarrow> string \<Rightarrow> string list res" where
  "shlex_scan Gap w acc [] = Inr acc"
| "shlex_scan InWord w acc [] = Inr (acc @ [w])"
| "shlex_scan (InQuote k) w acc [] = raise PyValueError ''No closing quotation''"
| "shlex_scan EscWord w acc [] = raise PyValueError ''No escaped character''"
| "shlex_scan (EscQuote k) w acc [] = raise PyValueError ''No escaped character''"
| "shlex_scan Gap w acc (c # cs) =
     (if is_sh_space c then shlex_scan Gap [] acc cs
      else if c = backslash then shlex_scan EscWord [] acc cs
      else if is_quote c then shlex_scan (InQuote c) [] acc cs
      else shlex_scan InWord [c] acc cs)"
| "shlex_scan InWord w acc (c # cs) =
     (if is_sh_space c then shlex_scan Gap [] (acc @ [w]) cs
      else if is_quote c then shlex_scan (InQuote c) w acc cs
      else if c = backslash then shlex_scan EscWord w acc cs
      else shlex_scan InWord (w @ [c]) acc cs)"
| "shlex_scan (InQuote k) w acc (c # cs) =
     (if c = k then shlex_scan InWord w acc cs
      else if c = backslash \<and> k = CHR 0x22 then shlex_scan (EscQuote k) w acc cs
      else shlex_scan (InQuote k) (w @ [c]) acc cs)"
| "shlex_scan EscWord w acc (c # cs) = shlex_scan InWord (w @ [c]) acc cs"
| "shlex_scan (EscQuote k) w acc (c # cs) =
     shlex_scan (InQuote k) (if c \<noteq> backslash \<and> c \<noteq> k then w @ [backslash, c] else w @ [c]) acc cs"

definition split_args :: "string \<Rightarrow> string list res" where
  "split_args s = (case shlex_scan Gap [] [] s of
       Inl e \<Rightarrow> if exn_class e = PyValueError then raise QueryError ''bad operator arguments'' else Inl e
     | Inr ts \<Rightarrow> Inr ts)"

definition base_parse_args :: "string list \<Rightarrow> op_args res" where
  "base_parse_args ts = bindR (parse_tokens ts) (\<lambda>(pos, opts). Inr (AUser pos opts))"

section \<open>Quoted arguments are read back\<close>

definition shell_quote :: "string \<Rightarrow> string" where
  "shell_quote s = qlit s"

lemma shlex_in_quote:
  "CHR 0x27 \<notin> set s \<Longrightarrow>
     shlex_scan (InQuote (CHR 0x27)) w acc (s @ CHR 0x27 # t) = shlex_scan InWord (w @ s) acc t"
  by (induction s arbitrary: w) auto

lemma quote_facts [simp]:
  "\<not> is_sh_space (CHR 0x27)" "is_quote (CHR 0x27)" "is_sh_space (CHR '' '')"
  by (simp_all add: is_sh_space_def is_quote_def ord_def)

lemma shlex_quoted:
  "list_all (\<lambda>s. CHR 0x27 \<notin> set s) ts \<Longrightarrow>
     shlex_scan Gap w acc (join_with '' '' (map shell_quote ts)) = Inr (acc @ ts)"
proof (induction ts arbitrary: w acc)
  case (Cons s ts)
  have gap: "shlex_scan Gap w acc (shell_quote s @ r) = shlex_scan InWord s acc r" for r
    using Cons.prems shlex_in_quote [of s "[]" acc r] by (simp add: shell_quote_def qlit_def)
  show ?case
  proof (cases ts)
    case Nil
    then show ?thesis using gap [of "[]"] by simp
  next
    case (Cons t rest)
    then show ?thesis
      using gap [of "CHR '' '' # join_with '' '' (map shell_quote ts)"] Cons.IH Cons.prems
      by (simp add: join_with_Cons)
  qed
qed simp

lemma split_args_quoted:
  "list_all (\<lambda>s. CHR 0x27 \<notin> set s) ts \<Longrightarrow>
     split_args (join_with '' '' (map shell_quote ts)) = Inr ts"
  by (simp add: split_args_def shlex_quoted)

lemma shlex_scan_error: "shlex_scan st w acc s = Inl e \<Longrightarrow> exn_class e = PyValueError"
  by (induction st w acc s rule: shlex_scan.induct) (auto split: if_splits)

lemma split_args_error: "split_args s = Inl e \<Longrightarrow> exn_class e = QueryError"
  by (auto simp: split_args_def dest: shlex_scan_error split: sum.splits if_splits)

lemma parse_tokens_from_error: "parse_tokens_from pos opts ts = Inl e \<Longrightarrow> exn_class e = QueryError"
proof (induction pos opts ts rule: parse_tokens_from.induct)
  case (2 pos opts t ts)
  then show ?case by (cases ts; cases "starts_with ''--'' t") auto
qed simp

lemma parse_tokens_error: "parse_tokens ts = Inl e \<Longrightarrow> exn_class e = QueryError"
  unfolding parse_tokens_def by (rule parse_tokens_from_error)

lemma parse_tokens_from_positional:
  "list_all (\<lambda>t. \<not> starts_with ''--'' t) ts \<Longrightarrow>
     parse_tokens_from pos opts (ts @ us) = parse_tokens_from (pos @ ts) opts us"
  by (induction ts arbitrary: pos) auto

end
