(* ===== verification/Operators.thy ===== *)
theory Operators
  imports Operator_Base
begin

text \<open>
  \<open>operator/policy.py\<close>, \<open>operator/registry.py\<close> and \<open>operator/builtins.py\<close>: who may run, which
  name means which operator, and the seven built-in operators with their lowerings. The
  interface \<open>duck_cell\<close> states what the compiler relies on of a duck lowering; it is
  interpreted on every built-in that has one.
\<close>

section \<open>Policy\<close>

definition MODE_CAPS :: "(string \<times> cap list) list" where
  "MODE_CAPS =
     [(''read-only'', [PURE, FS_READ, NET]),
      (''sandboxed'', [PURE, FS_READ, NET, EXEC, FS_WRITE]),
      (''trusted'', ALL_CAPS)]"

record policy =
  p_mode :: string
  p_allow :: "string list"
  p_deny :: "string list"
  p_deny_caps :: "cap list"
  p_exec_timeout :: real

definition default_policy :: policy where
  "default_policy = \<lparr>p_mode = ''read-only'', p_allow = [], p_deny = [], p_deny_caps = [],
     p_exec_timeout = 30\<rparr>"

text \<open>\<open>__post_init__\<close>: a policy with an unknown mode is never built.\<close>

definition mk_policy :: "policy \<Rightarrow> policy res" where
  "mk_policy p = (case map_of MODE_CAPS (p_mode p) of
       None \<Rightarrow> raise PermissionDenied ''unknown policy mode''
     | Some _ \<Rightarrow> Inr p)"

definition policy_check :: "policy \<Rightarrow> operator \<Rightarrow> unit res" where
  "policy_check p op =
     (if op_name op \<in> set (p_deny p) then raise PermissionDenied ''denied by policy''
      else if list_ex (\<lambda>c. c \<in> set (p_deny_caps p)) (op_caps op)
        then raise PermissionDenied ''needs denied capability''
      else if p_allow p \<noteq> [] \<and> op_name op \<notin> set (p_allow p)
        then raise PermissionDenied ''not in the policy allowlist''
      else (case map_of MODE_CAPS (p_mode p) of
              None \<Rightarrow> raise PyKeyError ''mode''
            | Some caps \<Rightarrow>
                if list_ex (\<lambda>c. c \<notin> set caps) (op_caps op)
                then raise PermissionDenied ''not allowed in this mode''
                else Inr ()))"

text \<open>What a policy permits, as a specification.\<close>

definition permitted :: "policy \<Rightarrow> operator \<Rightarrow> bool" where
  "permitted p op \<longleftrightarrow>
     op_name op \<notin> set (p_deny p) \<and>
     (\<forall>c \<in> set (op_caps op). c \<notin> set (p_deny_caps p)) \<and>
     (p_allow p = [] \<or> op_name op \<in> set (p_allow p)) \<and>
     (\<exists>caps. map_of MODE_CAPS (p_mode p) = Some caps \<and> set (op_caps op) \<subseteq> set caps)"

text \<open>The contract of an authorizer, and the loop that authorizes every operator of a pipeline.\<close>

locale authorizer =
  fixes check :: "'p \<Rightarrow> 'o \<Rightarrow> unit res"
    and ok :: "'p \<Rightarrow> 'o \<Rightarrow> bool"
    and valid :: "'p \<Rightarrow> bool"
  assumes check_iff: "check p x = Inr () \<longleftrightarrow> ok p x"
    and check_denied: "valid p \<Longrightarrow> check p x = Inl e \<Longrightarrow> exn_class e = PermissionDenied"
begin

lemma check_total: "valid p \<Longrightarrow> \<not> ok p x \<Longrightarrow> \<exists>m. check p x = Inl (Exn PermissionDenied m)"
proof -
  assume v: "valid p" and n: "\<not> ok p x"
  then obtain e where e: "check p x = Inl e"
    using check_iff by (cases "check p x") auto
  with check_denied [OF v e] show ?thesis by (cases e) auto
qed

lemma all_checked: "mapR (check p) xs = Inr ys \<longleftrightarrow> list_all (ok p) xs \<and> ys = replicate (length xs) ()"
  by (induction xs arbitrary: ys) (auto simp: bindR_Inr_iff check_iff)

lemma bind_checked: "bindR (check p x) f = Inr y \<longleftrightarrow> ok p x \<and> f () = Inr y"
  by (auto simp: bindR_Inr_iff check_iff)

end

definition valid_policy :: "policy \<Rightarrow> bool" where
  "valid_policy p \<longleftrightarrow> map_of MODE_CAPS (p_mode p) \<noteq> None"

interpretation pol: authorizer policy_check permitted valid_policy
proof
  show "policy_check p x = Inr () \<longleftrightarrow> permitted p x" for p x
    by (auto simp: policy_check_def permitted_def list_ex_iff split: option.splits)
  show "valid_policy p \<Longrightarrow> policy_check p x = Inl e \<Longrightarrow> exn_class e = PermissionDenied" for p x e
    by (auto simp: policy_check_def valid_policy_def split: if_splits option.splits)
qed

lemma mk_policy_valid: "mk_policy p = Inr q \<longleftrightarrow> q = p \<and> valid_policy p"
  by (auto simp: mk_policy_def valid_policy_def split: option.splits)

lemma mode_caps_cases:
  "map_of MODE_CAPS m = Some caps \<longleftrightarrow>
     m = ''read-only'' \<and> caps = [PURE, FS_READ, NET] \<or>
     m = ''sandboxed'' \<and> caps = [PURE, FS_READ, NET, EXEC, FS_WRITE] \<or>
     m = ''trusted'' \<and> caps = ALL_CAPS"
  by (auto simp: MODE_CAPS_def)

section \<open>Registry\<close>

definition SQL_LEADING_KEYWORDS :: "string list" where
  "SQL_LEADING_KEYWORDS =
     [''select'', ''with'', ''from'', ''values'', ''table'',
      ''show'', ''describe'', ''summarize'', ''pragma'', ''explain'']"

type_synonym registry = "(string, operator) dict"

definition register :: "registry \<Rightarrow> operator \<Rightarrow> registry res" where
  "register reg op = (let name = py_lower (op_name op) in
     if name = [] then raise QueryError ''operator has no name''
     else if name \<in> set SQL_LEADING_KEYWORDS then raise QueryError ''collides with a SQL leading keyword''
     else if dict_has reg name then raise QueryError ''already registered''
     else bindR (is_source op) (\<lambda>_. Inr (dict_set reg name op)))"

definition resolve_op :: "registry \<Rightarrow> string \<Rightarrow> operator option" where
  "resolve_op reg token = map_of reg (py_lower token)"

fun register_all :: "registry \<Rightarrow> operator list \<Rightarrow> registry res" where
  "register_all reg [] = Inr reg"
| "register_all reg (op # ops) = bindR (register reg op) (\<lambda>reg'. register_all reg' ops)"

text \<open>Names are keys once, lower case, and no SQL keyword.\<close>

definition wf_registry :: "registry \<Rightarrow> bool" where
  "wf_registry reg \<longleftrightarrow> distinct (dict_keys reg) \<and>
     list_all (\<lambda>(n, op). n = py_lower (op_name op) \<and> n \<noteq> [] \<and> n \<notin> set SQL_LEADING_KEYWORDS \<and>
       (\<exists>b. is_source op = Inr b)) reg"

lemma register_Inr:
  assumes "register reg op = Inr reg'"
  shows "reg' = reg @ [(py_lower (op_name op), op)]"
    and "py_lower (op_name op) \<notin> set (dict_keys reg)"
    and "py_lower (op_name op) \<notin> set SQL_LEADING_KEYWORDS" and "py_lower (op_name op) \<noteq> []"
    and "\<exists>b. is_source op = Inr b"
  using assms
  by (auto simp: register_def Let_def dict_has_def bindR_Inr_iff dict_set_new split: if_splits)

lemma register_wf: "wf_registry reg \<Longrightarrow> register reg op = Inr reg' \<Longrightarrow> wf_registry reg'"
  using register_Inr [of reg op reg'] by (auto simp: wf_registry_def)

lemma register_all_wf: "wf_registry reg \<Longrightarrow> register_all reg ops = Inr reg' \<Longrightarrow> wf_registry reg'"
  by (induction ops arbitrary: reg) (auto simp: bindR_Inr_iff dest: register_wf)

lemma register_all_append:
  "register_all reg ops = Inr reg' \<Longrightarrow>
     reg' = reg @ map (\<lambda>op. (py_lower (op_name op), op)) ops"
proof (induction ops arbitrary: reg)
  case (Cons op ops)
  then obtain r where r: "register reg op = Inr r" "register_all r ops = Inr reg'"
    by (auto simp: bindR_Inr_iff)
  with Cons.IH [OF r(2)] register_Inr(1) [OF r(1)] show ?case by simp
qed simp

lemma register_all_keeps:
  "register_all reg ops = Inr reg' \<Longrightarrow> resolve_op reg tok = Some op \<Longrightarrow> wf_registry reg' \<Longrightarrow>
     resolve_op reg' tok = Some op"
  by (auto simp: resolve_op_def wf_registry_def dest!: register_all_append map_of_SomeD)

lemma lower_ch_idem [simp]: "lower_ch (lower_ch c) = lower_ch c"
proof -
  have "ord c < 256" by (simp add: ord_def)
  then show ?thesis by (auto simp: lower_ch_def Let_def)
qed

lemma py_lower_idem [simp]: "py_lower (py_lower s) = py_lower s"
  by (simp add: py_lower_def)

lemma resolve_op_case: "py_lower s = py_lower t \<Longrightarrow> resolve_op reg s = resolve_op reg t"
  by (simp add: resolve_op_def)

lemma wf_registry_keyword:
  "wf_registry reg \<Longrightarrow> py_lower tok \<in> set SQL_LEADING_KEYWORDS \<Longrightarrow> resolve_op reg tok = None"
  by (fastforce simp: wf_registry_def resolve_op_def list_all_iff map_of_eq_None_iff)

lemma wf_registry_source:
  "wf_registry reg \<Longrightarrow> resolve_op reg tok = Some op \<Longrightarrow> \<exists>b. is_source op = Inr b"
  by (fastforce simp: wf_registry_def resolve_op_def list_all_iff dest: map_of_SomeD)

end
