(* ===== verification/Builtins.thy ===== *)
theory Builtins
  imports Operators
begin

text \<open>
  \<open>operator/builtins.py\<close>: \<open>search\<close>, \<open>scan\<close>, \<open>grep\<close> (duck cells), \<open>sh\<close>, \<open>jq\<close> (bash cells),
  \<open>watch\<close> (the unbounded source) and \<open>ingest\<close> (the streaming sink). A method called with
  another operator's namespace raises \<open>AttributeError\<close>, as reading a missing attribute does.
\<close>

definition opt_int :: "(string, string) dict \<Rightarrow> string \<Rightarrow> int \<Rightarrow> string \<Rightarrow> int res" where
  "opt_int opts key dflt msg = (case map_of opts key of
       None \<Rightarrow> Inr dflt
     | Some s \<Rightarrow> (case py_int s of None \<Rightarrow> raise QueryError msg | Some i \<Rightarrow> Inr i))"

definition no_attr :: "'a res" where
  "no_attr = raise PyAttributeError ''no such attribute''"

section \<open>search\<close>

definition search_parse_args :: "string list \<Rightarrow> op_args res" where
  "search_parse_args ts = bindR (parse_tokens ts) (\<lambda>(pos, opts).
     if length pos \<noteq> 2 then raise QueryError ''usage: search''
     else bindR (opt_int opts ''k'' SEARCH_K ''search: --k must be an integer'') (\<lambda>k.
       if k \<le> 0 then raise QueryError ''search: --k must be positive''
       else Inr (ASearch (pos ! 0) (pos ! 1) (map_of opts ''col'') k None)))"

definition search_column :: "tablespec \<Rightarrow> string option \<Rightarrow> string res" where
  "search_column spec col = (case col of
       None \<Rightarrow> if length (ts_searchable spec) \<noteq> 1 then raise QueryError ''--col is required''
               else Inr (ts_searchable spec ! 0)
     | Some c \<Rightarrow> if c \<notin> set (ts_searchable spec) then raise QueryError ''column is not searchable''
                 else Inr c)"

fun search_prepare :: "op_args \<Rightarrow> op_ctx \<Rightarrow> op_args res" where
  "search_prepare (ASearch table q col k low) ctx =
     bindR (schema_table (cfg_schema (ctx_cfg ctx)) table) (\<lambda>spec.
     bindR (search_column spec col) (\<lambda>c.
     (case ctx_embedding ctx of
        None \<Rightarrow> raise QueryError ''search needs a searchable column and an embedder''
      | Some em \<Rightarrow>
          bindR (embed em [q]) (\<lambda>vs.
          (case vs of
             [] \<Rightarrow> raise PyIndexError ''list index out of range''
           | qvec # _ \<Rightarrow>
               bindR (search_lower (ctx_cfg ctx) table c qvec (tokens em q) k
                        (ctx_ds_start ctx) (ctx_ds_end ctx)) (\<lambda>lw.
               Inr (ASearch table q col k (Some lw))))))))"
| "search_prepare _ ctx = no_attr"

fun search_duck :: "op_args \<Rightarrow> (string \<times> sqlparam list) res" where
  "search_duck (ASearch table q col k (Some lw)) = Inr lw"
| "search_duck _ = no_attr"

section \<open>scan\<close>

definition scan_parse_args :: "string list \<Rightarrow> op_args res" where
  "scan_parse_args ts = bindR (parse_tokens ts) (\<lambda>(pos, opts).
     if length pos \<noteq> 1 \<or> opts \<noteq> [] then raise QueryError ''usage: scan''
     else Inr (AScan (pos ! 0) None))"

fun scan_prepare :: "op_args \<Rightarrow> op_ctx \<Rightarrow> op_args res" where
  "scan_prepare (AScan table low) ctx =
     bindR (schema_table (cfg_schema (ctx_cfg ctx)) table) (\<lambda>_.
     bindR (visible_sql (ctx_cfg ctx) table (ctx_ds_start ctx) (ctx_ds_end ctx)) (\<lambda>sql.
     Inr (AScan table (Some sql))))"
| "scan_prepare _ ctx = no_attr"

fun scan_duck :: "op_args \<Rightarrow> (string \<times> sqlparam list) res" where
  "scan_duck (AScan table (Some sql)) = Inr (sql, [])"
| "scan_duck _ = no_attr"

section \<open>grep\<close>

definition grep_parse_args :: "string list \<Rightarrow> op_args res" where
  "grep_parse_args ts = bindR (parse_tokens ts) (\<lambda>(pos, opts).
     case map_of opts ''field'' of
       None \<Rightarrow> raise QueryError ''usage: grep''
     | Some f \<Rightarrow> if length pos \<noteq> 1 then raise QueryError ''usage: grep''
                 else Inr (AGrep (pos ! 0) f))"

definition grep_field_ok :: "string \<Rightarrow> bool" where
  "grep_field_ok f \<longleftrightarrow> py_isalnum (filter (\<lambda>c. c \<noteq> CHR ''_'') f)"

fun grep_duck :: "string \<Rightarrow> op_args \<Rightarrow> (string \<times> sqlparam list) res" where
  "grep_duck prev (AGrep pattern f) =
     (if \<not> grep_field_ok f then raise QueryError ''grep: illegal field''
      else Inr (''SELECT * FROM '' @ prev @ '' WHERE regexp_matches(CAST('' @ qid f @ '' AS VARCHAR), ?)'',
                [ParamVal (PStr pattern)]))"
| "grep_duck prev _ = no_attr"

section \<open>sh, jq\<close>

definition sh_parse_args :: "string list \<Rightarrow> op_args res" where
  "sh_parse_args ts = (case ts of [c] \<Rightarrow> Inr (ASh c) | _ \<Rightarrow> raise QueryError ''usage: sh'')"

fun sh_bash :: "op_args \<Rightarrow> string list res" where
  "sh_bash (ASh c) = Inr [''/bin/sh'', ''-c'', c]"
| "sh_bash _ = no_attr"

definition jq_parse_args :: "string list \<Rightarrow> op_args res" where
  "jq_parse_args ts = (case ts of [s] \<Rightarrow> Inr (AJq s) | _ \<Rightarrow> raise QueryError ''usage: jq'')"

fun jq_bash :: "op_args \<Rightarrow> string list res" where
  "jq_bash (AJq s) = Inr [''jq'', ''-c'', s]"
| "jq_bash _ = no_attr"

section \<open>watch, ingest\<close>

definition watch_parse_args :: "string list \<Rightarrow> op_args res" where
  "watch_parse_args ts = bindR (parse_tokens ts) (\<lambda>(pos, opts).
     if length pos \<noteq> 1 then raise QueryError ''usage: watch''
     else bindR (opt_int opts ''poll-ms'' 200 ''watch: --poll-ms must be an integer'') (\<lambda>p.
       Inr (AWatch (pos ! 0) (max 20 p))))"

fun watch_bash :: "op_args \<Rightarrow> string list res" where
  "watch_bash (AWatch g p) = Inr [''tail'', ''-F'', ''-n'', ''+1'', g]"
| "watch_bash _ = no_attr"

definition ingest_parse_args :: "string list \<Rightarrow> op_args res" where
  "ingest_parse_args ts = bindR (parse_tokens ts) (\<lambda>(pos, opts).
     if length pos \<noteq> 1 then raise QueryError ''usage: ingest''
     else bindR (opt_int opts ''batch'' 64 ''ingest: --batch/--flush-ms must be integers'') (\<lambda>b.
       bindR (opt_int opts ''flush-ms'' 200 ''ingest: --batch/--flush-ms must be integers'') (\<lambda>f.
       Inr (AIngest (pos ! 0) (max 1 b) (max 20 f)))))"

section \<open>The operators as records\<close>

text \<open>What the base class gives a subclass that overrides nothing.\<close>

definition base_operator :: operator where
  "base_operator = \<lparr>op_name = [], op_caps = [PURE], op_bounded = True, op_source = None,
     op_duck_arity = None, op_run_duck_arity = None, op_has_bash = False, op_has_run_bash = False,
     op_parse_args = base_parse_args, op_prepare = (\<lambda>a ctx. Inr a),
     op_duck_source = (\<lambda>a. no_attr), op_duck_middle = (\<lambda>p a. no_attr), op_bash = (\<lambda>a. no_attr)\<rparr>"

definition op_search :: operator where
  "op_search = base_operator\<lparr>op_name := ''search'', op_caps := [PURE], op_duck_arity := Some 1,
     op_parse_args := search_parse_args, op_prepare := search_prepare, op_duck_source := search_duck\<rparr>"

definition op_scan :: operator where
  "op_scan = base_operator\<lparr>op_name := ''scan'', op_caps := [PURE], op_duck_arity := Some 1,
     op_parse_args := scan_parse_args, op_prepare := scan_prepare, op_duck_source := scan_duck\<rparr>"

definition op_grep :: operator where
  "op_grep = base_operator\<lparr>op_name := ''grep'', op_caps := [PURE], op_duck_arity := Some 2,
     op_parse_args := grep_parse_args, op_duck_middle := grep_duck\<rparr>"

definition op_sh :: operator where
  "op_sh = base_operator\<lparr>op_name := ''sh'', op_caps := [EXEC], op_has_bash := True,
     op_parse_args := sh_parse_args, op_bash := sh_bash\<rparr>"

definition op_jq :: operator where
  "op_jq = base_operator\<lparr>op_name := ''jq'', op_caps := [EXEC], op_has_bash := True,
     op_parse_args := jq_parse_args, op_bash := jq_bash\<rparr>"

definition op_watch :: operator where
  "op_watch = base_operator\<lparr>op_name := ''watch'', op_caps := [FS_READ], op_bounded := False,
     op_source := Some True, op_has_bash := True, op_parse_args := watch_parse_args,
     op_bash := watch_bash\<rparr>"

definition op_ingest :: operator where
  "op_ingest = base_operator\<lparr>op_name := ''ingest'', op_caps := [PURE], op_source := Some False,
     op_parse_args := ingest_parse_args\<rparr>"

definition builtin_operators :: "operator list" where
  "builtin_operators = [op_search, op_scan, op_grep, op_sh, op_jq, op_watch, op_ingest]"

lemmas builtin_defs = op_search_def op_scan_def op_grep_def op_sh_def op_jq_def op_watch_def
  op_ingest_def base_operator_def

text \<open>\<open>build_services\<close>: the built-ins first, then the user's operators.\<close>

definition build_registry :: "operator list \<Rightarrow> registry res" where
  "build_registry users = bindR (register_all [] builtin_operators) (\<lambda>reg. register_all reg users)"

definition builtin_registry :: registry where
  "builtin_registry = map (\<lambda>op. (op_name op, op)) builtin_operators"

lemma py_lower_Nil [simp]: "py_lower [] = []"
  by (simp add: py_lower_def)

lemma builtin_lower [simp]:
  "py_lower ''search'' = ''search''" "py_lower ''scan'' = ''scan''" "py_lower ''grep'' = ''grep''"
  "py_lower ''sh'' = ''sh''" "py_lower ''jq'' = ''jq''" "py_lower ''watch'' = ''watch''"
  "py_lower ''ingest'' = ''ingest''"
  by (simp_all add: py_lower_def lower_ch_def ord_def)

lemma builtin_names [simp]:
  "op_name op_search = ''search''"
  "op_name op_scan = ''scan''"
  "op_name op_grep = ''grep''"
  "op_name op_sh = ''sh''"
  "op_name op_jq = ''jq''"
  "op_name op_watch = ''watch''"
  "op_name op_ingest = ''ingest''"
  by (simp_all add: builtin_defs)

lemma builtin_sources [simp]:
  "is_source op_search = Inr True"
  "is_source op_scan = Inr True"
  "is_source op_grep = Inr False"
  "is_source op_sh = Inr False"
  "is_source op_jq = Inr False"
  "is_source op_watch = Inr True"
  "is_source op_ingest = Inr False"
  by (simp_all add: builtin_defs is_source_def)

lemma builtin_caps [simp]:
  "op_caps op_search = [PURE]"
  "op_caps op_scan = [PURE]"
  "op_caps op_grep = [PURE]"
  "op_caps op_sh = [EXEC]"
  "op_caps op_jq = [EXEC]"
  "op_caps op_watch = [FS_READ]"
  "op_caps op_ingest = [PURE]"
  by (simp_all add: builtin_defs)

lemma builtin_bounded [simp]:
  "op_bounded op_search = True"
  "op_bounded op_scan = True"
  "op_bounded op_grep = True"
  "op_bounded op_sh = True"
  "op_bounded op_jq = True"
  "op_bounded op_watch = False"
  "op_bounded op_ingest = True"
  by (simp_all add: builtin_defs)

lemma register_builtins: "register_all [] builtin_operators = Inr builtin_registry"
  by (simp add: builtin_operators_def builtin_registry_def register_def dict_has_def
      SQL_LEADING_KEYWORDS_def)

lemma build_registry_wf: "build_registry users = Inr reg \<Longrightarrow> wf_registry reg"
  unfolding build_registry_def
  by (rule register_all_wf [of "[]" "builtin_operators @ users"])
    (auto simp: wf_registry_def register_builtins builtin_operators_def bindR_Inr_iff)

section \<open>The contract of a duck lowering\<close>

text \<open>
  A context whose interpolated names carry no quote and no question mark. \<open>run_plan\<close> checks
  the time window before anything runs, \<open>_create_tables\<close> the declared names; the directory of
  the lance datasets is the caller's.
\<close>

definition ctx_ok :: "op_ctx \<Rightarrow> bool" where
  "ctx_ok ctx \<longleftrightarrow> quiet_opt (ctx_ds_start ctx) \<and> quiet_opt (ctx_ds_end ctx) \<and>
     quiet (cfg_lance_dir (ctx_cfg ctx)) \<and>
     list_all (\<lambda>spec. list_all quiet (ts_searchable spec)) (sc_tables (cfg_schema (ctx_cfg ctx)))"

definition in_stage :: "string \<Rightarrow> string \<Rightarrow> string" where
  "in_stage prev body = ''WITH _in AS (SELECT * FROM '' @ prev @ '') '' @ body"

lemma in_stage_ok: "quiet prev \<Longrightarrow> sql_ok body n \<Longrightarrow> sql_ok (in_stage prev body) n"
  by (simp add: in_stage_def sql_ok_def lex_Cons is_quote_def closed_text_append
      count_placeholders_append lex_quiet)

locale duck_cell =
  fixes prepare :: "op_args \<Rightarrow> op_ctx \<Rightarrow> op_args res"
    and lower :: "string \<Rightarrow> op_args \<Rightarrow> (string \<times> sqlparam list) res"
  assumes lower_ok:
    "ctx_ok ctx \<Longrightarrow> quiet prev \<Longrightarrow> prepare a ctx = Inr b \<Longrightarrow> lower prev b = Inr (sql, ps) \<Longrightarrow>
       sql_ok sql (length ps)"
begin

lemma stage_ok:
  assumes "ctx_ok ctx" and "quiet prev" and "prepare a ctx = Inr b"
    and "bindR (lower p b) (\<lambda>(sql, ps). Inr (in_stage prev sql, ps)) = Inr (body, ps)" and "quiet p"
  shows "sql_ok body (length ps)"
  using assms by (auto simp: bindR_Inr_iff intro!: in_stage_ok dest: lower_ok)

end

lemma search_column_quiet:
  assumes "ctx_ok ctx" and "schema_table (cfg_schema (ctx_cfg ctx)) table = Inr spec"
    and "search_column spec col = Inr c"
  shows "quiet c"
proof -
  have "c \<in> set (ts_searchable spec)"
    using assms(3) by (auto simp: search_column_def split: option.splits if_splits)
  then show ?thesis
    using assms(1,2) by (fastforce simp: ctx_ok_def list_all_iff dest: schema_table_Inr)
qed

lemma case_Cons_Inr: "(case vs of [] \<Rightarrow> Inl e | v # rest \<Rightarrow> f v) = Inr y \<longleftrightarrow> (\<exists>v rest. vs = v # rest \<and> f v = Inr y)"
  by (cases vs) auto

lemma case_Some_Inr: "(case x of None \<Rightarrow> Inl e | Some v \<Rightarrow> f v) = Inr y \<longleftrightarrow> (\<exists>v. x = Some v \<and> f v = Inr y)"
  by (cases x) auto

lemma search_prepare_Inr:
  "search_prepare (ASearch table q col k low) ctx = Inr b \<longleftrightarrow>
     (\<exists>spec c em qvec rest lw. schema_table (cfg_schema (ctx_cfg ctx)) table = Inr spec \<and>
        search_column spec col = Inr c \<and> ctx_embedding ctx = Some em \<and>
        embed em [q] = Inr (qvec # rest) \<and>
        search_lower (ctx_cfg ctx) table c qvec (tokens em q) k (ctx_ds_start ctx) (ctx_ds_end ctx)
          = Inr lw \<and> b = ASearch table q col k (Some lw))"
  by (auto simp: bindR_Inr_iff case_Cons_Inr case_Some_Inr)

interpretation search: duck_cell search_prepare "\<lambda>prev. search_duck"
proof
  fix ctx a b sql ps
  assume ctx: "ctx_ok ctx" and b: "search_prepare a ctx = Inr b" and low: "search_duck b = Inr (sql, ps)"
  from b obtain table q col k lw where a: "a = ASearch table q col k lw"
    by (cases a) (auto simp: no_attr_def)
  from b [unfolded a search_prepare_Inr] obtain spec c em qvec rest lw' where
    spec: "schema_table (cfg_schema (ctx_cfg ctx)) table = Inr spec" and c: "search_column spec col = Inr c"
    and lower: "search_lower (ctx_cfg ctx) table c qvec (tokens em q) k (ctx_ds_start ctx)
       (ctx_ds_end ctx) = Inr lw'" and b': "b = ASearch table q col k (Some lw')" by blast
  have "lw' = (sql, ps)" using low b' by simp
  then show "sql_ok sql (length ps)"
    using ctx lower search_column_quiet [OF ctx spec c] by (auto simp: ctx_ok_def intro: search_lower_ok)
qed

interpretation scan: duck_cell scan_prepare "\<lambda>prev. scan_duck"
proof
  fix ctx a b sql ps
  assume "ctx_ok ctx" "scan_prepare a ctx = Inr b" "scan_duck b = Inr (sql, ps)"
  then show "sql_ok sql (length ps)"
    by (cases "(a, ctx)" rule: scan_prepare.cases)
      (auto simp: bindR_Inr_iff no_attr_def ctx_ok_def visible_sql_def dest: visible_text_ok)
qed

lemma alnum_quiet: "is_alnum_ch c \<Longrightarrow> \<not> is_quote c \<and> c \<noteq> CHR ''?''"
  by (auto simp: is_alnum_ch_def is_digit_ch_def is_ascii_digit_def is_ascii_letter_def
      is_quote_def ord_def Let_def)

lemma grep_field_quiet: "grep_field_ok f \<Longrightarrow> quiet f"
proof -
  assume "grep_field_ok f"
  then have alnum: "is_alnum_ch c" if "c \<in> set f" "c \<noteq> CHR ''_''" for c
    using that by (simp add: grep_field_ok_def py_isalnum_def list_all_iff)
  have under: "\<not> is_quote (CHR ''_'')" by (simp add: is_quote_def)
  have "\<not> is_quote c \<and> c \<noteq> CHR ''?''" if "c \<in> set f" for c
    using alnum_quiet [OF alnum [OF that]] under by (cases "c = CHR ''_''") simp_all
  then show ?thesis by (simp add: quiet_def list_all_iff)
qed

interpretation grep: duck_cell "\<lambda>a ctx. Inr a" grep_duck
proof
  fix ctx prev a b sql ps
  assume "quiet prev" "grep_duck prev b = Inr (sql, ps)"
  then show "sql_ok sql (length ps)"
    by (cases "(prev, b)" rule: grep_duck.cases)
      (auto simp: no_attr_def sql_ok_def lex_Cons lex_Nil is_quote_def closed_text_append
        count_placeholders_append lex_quiet lex_qid grep_field_quiet split: if_splits)
qed

end
