(* ===== verification/Pipeline_Compile.thy ===== *)
theory Pipeline_Compile
  imports Builtins
begin

text \<open>
  The compiler of \<open>service/pipeline_service.py\<close>: classification by the leading token,
  authorization, the assignment of a runtime to every segment, and the fusion of contiguous
  segments into phases. A duck phase is one \<open>WITH\<close> statement with its parameters, a bash
  phase a list of argument vectors.
\<close>

section \<open>Definitions\<close>

definition classify :: "registry \<Rightarrow> string \<Rightarrow> (operator \<times> string) option" where
  "classify reg seg = (case lead_match seg of
       None \<Rightarrow> None
     | Some (tok, rest) \<Rightarrow>
         (case resolve_op reg tok of None \<Rightarrow> None | Some op \<Rightarrow> Some (op, rest)))"

datatype staged = DuckOp operator op_args | DuckSql string | BashOp operator op_args

datatype phase = DuckPhase string "sqlparam list" | BashPhase "string list list"

text \<open>One turn of the staging loop.\<close>

definition stage_segment :: "policy \<Rightarrow> registry \<Rightarrow> op_ctx \<Rightarrow> string \<Rightarrow> staged res" where
  "stage_segment pol reg ctx seg = (case classify reg seg of
       None \<Rightarrow> if CHR '';'' \<in> set seg then raise QueryError ''must be a single statement''
               else Inr (DuckSql seg)
     | Some (op, rest) \<Rightarrow>
         bindR (policy_check pol op) (\<lambda>_.
         if \<not> op_bounded op then raise QueryError ''an unbounded source cannot enter a bounded query''
         else if op_name op = ''ingest'' then raise QueryError ''ingest is a streaming sink''
         else bindR (split_args rest) (\<lambda>ts.
              bindR (op_parse_args op ts) (\<lambda>args0.
              bindR (op_prepare op args0 ctx) (\<lambda>args.
              if op_duck_arity op \<noteq> None then Inr (DuckOp op args)
              else if op_has_bash op then
                bindR (is_source op) (\<lambda>src.
                if src then raise QueryError ''cannot start a bounded query'' else Inr (BashOp op args))
              else raise QueryError ''no runtime implementation'')))))"

text \<open>A call of \<open>optimize_duck\<close> with a wrong number of arguments raises \<open>TypeError\<close>.\<close>

definition call_duck_source :: "operator \<Rightarrow> op_args \<Rightarrow> (string \<times> sqlparam list) res" where
  "call_duck_source op args =
     (if op_duck_arity op = Some 1 then op_duck_source op args else raise PyTypeError ''arity'')"

definition call_duck_middle :: "operator \<Rightarrow> string \<Rightarrow> op_args \<Rightarrow> (string \<times> sqlparam list) res" where
  "call_duck_middle op prev args =
     (if op_duck_arity op = Some 2 then op_duck_middle op prev args else raise PyTypeError ''arity'')"

type_synonym ctes = "(string \<times> string) list"

text \<open>
  The body of one item of a duck run and the parameters it binds, with the user parameters
  left over.
\<close>

fun fuse_item ::
    "string option \<Rightarrow> pyval list \<Rightarrow> staged \<Rightarrow> (string \<times> sqlparam list \<times> pyval list) res" where
  "fuse_item prev user (DuckOp op args) =
     bindR (is_source op) (\<lambda>src.
     if src then
       (if prev \<noteq> None then raise QueryError ''a source must start the pipeline''
        else bindR (call_duck_source op args) (\<lambda>(body, ps). Inr (body, ps, user)))
     else
       (case prev of
          None \<Rightarrow> raise QueryError ''needs an upstream''
        | Some p \<Rightarrow> bindR (call_duck_middle op ''_in'' args) (\<lambda>(body, ps).
            Inr (in_stage p body, ps, user))))"
| "fuse_item prev user (DuckSql seg) =
     (let need = count_placeholders seg in
      if length user < need then raise QueryError ''not enough params''
      else Inr (case prev of None \<Rightarrow> seg | Some p \<Rightarrow> in_stage p seg,
                map ParamVal (take need user), drop need user))"
| "fuse_item prev user (BashOp op args) = raise PyValueError ''too many values to unpack''"

fun fuse_items ::
    "ctes \<Rightarrow> sqlparam list \<Rightarrow> string option \<Rightarrow> pyval list \<Rightarrow> staged list
      \<Rightarrow> (ctes \<times> sqlparam list \<times> string option \<times> pyval list) res" where
  "fuse_items cs ps prev user [] = Inr (cs, ps, prev, user)"
| "fuse_items cs ps prev user (item # items) =
     bindR (fuse_item prev user item) (\<lambda>(body, qs, user').
     (let name = ''_s'' @ show_nat (length cs)
      in fuse_items (cs @ [(name, body)]) (ps @ qs) (Some name) user' items))"

definition with_chain :: "ctes \<Rightarrow> string option \<Rightarrow> string" where
  "with_chain cs prev =
     ''WITH '' @ join_with '', '' (map (\<lambda>(n, b). n @ '' AS ('' @ b @ '')'') cs) @ '' SELECT * FROM '' @
     (case prev of None \<Rightarrow> ''None'' | Some p \<Rightarrow> p)"

definition fuse_duck_run ::
    "staged list \<Rightarrow> pyval list \<Rightarrow> bool \<Rightarrow> (string \<times> sqlparam list \<times> pyval list) res" where
  "fuse_duck_run run user from_bridge =
     bindR (fuse_items [] [] (if from_bridge then Some ''_bridge'' else None) user run)
       (\<lambda>(cs, ps, prev, user'). Inr (with_chain cs prev, ps, user'))"

fun is_bash :: "staged \<Rightarrow> bool" where
  "is_bash (BashOp op args) = True"
| "is_bash _ = False"

fun bash_argv :: "staged \<Rightarrow> string list res" where
  "bash_argv (BashOp op args) = op_bash op args"
| "bash_argv _ = raise PyValueError ''not a bash item''"

text \<open>The fusion loop: maximal runs of one runtime, in order.\<close>

function fuse_phases ::
    "phase list \<Rightarrow> pyval list \<Rightarrow> staged list \<Rightarrow> (phase list \<times> pyval list) res" where
  "fuse_phases phases user [] = Inr (phases, user)"
| "fuse_phases phases user (s # ss) =
     (if is_bash s then
        bindR (mapR bash_argv (takeWhile is_bash (s # ss))) (\<lambda>argvs.
        if phases = [] then raise QueryError ''a bash segment cannot start a bounded query''
        else fuse_phases (phases @ [BashPhase argvs]) user (dropWhile is_bash (s # ss)))
      else
        bindR (fuse_duck_run (takeWhile (\<lambda>x. \<not> is_bash x) (s # ss)) user (phases \<noteq> []))
          (\<lambda>(sql, ps, user').
          fuse_phases (phases @ [DuckPhase sql ps]) user' (dropWhile (\<lambda>x. \<not> is_bash x) (s # ss))))"
  by pat_completeness auto
termination
  by (relation "measure (\<lambda>(p, u, ss). length ss)")
    (auto simp: le_imp_less_Suc length_dropWhile_le)

definition compile ::
    "policy \<Rightarrow> registry \<Rightarrow> op_ctx \<Rightarrow> string list \<Rightarrow> pyval list \<Rightarrow> phase list res" where
  "compile pol reg ctx segs user =
     bindR (mapR (stage_segment pol reg ctx) segs) (\<lambda>staged.
     bindR (fuse_phases [] user staged) (\<lambda>(phases, left).
     if left \<noteq> [] then raise QueryError ''unused query params'' else Inr phases))"

text \<open>\<open>query\<close> up to its call of the store: a pure SQL text, or a plan.\<close>

datatype plan = PureSql string "pyval list" | Phases "phase list"

definition plan_query ::
    "policy \<Rightarrow> registry \<Rightarrow> op_ctx \<Rightarrow> string option \<Rightarrow> pyval list \<Rightarrow> plan res" where
  "plan_query pol reg ctx sql params =
     (let q = py_strip (case sql of None \<Rightarrow> [] | Some s \<Rightarrow> s) in
      if q = [] then raise QueryError ''empty query''
      else bindR (split_pipeline q) (\<lambda>segs.
        if length segs = 1 \<and> classify reg (segs ! 0) = None then Inr (PureSql (segs ! 0) params)
        else bindR (compile pol reg ctx segs params) (\<lambda>ph. Inr (Phases ph))))"

section \<open>Authorization\<close>

lemma stage_segment_permitted:
  assumes "stage_segment pol reg ctx seg = Inr s" and "classify reg seg = Some (op, rest)"
  shows "permitted pol op" and "op_bounded op" and "op_name op \<noteq> ''ingest''"
  using assms by (auto simp: stage_segment_def pol.bind_checked split: if_splits)

lemma compile_staged:
  "compile pol reg ctx segs user = Inr ph \<longleftrightarrow>
     (\<exists>staged. mapR (stage_segment pol reg ctx) segs = Inr staged \<and>
        fuse_phases [] user staged = Inr (ph, []))"
  by (auto simp: compile_def bindR_Inr_iff split: if_splits)

lemma compile_permitted:
  assumes "compile pol reg ctx segs user = Inr ph" and "seg \<in> set segs"
    and "classify reg seg = Some (op, rest)"
  shows "permitted pol op" and "op_bounded op" and "op_name op \<noteq> ''ingest''"
proof -
  obtain s where "stage_segment pol reg ctx seg = Inr s"
    using assms(1,2) by (auto simp: compile_staged dest: mapR_defined)
  from stage_segment_permitted [OF this assms(3)]
  show "permitted pol op" and "op_bounded op" and "op_name op \<noteq> ''ingest''" by auto
qed

text \<open>The check comes before the arguments are parsed or a service is called.\<close>

lemma stage_segment_denied:
  assumes "valid_policy pol" and "classify reg seg = Some (op, rest)" and "\<not> permitted pol op"
  shows "\<exists>m. stage_segment pol reg ctx seg = Inl (Exn PermissionDenied m)"
proof -
  obtain m where "policy_check pol op = Inl (Exn PermissionDenied m)"
    using pol.check_total [OF assms(1,3)] by blast
  with assms(2) show ?thesis by (simp add: stage_segment_def)
qed

lemma stage_segment_kind:
  assumes "stage_segment pol reg ctx seg = Inr s"
  shows "(\<exists>op args. s = DuckOp op args \<and> op_duck_arity op \<noteq> None) \<or>
     (s = DuckSql seg \<and> classify reg seg = None \<and> CHR '';'' \<notin> set seg) \<or>
     (\<exists>op args. s = BashOp op args \<and> op_duck_arity op = None \<and> op_has_bash op)"
  using assms by (auto simp: stage_segment_def bindR_Inr_iff split: option.splits if_splits)

section \<open>The shape of a plan\<close>

fun is_duck :: "phase \<Rightarrow> bool" where
  "is_duck (DuckPhase sql ps) = True"
| "is_duck (BashPhase argvs) = False"

text \<open>Neighbours run on different runtimes and the first phase runs on duck.\<close>

fun alternating :: "bool \<Rightarrow> phase list \<Rightarrow> bool" where
  "alternating d [] = True"
| "alternating d (p # ps) = (is_duck p = d \<and> alternating (\<not> d) ps)"

lemma alternating_snoc:
  "alternating d (ps @ [p]) \<longleftrightarrow> alternating d ps \<and> is_duck p = (if even (length ps) then d else \<not> d)"
  by (induction ps arbitrary: d) auto

lemma fuse_phases_alternating:
  assumes "fuse_phases phases user ss = Inr (ph, left)" and "alternating True phases"
    and "ss \<noteq> [] \<longrightarrow> phases = [] \<or> is_bash (hd ss) = odd (length phases)"
  shows "alternating True ph"
  using assms
proof (induction phases user ss rule: fuse_phases.induct)
  case (2 phases user s ss)
  show ?case
  proof (cases "is_bash s")
    case True
    let ?rest = "dropWhile is_bash (s # ss)"
    obtain argvs where a: "mapR bash_argv (takeWhile is_bash (s # ss)) = Inr argvs"
      and ne: "phases \<noteq> []"
      and r: "fuse_phases (phases @ [BashPhase argvs]) user ?rest = Inr (ph, left)"
      using "2.prems"(1) True by (auto simp: bindR_Inr_iff split: if_splits)
    have alt: "alternating True (phases @ [BashPhase argvs])"
      using "2.prems" ne True by (auto simp: alternating_snoc)
    have "?rest \<noteq> [] \<longrightarrow> \<not> is_bash (hd ?rest)" using hd_dropWhile [of is_bash "s # ss"] by blast
    then have "?rest \<noteq> [] \<longrightarrow> is_bash (hd ?rest) = odd (length (phases @ [BashPhase argvs]))"
      using "2.prems"(3) ne True by auto
    with "2.IH"(1) [OF True a ne r alt] show ?thesis by blast
  next
    case False
    let ?rest = "dropWhile (\<lambda>x. \<not> is_bash x) (s # ss)"
    obtain sql ps u where
      a: "fuse_duck_run (takeWhile (\<lambda>x. \<not> is_bash x) (s # ss)) user (phases \<noteq> []) = Inr (sql, ps, u)"
      and r: "fuse_phases (phases @ [DuckPhase sql ps]) u ?rest = Inr (ph, left)"
      using "2.prems"(1) False by (auto simp: bindR_Inr_iff)
    have even: "even (length phases)" using "2.prems"(3) False by auto
    then have alt: "alternating True (phases @ [DuckPhase sql ps])"
      using "2.prems"(2) by (simp add: alternating_snoc)
    have "?rest \<noteq> [] \<longrightarrow> is_bash (hd ?rest)" using hd_dropWhile [of "\<lambda>x. \<not> is_bash x" "s # ss"] by blast
    then have "?rest \<noteq> [] \<longrightarrow> is_bash (hd ?rest) = odd (length (phases @ [DuckPhase sql ps]))"
      using even by auto
    with "2.IH"(2) [OF False a _ _ r alt] show ?thesis by simp
  qed
qed simp

lemma fuse_phases_grows:
  "fuse_phases phases user ss = Inr (ph, left) \<Longrightarrow> length phases \<le> length ph \<and> (ss \<noteq> [] \<longrightarrow> ph \<noteq> [])"
proof (induction phases user ss rule: fuse_phases.induct)
  case (2 phases user s ss)
  then show ?case by (fastforce simp: bindR_Inr_iff split: if_splits)
qed simp

lemma compile_shape:
  assumes "compile pol reg ctx segs user = Inr ph" and "segs \<noteq> []"
  shows "alternating True ph" and "ph \<noteq> []"
proof -
  obtain st where st: "mapR (stage_segment pol reg ctx) segs = Inr st"
    and f: "fuse_phases [] user st = Inr (ph, [])"
    using assms(1) by (auto simp: compile_staged)
  show "alternating True ph" by (rule fuse_phases_alternating [OF f]) auto
  have "st \<noteq> []" using mapR_length [OF st] assms(2) by auto
  then show "ph \<noteq> []" using fuse_phases_grows [OF f] by blast
qed

section \<open>Parameters\<close>

text \<open>
  An operator whose lowering, called either way, keeps the contract of \<open>duck_cell\<close>; a registry
  of such operators.
\<close>

definition sound_operator :: "operator \<Rightarrow> bool" where
  "sound_operator op \<longleftrightarrow>
     duck_cell (op_prepare op) (\<lambda>p. call_duck_source op) \<and> duck_cell (op_prepare op) (call_duck_middle op)"

definition sound_registry :: "registry \<Rightarrow> bool" where
  "sound_registry reg \<longleftrightarrow> (\<forall>(n, op) \<in> set reg. sound_operator op)"

lemma builtin_calls:
  "op_prepare op_search = search_prepare" "op_prepare op_scan = scan_prepare"
  "op_prepare op_grep = (\<lambda>a ctx. Inr a)"
  "call_duck_source op_search = search_duck" "call_duck_source op_scan = scan_duck"
  "call_duck_middle op_grep = grep_duck"
  "call_duck_middle op_search = (\<lambda>p a. raise PyTypeError ''arity'')"
  "call_duck_middle op_scan = (\<lambda>p a. raise PyTypeError ''arity'')"
  "call_duck_source op_grep = (\<lambda>a. raise PyTypeError ''arity'')"
  by (simp_all add: fun_eq_iff call_duck_source_def call_duck_middle_def builtin_defs)

lemma raising_cell: "duck_cell prep (\<lambda>p a. raise c m)"
  by unfold_locales auto

lemma sound_no_duck: "op_duck_arity op = None \<Longrightarrow> sound_operator op"
  by (simp add: sound_operator_def call_duck_source_def [abs_def] call_duck_middle_def [abs_def]
      raising_cell)

lemma sound_builtin: "op \<in> set builtin_operators \<Longrightarrow> sound_operator op"
proof -
  have "sound_operator op_search" "sound_operator op_scan" "sound_operator op_grep"
    using search.duck_cell_axioms scan.duck_cell_axioms grep.duck_cell_axioms
    by (simp_all add: sound_operator_def builtin_calls raising_cell)
  moreover have "sound_operator op_sh" "sound_operator op_jq" "sound_operator op_watch"
    "sound_operator op_ingest"
    by (rule sound_no_duck, simp add: builtin_defs)+
  ultimately show "op \<in> set builtin_operators \<Longrightarrow> sound_operator op"
    by (auto simp: builtin_operators_def)
qed

lemma build_registry_sound:
  assumes "build_registry users = Inr reg" and "list_all sound_operator users"
  shows "sound_registry reg"
proof -
  have "reg = builtin_registry @ map (\<lambda>op. (py_lower (op_name op), op)) users"
    using assms(1) by (auto simp: build_registry_def register_builtins dest: register_all_append)
  then show ?thesis
    using assms(2) sound_builtin by (auto simp: sound_registry_def builtin_registry_def list_all_iff)
qed

lemma classify_sound: "sound_registry reg \<Longrightarrow> classify reg seg = Some (op, rest) \<Longrightarrow> sound_operator op"
  by (auto simp: classify_def resolve_op_def sound_registry_def split: option.splits prod.splits
      dest!: map_of_SomeD)

text \<open>What staging leaves behind in a sound registry.\<close>

fun item_ok :: "op_ctx \<Rightarrow> staged \<Rightarrow> bool" where
  "item_ok ctx (DuckOp op args) = (sound_operator op \<and> (\<exists>a. op_prepare op a ctx = Inr args))"
| "item_ok ctx (DuckSql seg) = closed_text seg"
| "item_ok ctx (BashOp op args) = True"

fun sql_need :: "staged \<Rightarrow> nat" where
  "sql_need (DuckSql seg) = count_placeholders seg"
| "sql_need _ = 0"

lemma stage_segment_ok:
  assumes "sound_registry reg" and "stage_segment pol reg ctx seg = Inr s" and "closed_text seg"
  shows "item_ok ctx s"
    and "sql_need s = (if classify reg seg = None then count_placeholders seg else 0)"
proof -
  show "item_ok ctx s"
    using assms classify_sound [OF assms(1), of seg]
    by (auto simp: stage_segment_def bindR_Inr_iff split: option.splits if_splits) blast+
  show "sql_need s = (if classify reg seg = None then count_placeholders seg else 0)"
    using assms(2) by (auto simp: stage_segment_def bindR_Inr_iff split: option.splits if_splits)
qed

lemma fuse_item_ok:
  assumes "ctx_ok ctx" and "item_ok ctx item" and "case prev of None \<Rightarrow> True | Some p \<Rightarrow> quiet p"
    and "fuse_item prev user item = Inr (body, ps, user')"
  shows "sql_ok body (length ps)" and "user' = drop (sql_need item) user" and "sql_need item \<le> length user"
proof -
  show "sql_ok body (length ps)"
  proof (cases item)
    case (DuckOp op args)
    then obtain a where a: "op_prepare op a ctx = Inr args"
      and src: "duck_cell (op_prepare op) (\<lambda>p. call_duck_source op)"
      and mid: "duck_cell (op_prepare op) (call_duck_middle op)"
      using assms(2) by (auto simp: sound_operator_def)
    have q: "quiet ''_in''" by (simp add: is_quote_def)
    note low = duck_cell.lower_ok [OF src assms(1) q a] duck_cell.lower_ok [OF mid assms(1) q a]
    show ?thesis
      using assms(3,4) DuckOp
      by (auto simp: bindR_Inr_iff split: if_splits option.splits intro!: in_stage_ok dest: low)
  next
    case (DuckSql seg)
    then show ?thesis
      using assms by (auto simp: Let_def sql_ok_def min_def split: if_splits option.splits
          dest: in_stage_ok [of _ seg "count_placeholders seg", unfolded sql_ok_def])
  qed (use assms in simp)
  show "user' = drop (sql_need item) user" and "sql_need item \<le> length user"
    using assms(4) by (cases item; auto simp: bindR_Inr_iff Let_def split: if_splits option.splits)+
qed

definition ctes_ok :: "ctes \<Rightarrow> nat \<Rightarrow> bool" where
  "ctes_ok cs n \<longleftrightarrow> (\<exists>ks. list_all2 (\<lambda>(m, b) k. quiet m \<and> sql_ok b k) cs ks \<and> sum_list ks = n)"

lemma ctes_ok_Nil: "ctes_ok [] 0"
  by (simp add: ctes_ok_def)

lemma ctes_ok_snoc: "ctes_ok cs n \<Longrightarrow> quiet m \<Longrightarrow> sql_ok b k \<Longrightarrow> ctes_ok (cs @ [(m, b)]) (n + k)"
  unfolding ctes_ok_def
  by (elim exE conjE, rule_tac x = "ks @ [k]" in exI) (simp add: list_all2_appendI)

lemma fuse_items_ok:
  assumes "ctx_ok ctx" and "list_all (item_ok ctx) items"
    and "case prev of None \<Rightarrow> True | Some p \<Rightarrow> quiet p" and "ctes_ok cs (length ps)"
    and "fuse_items cs ps prev user items = Inr (cs', ps', prev', user')"
  shows "ctes_ok cs' (length ps') \<and> (case prev' of None \<Rightarrow> True | Some p \<Rightarrow> quiet p) \<and>
     user' = drop (sum_list (map sql_need items)) user \<and> sum_list (map sql_need items) \<le> length user"
  using assms
proof (induction items arbitrary: cs ps prev user)
  case (Cons item items)
  let ?name = "''_s'' @ show_nat (length cs)"
  obtain body qs u where f: "fuse_item prev user item = Inr (body, qs, u)"
    and r: "fuse_items (cs @ [(?name, body)]) (ps @ qs) (Some ?name) u items = Inr (cs', ps', prev', user')"
    using Cons.prems(5) by (auto simp: bindR_Inr_iff Let_def)
  have ok: "item_ok ctx item" using Cons.prems(2) by simp
  note item = fuse_item_ok [OF Cons.prems(1) ok Cons.prems(3) f]
  have q: "quiet ?name" by (simp add: is_quote_def)
  have "ctes_ok (cs @ [(?name, body)]) (length (ps @ qs))"
    using ctes_ok_snoc [OF Cons.prems(4) q item(1)] by simp
  with Cons.IH [OF Cons.prems(1) _ _ _ r] Cons.prems(2) q item(2,3)
  show ?case by (auto simp: add.commute)
qed simp

lemma with_chain_ok:
  assumes "ctes_ok cs n" and "case prev of None \<Rightarrow> True | Some p \<Rightarrow> quiet p"
  shows "sql_ok (with_chain cs prev) n"
proof -
  obtain ks where ks: "list_all2 (\<lambda>(m, b) k. quiet m \<and> sql_ok b k) cs ks" and n: "sum_list ks = n"
    using assms(1) by (auto simp: ctes_ok_def)
  have "sql_ok (join_with '', '' (map (\<lambda>(n, b). n @ '' AS ('' @ b @ '')'') cs)) (sum_list ks)"
    using ks
  proof (induction rule: list_all2_induct)
    case Nil
    then show ?case by (simp add: sql_ok_def lex_Nil)
  next
    case (Cons c cs k ks)
    obtain m b where c: "c = (m, b)" by fastforce
    have one: "sql_ok (m @ '' AS ('' @ b @ '')'') k"
      using Cons(1) c by (auto simp: sql_ok_def closed_text_append count_placeholders_append lex_quiet
          lex_Cons lex_Nil is_quote_def)
    show ?case
    proof (cases cs)
      case Nil
      then show ?thesis using one Cons(2) by (simp add: c)
    next
      case (Cons d ds)
      have sep: "sql_ok '', '' 0" by (rule sql_ok_quiet) (simp add: is_quote_def)
      from sql_ok_append [OF one sql_ok_append [OF sep Cons.IH]] Cons
      show ?thesis by (simp add: c join_with_Cons)
    qed
  qed
  moreover have "quiet (case prev of None \<Rightarrow> ''None'' | Some p \<Rightarrow> p)"
    using assms(2) by (auto simp: is_quote_def split: option.splits)
  ultimately show ?thesis
    using n by (simp add: with_chain_def sql_ok_def lex_Cons closed_text_append count_placeholders_append
        lex_quiet is_quote_def)
qed

fun phase_ok :: "phase \<Rightarrow> bool" where
  "phase_ok (DuckPhase sql ps) = sql_ok sql (length ps)"
| "phase_ok (BashPhase argvs) = True"

lemma fuse_duck_run_ok:
  assumes "ctx_ok ctx" and "list_all (item_ok ctx) run"
    and "fuse_duck_run run user br = Inr (sql, ps, user')"
  shows "phase_ok (DuckPhase sql ps)" and "user' = drop (sum_list (map sql_need run)) user"
    and "sum_list (map sql_need run) \<le> length user"
proof -
  let ?prev = "if br then Some ''_bridge'' else None"
  obtain cs prev' where f: "fuse_items [] [] ?prev user run = Inr (cs, ps, prev', user')"
    and sql: "sql = with_chain cs prev'"
    using assms(3) by (auto simp: fuse_duck_run_def bindR_Inr_iff)
  have q: "case ?prev of None \<Rightarrow> True | Some p \<Rightarrow> quiet p" by (simp add: is_quote_def)
  note all = fuse_items_ok [OF assms(1,2) q _ f] 
  then show "phase_ok (DuckPhase sql ps)" and "user' = drop (sum_list (map sql_need run)) user"
    and "sum_list (map sql_need run) \<le> length user"
    using ctes_ok_Nil sql by (auto intro: with_chain_ok)
qed

lemma bash_no_need: "list_all is_bash ss \<Longrightarrow> sum_list (map sql_need ss) = 0"
  by (induction ss) (auto elim: is_bash.elims)

lemma sum_need_split:
  "sum_list (map sql_need ss) =
     sum_list (map sql_need (takeWhile P ss)) + sum_list (map sql_need (dropWhile P ss))"
  by (metis map_append sum_list_append takeWhile_dropWhile_id)

lemma drop_twice:
  "u = drop m user \<Longrightarrow> m \<le> length user \<Longrightarrow> n \<le> length u \<Longrightarrow>
     drop n u = drop (m + n) user \<and> m + n \<le> length user"
  by (auto simp: add.commute)

lemma fuse_phases_ok:
  assumes "ctx_ok ctx" and "fuse_phases phases user ss = Inr (ph, left)"
    and "list_all phase_ok phases" and "list_all (item_ok ctx) ss"
  shows "list_all phase_ok ph \<and> left = drop (sum_list (map sql_need ss)) user \<and>
     sum_list (map sql_need ss) \<le> length user"
  using assms(2-)
proof (induction phases user ss rule: fuse_phases.induct)
  case (2 phases user s ss)
  show ?case
  proof (cases "is_bash s")
    case True
    let ?run = "takeWhile is_bash (s # ss)" and ?rest = "dropWhile is_bash (s # ss)"
    obtain argvs where a: "mapR bash_argv ?run = Inr argvs" and ne: "phases \<noteq> []"
      and r: "fuse_phases (phases @ [BashPhase argvs]) user ?rest = Inr (ph, left)"
      using "2.prems"(1) True by (auto simp: bindR_Inr_iff split: if_splits)
    have "sum_list (map sql_need ?run) = 0"
      by (rule bash_no_need) (auto simp: list_all_iff dest: set_takeWhileD)
    then have sum: "sum_list (map sql_need (s # ss)) = sum_list (map sql_need ?rest)"
      using sum_need_split [of "s # ss" is_bash] by linarith
    have "list_all (item_ok ctx) ?rest"
      using "2.prems"(3) by (metis list_all_append takeWhile_dropWhile_id)
    moreover have "list_all phase_ok (phases @ [BashPhase argvs])" using "2.prems"(2) by simp
    ultimately show ?thesis
      unfolding sum using "2.IH"(1) [OF True a ne r] by blast
  next
    case False
    let ?run = "takeWhile (\<lambda>x. \<not> is_bash x) (s # ss)" and ?rest = "dropWhile (\<lambda>x. \<not> is_bash x) (s # ss)"
    obtain sql ps u where a: "fuse_duck_run ?run user (phases \<noteq> []) = Inr (sql, ps, u)"
      and r: "fuse_phases (phases @ [DuckPhase sql ps]) u ?rest = Inr (ph, left)"
      using "2.prems"(1) False by (auto simp: bindR_Inr_iff)
    have ok: "list_all (item_ok ctx) ?run" "list_all (item_ok ctx) ?rest"
      using "2.prems"(3) by (metis list_all_append takeWhile_dropWhile_id)+
    note run = fuse_duck_run_ok [OF assms(1) ok(1) a]
    have "list_all phase_ok (phases @ [DuckPhase sql ps])" using run(1) "2.prems"(2) by simp
    then have rec: "list_all phase_ok ph" "left = drop (sum_list (map sql_need ?rest)) u"
        "sum_list (map sql_need ?rest) \<le> length u"
      using "2.IH"(2) [OF False a refl refl r _ ok(2)] by blast+
    have sum: "sum_list (map sql_need (s # ss)) =
        sum_list (map sql_need ?run) + sum_list (map sql_need ?rest)"
      by (rule sum_need_split)
    show ?thesis unfolding sum rec(2) using rec(1) drop_twice [OF run(2,3) rec(3)] by blast
  qed
qed simp

definition user_need :: "registry \<Rightarrow> string list \<Rightarrow> nat" where
  "user_need reg segs =
     sum_list (map (\<lambda>seg. if classify reg seg = None then count_placeholders seg else 0) segs)"

lemma mapR_stage_ok:
  assumes "sound_registry reg" and "list_all closed_text segs"
    and "mapR (stage_segment pol reg ctx) segs = Inr st"
  shows "list_all (item_ok ctx) st \<and> sum_list (map sql_need st) = user_need reg segs"
  using assms(2,3)
proof (induction segs arbitrary: st)
  case (Cons seg segs)
  then obtain s ss where "stage_segment pol reg ctx seg = Inr s" "st = s # ss"
    "mapR (stage_segment pol reg ctx) segs = Inr ss"
    by (auto simp: bindR_Inr_iff)
  then show ?case
    using Cons stage_segment_ok [OF assms(1), of pol ctx seg s] by (simp add: user_need_def)
qed (simp add: user_need_def)

lemma compile_params:
  assumes "sound_registry reg" and "ctx_ok ctx" and "list_all closed_text segs"
    and "compile pol reg ctx segs user = Inr ph"
  shows "list_all phase_ok ph" and "length user = user_need reg segs"
proof -
  obtain st where st: "mapR (stage_segment pol reg ctx) segs = Inr st"
    and f: "fuse_phases [] user st = Inr (ph, [])"
    using assms(4) by (auto simp: compile_staged)
  note ok = mapR_stage_ok [OF assms(1,3) st]
  have "list_all phase_ok ph \<and> [] = drop (sum_list (map sql_need st)) user \<and>
     sum_list (map sql_need st) \<le> length user"
    by (rule fuse_phases_ok [OF assms(2) f]) (use ok in auto)
  with ok show "list_all phase_ok ph" and "length user = user_need reg segs" by auto
qed

end
