(* ===== verification/Sample_Data.thy ===== *)
theory Sample_Data
  imports Builtins
begin

text \<open>
  One small concrete database, at which the properties of the other theories are instantiated:
  a table of documents with one searchable column, an embedder, a read context.
\<close>

definition sample_table :: tablespec where
  "sample_table = \<lparr>ts_name = ''docs'',
     ts_columns = [\<lparr>c_name = ''id'', c_type = ''str'', c_sql_type = ''VARCHAR''\<rparr>,
                   \<lparr>c_name = ''body'', c_type = ''str'', c_sql_type = ''VARCHAR''\<rparr>],
     ts_primary = ''id'', ts_searchable = [''body'']\<rparr>"

definition sample_schema :: schema where
  "sample_schema = \<lparr>sc_tables = [sample_table]\<rparr>"

definition sample_cfg :: store_cfg where
  "sample_cfg = \<lparr>cfg_schema = sample_schema, cfg_dim = Some 2, cfg_backend = ''vss'',
     cfg_lance_dir = ''/data/lance''\<rparr>"

definition sample_vec :: "string \<Rightarrow> real list" where
  "sample_vec s = [real (length s), 1]"

definition sample_embedder :: embedder where
  "sample_embedder = \<lparr>e_dim = 2, e_embed = (\<lambda>ts. Inr (map sample_vec ts)),
     e_lcut = split_on (CHR '' '')\<rparr>"

definition sample_ctx :: op_ctx where
  "sample_ctx = \<lparr>ctx_cfg = sample_cfg, ctx_embedding = Some sample_embedder,
     ctx_ds_start = None, ctx_ds_end = Some ''20260102''\<rparr>"

lemma sample_pointwise: "pointwise sample_embedder sample_vec"
  by (simp add: pointwise_def sample_embedder_def sample_vec_def)

lemma sample_wf: "wf_schema sample_schema"
  by code_simp

lemma sample_ctx_ok: "ctx_ok sample_ctx"
  by code_simp

end
