(* ===== verification/Pipeline_Props.thy ===== *)
theory Pipeline_Props
  imports Pipeline_Compile Sample_Data
begin

text \<open>
  What the pipeline compiler promises about a whole query: nothing runs unauthorized, the
  phases alternate between the runtimes, every generated statement binds exactly its
  parameters, SQL stays reachable whatever operators are registered.
\<close>

section \<open>Helpers\<close>

lemma last_cons_hd: "ss \<noteq> [] \<Longrightarrow> last (cons_hd c ss) = (if tl ss = [] then c # last ss else last ss)"
  by (cases ss) (auto simp: cons_hd_def)

lemma segs_of_last:
  "qrun q s = qrun (if tl (segs_of q s) = [] then q else None) (last (segs_of q s))"
proof (induction q s rule: segs_of.induct)
  case (2 k c s)
  then show ?case
    by (cases "tl (segs_of (qstep (Some k) c) s) = []") (simp_all add: last_cons_hd)
next
  case (3 c s)
  show ?case
  proof (cases "c = CHR ''|''")
    case False
    then show ?thesis using "3.IH"(4) [OF False]
      by (cases "tl (segs_of (qstep None c) s) = []") (simp_all add: last_cons_hd)
  next
    case True
    show ?thesis
    proof (cases s)
      case Nil
      then show ?thesis using True by simp
    next
      case (Cons d s')
      show ?thesis
      proof (cases "d = CHR ''|''")
        case True2: True
        then show ?thesis using "3.IH"(2) [OF True Cons True2] True Cons
          by (cases "tl (segs_of None s') = []") (simp_all add: last_cons_hd)
      next
        case False
        then show ?thesis using "3.IH"(3) [OF True Cons False] True Cons
          by (cases "tl (segs_of None s) = []") (auto simp: last_ConsR)
      qed
    qed
  qed
qed simp

lemma split_pipeline_closed:
  assumes "split_pipeline inp = Inr segs" and "closed_text inp"
  shows "list_all closed_text segs"
proof -
  have segs: "segs = map py_strip (segs_of None inp)" using assms(1) by (simp add: split_pipeline_Inr)
  have "closed_text (last (segs_of None inp))"
    using segs_of_last [of None inp] assms(2) by (simp add: closed_text_def)
  then have "closed_text (last segs)" by (simp add: segs last_map)
  moreover have "segs = butlast segs @ [last segs]" using segs by simp
  ultimately show ?thesis
    using split_pipeline_segments(2) [OF assms(1)] by (metis list.pred_inject list_all_append)
qed

text \<open>Pipelines without bash items are one duck phase.\<close>

lemma fuse_phases_duck_only:
  assumes "fuse_phases [] user ss = Inr (ph, left)" and "list_all (\<lambda>s. \<not> is_bash s) ss" and "ss \<noteq> []"
  shows "\<exists>sql ps. ph = [DuckPhase sql ps] \<and> fuse_duck_run ss user False = Inr (sql, ps, left)"
proof -
  obtain s rest where ss: "ss = s # rest" using assms(3) by (cases ss) auto
  have run: "takeWhile (\<lambda>x. \<not> is_bash x) rest = rest" "dropWhile (\<lambda>x. \<not> is_bash x) rest = []"
    using assms(2) by (auto simp: ss list_all_iff takeWhile_eq_all_conv)
  have "fuse_phases [] user ss = bindR (fuse_duck_run ss user False) (\<lambda>(sql, ps, u).
      fuse_phases [DuckPhase sql ps] u [])"
    using assms(2) by (simp add: ss run)
  with assms(1) have "bindR (fuse_duck_run ss user False) (\<lambda>(sql, ps, u).
      fuse_phases [DuckPhase sql ps] u []) = Inr (ph, left)" by metis
  then show ?thesis by (auto simp: bindR_Inr_iff)
qed

text \<open>SQL segments alone: the parameters are the user's, in order.\<close>

lemma fuse_items_sql:
  "fuse_items cs ps prev user (map DuckSql segs) = Inr (cs', ps', prev', user') \<Longrightarrow>
     ps' = ps @ map ParamVal (take (length user - length user') user)
     \<and> user' = drop (length user - length user') user"
proof (induction segs arbitrary: cs ps prev user)
  case (Cons seg segs)
  let ?n = "count_placeholders seg"
  obtain body qs u where f: "fuse_item prev user (DuckSql seg) = Inr (body, qs, u)"
    and r: "fuse_items (cs @ [(''_s'' @ show_nat (length cs), body)]) (ps @ qs)
      (Some (''_s'' @ show_nat (length cs))) u (map DuckSql segs) = Inr (cs', ps', prev', user')"
    using Cons.prems by (auto simp: bindR_Inr_iff Let_def)
  have u: "u = drop ?n user" "?n \<le> length user" "qs = map ParamVal (take ?n user)"
    using f by (auto simp: Let_def split: if_splits)
  note ih = Cons.IH [OF r]
  have "length user' \<le> length u" using arg_cong [OF conjunct2 [OF ih], of length] by simp
  then have "length user - length user' = ?n + (length u - length user')" using u by simp
  with ih u show ?case
    by (auto simp: take_add add.commute simp flip: map_append)
qed simp

lemma all_sql_staged:
  assumes "list_all (\<lambda>s. classify reg s = None) segs" and "mapR (stage_segment pol reg ctx) segs = Inr st"
  shows "st = map DuckSql segs"
  using assms
proof (induction segs arbitrary: st)
  case (Cons seg segs)
  then show ?case by (auto simp: bindR_Inr_iff stage_segment_def split: if_splits)
qed simp

section \<open>Sample queries\<close>

definition sample_query :: string where
  "sample_query = ''scan docs | grep x --field id | select id from _in where id = ?''"

definition sample_segments :: "string list" where
  "sample_segments = [''scan docs'', ''grep x --field id'', ''select id from _in where id = ?'']"

lemma sample_split: "split_pipeline (py_strip sample_query) = Inr sample_segments"
  by code_simp

lemma sample_plan:
  "\<exists>ph. plan_query default_policy builtin_registry sample_ctx (Some sample_query) [PInt 1] = Inr (Phases ph)"
proof -
  have "case plan_query default_policy builtin_registry sample_ctx (Some sample_query) [PInt 1] of
      Inr (Phases ph) \<Rightarrow> True | _ \<Rightarrow> False"
    by code_simp
  then show ?thesis by (auto split: sum.splits plan.splits)
qed

lemma build_sample: "build_registry [] = Inr builtin_registry"
  by (simp add: build_registry_def register_builtins)

lemma classify_sample:
  "classify builtin_registry ''scan docs'' = Some (op_scan, '' docs'')"
  "classify builtin_registry ''sh ls'' = Some (op_sh, '' ls'')"
proof -
  have "lead_match ''scan docs'' = Some (''scan'', '' docs'')" "lead_match ''sh ls'' = Some (''sh'', '' ls'')"
    by code_simp+
  then show "classify builtin_registry ''scan docs'' = Some (op_scan, '' docs'')"
    "classify builtin_registry ''sh ls'' = Some (op_sh, '' ls'')"
    by (simp_all add: classify_def resolve_op_def builtin_registry_def builtin_operators_def)
qed

lemma sample_denied: "\<not> permitted default_policy op_sh"
  by (simp add: permitted_def default_policy_def MODE_CAPS_def)

section \<open>Properties\<close>

text \<open>C10: whatever plan a query compiles to, every segment that names an operator is permitted
  by the policy, has a bounded stream and is not the streaming sink; a pure SQL text names no
  operator at all.\<close>

theorem planned_operators_permitted:
  assumes "plan_query pol reg ctx (Some q) params = Inr p"
    and "split_pipeline (py_strip q) = Inr segs"
  shows "\<forall>seg \<in> set segs. \<forall>op rest. classify reg seg = Some (op, rest) \<longrightarrow>
     permitted pol op \<and> op_bounded op \<and> op_name op \<noteq> ''ingest''"
proof (cases "length segs = 1 \<and> classify reg (segs ! 0) = None")
  case True
  then show ?thesis by (cases segs) auto
next
  case False
  then obtain ph where "compile pol reg ctx segs params = Inr ph"
    using assms by (auto simp: plan_query_def Let_def bindR_Inr_iff split: if_splits)
  from compile_permitted [OF this] show ?thesis by blast
qed

theorem planned_operators_permitted_witness:
  "permitted default_policy op_scan \<and> op_bounded op_scan"
proof -
  obtain ph where p: "plan_query default_policy builtin_registry sample_ctx (Some sample_query) [PInt 1]
      = Inr (Phases ph)" using sample_plan by blast
  from planned_operators_permitted [OF p sample_split] classify_sample(1)
  show ?thesis by (auto simp: sample_segments_def)
qed

text \<open>a segment whose operator the policy does not permit stops the compilation with
  \<open>PermissionDenied\<close>, before its arguments are read and before anything runs, when the
  segments before it are accepted.\<close>

lemma denied_segment_refused:
  assumes "valid_policy pol" and "split_pipeline (py_strip q) = Inr (pre @ seg # post)"
    and "mapR (stage_segment pol reg ctx) pre = Inr st" and "classify reg seg = Some (op, rest)"
    and "\<not> permitted pol op"
  shows "\<exists>m. plan_query pol reg ctx (Some q) params = Inl (Exn PermissionDenied m)"
proof -
  obtain m where m: "stage_segment pol reg ctx seg = Inl (Exn PermissionDenied m)"
    using stage_segment_denied [OF assms(1,4,5)] by blast
  have "mapR (stage_segment pol reg ctx) (pre @ seg # post) = Inl (Exn PermissionDenied m)"
    using assms(3) m by (induction pre arbitrary: st) (auto simp: bindR_Inr_iff)
  then have c: "compile pol reg ctx (pre @ seg # post) params = Inl (Exn PermissionDenied m)"
    by (simp add: compile_def)
  have "py_strip q \<noteq> []" using assms(2) by (auto simp: split_pipeline_def)
  moreover have "\<not> (length (pre @ seg # post) = 1 \<and> classify reg ((pre @ seg # post) ! 0) = None)"
    using assms(4) by (cases pre) auto
  ultimately have "plan_query pol reg ctx (Some q) params = Inl (Exn PermissionDenied m)"
    using assms(2) c by (simp add: plan_query_def Let_def)
  then show ?thesis by blast
qed

text \<open>C31: a plan is a non-empty list of phases that starts on duck and switches the runtime at
  every seam.\<close>

theorem plan_alternates:
  assumes "plan_query pol reg ctx sql params = Inr (Phases ph)"
  shows "ph \<noteq> [] \<and> alternating True ph"
proof -
  obtain segs q where "split_pipeline q = Inr segs" and c: "compile pol reg ctx segs params = Inr ph"
    using assms by (auto simp: plan_query_def Let_def bindR_Inr_iff split: if_splits)
  then have "segs \<noteq> []" using split_pipeline_segments(1) by blast
  from compile_shape [OF c this] show ?thesis by blast
qed

theorem plan_alternates_witness:
  "\<exists>ph. plan_query default_policy builtin_registry sample_ctx (Some sample_query) [PInt 1]
     = Inr (Phases ph) \<and> ph \<noteq> [] \<and> alternating True ph"
  using sample_plan plan_alternates by blast



text \<open>A pipeline of SQL segments only compiles to one statement that binds the user's
  parameters unchanged and in their order.\<close>

lemma sql_pipeline_one_phase:
  assumes "compile pol reg ctx segs params = Inr ph" and "segs \<noteq> []"
    and "\<forall>seg \<in> set segs. classify reg seg = None"
  shows "\<exists>sql. ph = [DuckPhase sql (map ParamVal params)]"
proof -
  obtain st where st: "mapR (stage_segment pol reg ctx) segs = Inr st"
    and f: "fuse_phases [] params st = Inr (ph, [])"
    using assms(1) by (auto simp: compile_staged)
  have "st = map DuckSql segs" using all_sql_staged [OF _ st] assms(3) by (simp add: list_all_iff)
  with fuse_phases_duck_only [OF f] assms(2) obtain sql ps where ph: "ph = [DuckPhase sql ps]"
    and run: "fuse_duck_run (map DuckSql segs) params False = Inr (sql, ps, [])"
    by (auto simp: list_all_iff)
  then show ?thesis
    by (auto simp: fuse_duck_run_def bindR_Inr_iff dest!: fuse_items_sql)
qed

lemma builtin_arity:
  "op_duck_arity op_search = Some 1" "op_duck_arity op_scan = Some 1" "op_duck_arity op_grep = Some 2"
  by (simp_all add: builtin_defs)

lemma default_permitted:
  "op \<in> set builtin_operators \<Longrightarrow> permitted default_policy op \<Longrightarrow> op \<noteq> op_sh \<and> op \<noteq> op_jq"
  by (auto simp: permitted_def default_policy_def MODE_CAPS_def)

lemma classify_builtin:
  "build_registry [] = Inr reg \<Longrightarrow> classify reg seg = Some (op, rest) \<Longrightarrow> op \<in> set builtin_operators"
  by (auto simp: build_registry_def register_builtins classify_def resolve_op_def builtin_registry_def
      split: option.splits prod.splits dest!: map_of_SomeD)

text \<open>C30: under the default policy and with the built-in operators no query starts a process:
  its plan is one duck statement.\<close>

theorem default_policy_no_process:
  assumes "build_registry [] = Inr reg"
    and "plan_query default_policy reg ctx sql params = Inr (Phases ph)"
  shows "\<exists>q ps. ph = [DuckPhase q ps]"
proof -
  obtain segs q where sp: "split_pipeline q = Inr segs"
    and c: "compile default_policy reg ctx segs params = Inr ph"
    using assms(2) by (auto simp: plan_query_def Let_def bindR_Inr_iff split: if_splits)
  obtain st where st: "mapR (stage_segment default_policy reg ctx) segs = Inr st"
    and f: "fuse_phases [] params st = Inr (ph, [])"
    using c by (auto simp: compile_staged)
  have "segs \<noteq> []" using split_pipeline_segments(1) [OF sp] .
  then have "st \<noteq> []" using mapR_length [OF st] by auto
  have no_bash: "\<not> is_bash s" if "stage_segment default_policy reg ctx seg = Inr s" for seg s
  proof (cases "classify reg seg")
    case None
    then show ?thesis using that by (auto simp: stage_segment_def split: if_splits)
  next
    case (Some p)
    obtain op rest where p: "classify reg seg = Some (op, rest)" using Some by (cases p) auto
    have op: "op \<in> set builtin_operators" by (rule classify_builtin [OF assms(1) p])
    have "op \<noteq> op_sh \<and> op \<noteq> op_jq"
      by (rule default_permitted [OF op stage_segment_permitted(1) [OF that p]])
    moreover have "op \<noteq> op_watch" "op \<noteq> op_ingest"
      using stage_segment_permitted(2,3) [OF that p] by auto
    ultimately have "op \<in> {op_search, op_scan, op_grep}"
      using op unfolding builtin_operators_def list.set by blast
    then have "op_duck_arity op \<noteq> None"
      using builtin_arity by (elim insertE emptyE) simp_all
    then show ?thesis using that p by (auto simp: stage_segment_def bindR_Inr_iff split: if_splits)
  qed
  have "list_all (\<lambda>s. \<not> is_bash s) st"
    using mapR_all [OF st, of "\<lambda>s. \<not> is_bash s"] no_bash by blast
  from fuse_phases_duck_only [OF f this \<open>st \<noteq> []\<close>] show ?thesis by blast
qed

theorem default_policy_no_process_witness:
  "\<exists>q ps. plan_query default_policy builtin_registry sample_ctx (Some sample_query) [PInt 1]
     = Inr (Phases [DuckPhase q ps])"
  using sample_plan default_policy_no_process [OF build_sample] by blast

text \<open>C32: in every registry the library builds, the built-in names mean the built-in operators
  (in any letter case) and the SQL keywords mean no operator, whatever the user registered.\<close>

theorem registry_resolves:
  assumes "build_registry users = Inr reg"
  shows "(\<forall>op \<in> set builtin_operators. \<forall>tok. py_lower tok = op_name op \<longrightarrow> resolve_op reg tok = Some op) \<and>
     (\<forall>tok. py_lower tok \<in> set SQL_LEADING_KEYWORDS \<longrightarrow> resolve_op reg tok = None)"
proof (intro conjI ballI allI impI)
  have wf: "wf_registry reg" by (rule build_registry_wf [OF assms])
  fix op tok
  assume "op \<in> set builtin_operators" and "py_lower tok = op_name op"
  then have "resolve_op builtin_registry tok = Some op"
    by (auto simp: resolve_op_def builtin_registry_def builtin_operators_def)
  moreover have "register_all builtin_registry users = Inr reg"
    using assms by (simp add: build_registry_def register_builtins)
  ultimately show "resolve_op reg tok = Some op"
    using wf by (blast intro: register_all_keeps)
next
  have wf: "wf_registry reg" by (rule build_registry_wf [OF assms])
  fix tok
  assume "py_lower tok \<in> set SQL_LEADING_KEYWORDS"
  then show "resolve_op reg tok = None" by (rule wf_registry_keyword [OF wf])
qed

theorem registry_resolves_witness:
  "resolve_op builtin_registry ''Scan'' = Some op_scan \<and> resolve_op builtin_registry ''SELECT'' = None"
proof -
  have "py_lower ''Scan'' = ''scan''" "py_lower ''SELECT'' \<in> set SQL_LEADING_KEYWORDS" by code_simp+
  with registry_resolves [OF build_sample] show ?thesis by (auto simp: builtin_operators_def)
qed

end
