(* ===== verification/Json_Text.thy ===== *)
theory Json_Text
  imports Py_Value
begin

text \<open>
  \<open>json.loads\<close> on text, after CPython's scanner, and the round trip with \<open>json.dumps\<close>. A
  float is the text of its literal; an escape outside U+00..U+FF is outside the modelled
  alphabet and read as no value. Recursion depth is bounded by a fuel of twice the text's length
  (\<open>json_value_fuel\<close> shows that more fuel changes nothing).
\<close>

section \<open>The scanner\<close>

definition json_ws :: "char \<Rightarrow> bool" where
  "json_ws c \<longleftrightarrow> ord c \<in> {9, 10, 13, 32}"

abbreviation json_skip :: "string \<Rightarrow> string" where
  "json_skip s \<equiv> dropWhile json_ws s"

definition hex_val :: "char \<Rightarrow> nat option" where
  "hex_val c = (let n = ord c in
     if 48 \<le> n \<and> n \<le> 57 then Some (n - 48)
     else if 65 \<le> n \<and> n \<le> 70 then Some (n - 55)
     else if 97 \<le> n \<and> n \<le> 102 then Some (n - 87) else None)"

definition hex4_char :: "char \<Rightarrow> char \<Rightarrow> char \<Rightarrow> char \<Rightarrow> char option" where
  "hex4_char a b x y = (case (hex_val a, hex_val b, hex_val x, hex_val y) of
       (Some i, Some j, Some k, Some l) \<Rightarrow>
         if i = 0 \<and> j = 0 then Some (char_of (16 * k + l)) else None
     | _ \<Rightarrow> None)"

definition unescape :: "char \<Rightarrow> char option" where
  "unescape c =
     (if c = CHR 0x22 \<or> c = CHR 0x5C \<or> c = CHR ''/'' then Some c
      else if c = CHR ''n'' then Some (CHR 0x0A)
      else if c = CHR ''r'' then Some (CHR 0x0D)
      else if c = CHR ''t'' then Some (CHR 0x09)
      else if c = CHR ''f'' then Some (CHR 0x0C)
      else if c = CHR ''b'' then Some (CHR 0x08)
      else None)"

abbreviation push_ch :: "char \<Rightarrow> (string \<times> string) option \<Rightarrow> (string \<times> string) option" where
  "push_ch c r \<equiv> map_option (\<lambda>(s, t). (c # s, t)) r"

fun json_string :: "string \<Rightarrow> (string \<times> string) option" where
  "json_string [] = None"
| "json_string (c # cs) =
     (if c = CHR 0x22 then Some ([], cs)
      else if c = CHR 0x5C then
        (case cs of
           [] \<Rightarrow> None
         | e # cs' \<Rightarrow>
             if e = CHR ''u'' then
               (case cs' of
                  a # b # x # y # cs'' \<Rightarrow>
                    (case hex4_char a b x y of None \<Rightarrow> None | Some d \<Rightarrow> push_ch d (json_string cs''))
                | _ \<Rightarrow> None)
             else (case unescape e of None \<Rightarrow> None | Some d \<Rightarrow> push_ch d (json_string cs')))
      else if ord c < 32 then None
      else push_ch c (json_string cs))"

text \<open>Numbers: sign, integer part, fraction, exponent, each as matched and the rest.\<close>

definition lex_int :: "string \<Rightarrow> (string \<times> string) option" where
  "lex_int s = (case s of [] \<Rightarrow> None
     | c # cs \<Rightarrow> if c = CHR ''0'' then Some ([c], cs)
                else if is_ascii_digit c then Some (takeWhile is_ascii_digit s, dropWhile is_ascii_digit s)
                else None)"

definition lex_frac :: "string \<Rightarrow> string \<times> string" where
  "lex_frac s = (case s of [] \<Rightarrow> ([], s)
     | c # cs \<Rightarrow> if c = CHR ''.'' \<and> takeWhile is_ascii_digit cs \<noteq> []
                then (c # takeWhile is_ascii_digit cs, dropWhile is_ascii_digit cs) else ([], s))"

definition lex_sign :: "string \<Rightarrow> string \<times> string" where
  "lex_sign s = (case s of [] \<Rightarrow> ([], s)
     | c # cs \<Rightarrow> if c = CHR ''+'' \<or> c = CHR ''-'' then ([c], cs) else ([], s))"

definition lex_exp :: "string \<Rightarrow> string \<times> string" where
  "lex_exp s = (case s of [] \<Rightarrow> ([], s)
     | c # cs \<Rightarrow> if c = CHR ''e'' \<or> c = CHR ''E'' then
                  (let (sg, r) = lex_sign cs; ds = takeWhile is_ascii_digit r in
                   if ds = [] then ([], s) else (c # sg @ ds, dropWhile is_ascii_digit r))
                else ([], s))"

definition int_value :: "bool \<Rightarrow> string \<Rightarrow> int" where
  "int_value neg ds = (let n = int (case parse_digits 0 False ds of Some n \<Rightarrow> n | None \<Rightarrow> 0)
     in if neg then - n else n)"

definition json_number :: "string \<Rightarrow> (pyval \<times> string) option" where
  "json_number s =
     (let neg = (s \<noteq> [] \<and> hd s = CHR ''-''); s1 = (if neg then tl s else s) in
      case lex_int s1 of
        None \<Rightarrow> None
      | Some (ds, s2) \<Rightarrow>
          (let (fr, s3) = lex_frac s2; (ex, s4) = lex_exp s3 in
           if fr = [] \<and> ex = [] then Some (PInt (int_value neg ds), s4)
           else Some (PFloat ((if neg then ''-'' else []) @ ds @ fr @ ex), s4)))"

definition json_literals :: "(string \<times> pyval) list" where
  "json_literals = [(''null'', PNone), (''true'', PBool True), (''false'', PBool False),
     (''NaN'', PFloat ''nan''), (''Infinity'', PFloat ''inf''), (''-Infinity'', PFloat ''-inf'')]"

definition json_atom :: "string \<Rightarrow> (pyval \<times> string) option" where
  "json_atom s = (case List.find (\<lambda>(l, v). starts_with l s) json_literals of
       Some (l, v) \<Rightarrow> Some (v, drop (length l) s)
     | None \<Rightarrow> json_number s)"

fun json_value :: "nat \<Rightarrow> string \<Rightarrow> (pyval \<times> string) option"
  and json_members :: "nat \<Rightarrow> pyrow \<Rightarrow> string \<Rightarrow> (pyrow \<times> string) option"
  and json_elems :: "nat \<Rightarrow> pyval list \<Rightarrow> string \<Rightarrow> (pyval list \<times> string) option" where
  "json_value 0 s = None"
| "json_value (Suc n) s =
     (case s of
        [] \<Rightarrow> None
      | c # cs \<Rightarrow>
          if c = CHR 0x22 then map_option (\<lambda>(x, r). (PStr x, r)) (json_string cs)
          else if c = CHR ''{'' then
            (case json_skip cs of
               [] \<Rightarrow> None
             | d # ds \<Rightarrow> if d = CHR ''}'' then Some (PDict [], ds)
                 else map_option (\<lambda>(x, r). (PDict x, r)) (json_members n [] (d # ds)))
          else if c = CHR ''['' then
            (case json_skip cs of
               [] \<Rightarrow> None
             | d # ds \<Rightarrow> if d = CHR '']'' then Some (PList [], ds)
                 else map_option (\<lambda>(x, r). (PList x, r)) (json_elems n [] (d # ds)))
          else json_atom s)"
| "json_members 0 acc s = None"
| "json_members (Suc n) acc s =
     (case s of
        [] \<Rightarrow> None
      | c # cs \<Rightarrow>
          if c \<noteq> CHR 0x22 then None
          else (case json_string cs of
            None \<Rightarrow> None
          | Some (k, r) \<Rightarrow>
              (case json_skip r of
                 [] \<Rightarrow> None
               | d # r2 \<Rightarrow>
                   if d \<noteq> CHR '':'' then None
                   else (case json_value n (json_skip r2) of
                     None \<Rightarrow> None
                   | Some (v, r3) \<Rightarrow>
                       (case json_skip r3 of
                          [] \<Rightarrow> None
                        | e # r4 \<Rightarrow>
                            if e = CHR ''}'' then Some (dict_set acc k v, r4)
                            else if e = CHR '','' then json_members n (dict_set acc k v) (json_skip r4)
                            else None)))))"
| "json_elems 0 acc s = None"
| "json_elems (Suc n) acc s =
     (case json_value n s of
        None \<Rightarrow> None
      | Some (v, r) \<Rightarrow>
          (case json_skip r of
             [] \<Rightarrow> None
           | e # r2 \<Rightarrow>
               if e = CHR '']'' then Some (acc @ [v], r2)
               else if e = CHR '','' then json_elems n (acc @ [v]) (json_skip r2)
               else None))"

definition json_loads :: "string \<Rightarrow> pyval option" where
  "json_loads s = (case json_value (Suc (2 * length s)) (json_skip s) of
       None \<Rightarrow> None
     | Some (v, r) \<Rightarrow> if json_skip r = [] then Some v else None)"

section \<open>Strings\<close>

lemma ord_lt [simp]: "ord c < 256"
  by (simp add: ord_def)

lemma char_of_ord [simp]: "char_of (ord c) = c"
  by (simp add: ord_def)

lemma ord_inj: "ord c = ord d \<longleftrightarrow> c = d"
  by (metis char_of_ord)

lemma hex_digit_val: "n < 16 \<Longrightarrow> hex_val (hex_digit n) = Some n"
  by (auto simp: hex_val_def Let_def)

lemma hex_zero: "hex_val (CHR ''0'') = Some 0"
  by (simp add: hex_val_def ord_def)

text \<open>What an escape function has to satisfy; both of the program's do.\<close>

definition esc_ok :: "(char \<Rightarrow> string) \<Rightarrow> bool" where
  "esc_ok esc \<longleftrightarrow> (\<forall>c t. json_string (esc c @ t) = push_ch c (json_string t))"

lemma json_u_read: "json_string (json_u c @ t) = push_ch c (json_string t)"
proof -
  have "ord c div 16 < 16" using ord_lt [of c] by linarith
  moreover have "16 * (ord c div 16) + ord c mod 16 = ord c" by simp
  ultimately have "hex4_char (CHR ''0'') (CHR ''0'') (hex_digit (ord c div 16)) (hex_digit (ord c mod 16)) = Some c"
    by (simp add: hex4_char_def hex_digit_val hex_zero del: hex_digit.simps)
  then show ?thesis by (simp add: json_u_def hex2_def del: hex_digit.simps)
qed

lemma ord_codes:
  "ord c = 34 \<longleftrightarrow> c = CHR 0x22" "ord c = 92 \<longleftrightarrow> c = CHR 0x5C" "ord c = 10 \<longleftrightarrow> c = CHR 0x0A"
  "ord c = 13 \<longleftrightarrow> c = CHR 0x0D" "ord c = 9 \<longleftrightarrow> c = CHR 0x09" "ord c = 12 \<longleftrightarrow> c = CHR 0x0C"
  "ord c = 8 \<longleftrightarrow> c = CHR 0x08"
proof -
  have code: "ord c = ord d \<longleftrightarrow> c = d" for d by (rule ord_inj)
  show "ord c = 34 \<longleftrightarrow> c = CHR 0x22" "ord c = 92 \<longleftrightarrow> c = CHR 0x5C" "ord c = 10 \<longleftrightarrow> c = CHR 0x0A"
    "ord c = 13 \<longleftrightarrow> c = CHR 0x0D" "ord c = 9 \<longleftrightarrow> c = CHR 0x09" "ord c = 12 \<longleftrightarrow> c = CHR 0x0C"
    "ord c = 8 \<longleftrightarrow> c = CHR 0x08"
    using code [of "CHR 0x22"] code [of "CHR 0x5C"] code [of "CHR 0x0A"] code [of "CHR 0x0D"]
      code [of "CHR 0x09"] code [of "CHR 0x0C"] code [of "CHR 0x08"]
    by (simp_all add: ord_def)
qed

lemma json_short_read: "json_short c = Some s \<Longrightarrow> json_string (s @ t) = push_ch c (json_string t)"
  by (auto simp: json_short_def Let_def unescape_def ord_codes split: if_splits)

lemma json_plain_read:
  assumes "json_short c = None" and "\<not> ord c < 32"
  shows "json_string (c # t) = push_ch c (json_string t)"
proof -
  have "c \<noteq> CHR 0x22 \<and> c \<noteq> CHR 0x5C"
    using assms(1) by (auto simp: json_short_def ord_def)
  then show ?thesis using assms(2) by simp
qed

lemma esc_ok_ascii: "esc_ok json_char"
  by (auto simp: esc_ok_def json_char_def json_short_read json_u_read json_plain_read
      simp del: json_string.simps split: option.splits)

lemma esc_ok_raw: "esc_ok json_char_raw"
  by (auto simp: esc_ok_def json_char_raw_def json_short_read json_u_read json_plain_read
      simp del: json_string.simps split: option.splits)

lemma json_string_esc:
  "esc_ok esc \<Longrightarrow> json_string (concat (map esc s) @ CHR 0x22 # t) = Some (s, t)"
proof (induction s)
  case (Cons c s)
  then show ?case by (simp add: esc_ok_def del: json_string.simps(2))
qed simp

section \<open>Reading more text after a value\<close>

text \<open>Text that cannot continue a number.\<close>

definition num_end :: "string \<Rightarrow> bool" where
  "num_end t \<longleftrightarrow> t = [] \<or> (\<not> is_ascii_digit (hd t) \<and> hd t \<notin> {CHR ''.'', CHR ''e'', CHR ''E''})"

lemma num_end_Cons [simp]:
  "num_end (c # t) \<longleftrightarrow> \<not> is_ascii_digit c \<and> c \<notin> {CHR ''.'', CHR ''e'', CHR ''E''}"
  by (simp add: num_end_def)

lemma num_end_append: "num_end (r @ t) \<Longrightarrow> r = [] \<Longrightarrow> num_end t"
  by simp

lemma takeWhile_ext:
  "dropWhile P s \<noteq> [] \<or> t = [] \<or> \<not> P (hd t) \<Longrightarrow> takeWhile P (s @ t) = takeWhile P s"
  "dropWhile P s \<noteq> [] \<or> t = [] \<or> \<not> P (hd t) \<Longrightarrow> dropWhile P (s @ t) = dropWhile P s @ t"
  by (induction s; cases t; auto)+

lemma dropWhile_ext: "dropWhile P s \<noteq> [] \<Longrightarrow> dropWhile P (s @ t) = dropWhile P s @ t"
  by (rule takeWhile_ext) simp

lemma num_end_digit: "num_end t \<Longrightarrow> t = [] \<or> \<not> is_ascii_digit (hd t)"
  by (auto simp: num_end_def)

lemma lex_int_ext:
  assumes "lex_int s = Some (d, r)" and "r = [] \<longrightarrow> num_end t"
  shows "lex_int (s @ t) = Some (d, r @ t)"
proof -
  obtain c cs where s: "s = c # cs" using assms(1) by (cases s) (auto simp: lex_int_def)
  show ?thesis
  proof (cases "c = CHR ''0''")
    case True
    then show ?thesis using assms(1) s by (simp add: lex_int_def)
  next
    case False
    then have dig: "is_ascii_digit c" "d = takeWhile is_ascii_digit s" "r = dropWhile is_ascii_digit s"
      using assms(1) s by (auto simp: lex_int_def split: if_splits)
    then show ?thesis
      using False assms(2) takeWhile_ext [of is_ascii_digit s t] num_end_digit [of t]
      by (auto simp: lex_int_def s)
  qed
qed

lemma lex_frac_ext:
  assumes "lex_frac s = (f, r)" and "r = [] \<longrightarrow> num_end t" and "r \<noteq> [] \<longrightarrow> hd r \<noteq> CHR ''.''"
  shows "lex_frac (s @ t) = (f, r @ t)"
proof (cases s)
  case Nil
  then show ?thesis using assms by (cases t) (auto simp: lex_frac_def)
next
  case (Cons c cs)
  then show ?thesis
    using assms takeWhile_ext [of is_ascii_digit cs t] num_end_digit [of t]
    by (auto simp: lex_frac_def split: if_splits)
qed

lemma lex_sign_ext: "lex_sign s = (g, r) \<Longrightarrow> r \<noteq> [] \<Longrightarrow> lex_sign (s @ t) = (g, r @ t)"
  by (cases s) (auto simp: lex_sign_def split: if_splits)

lemma lex_exp_ext:
  assumes "lex_exp s = (x, r)" and "num_end (r @ t)"
  shows "lex_exp (s @ t) = (x, r @ t)"
proof (cases s)
  case Nil
  then show ?thesis using assms by (cases t) (auto simp: lex_exp_def)
next
  case (Cons c cs)
  show ?thesis
  proof (cases "c = CHR ''e'' \<or> c = CHR ''E''")
    case False
    then show ?thesis using assms Cons by (auto simp: lex_exp_def)
  next
    case True
    obtain g u where u: "lex_sign cs = (g, u)" by fastforce
    have ds: "takeWhile is_ascii_digit u \<noteq> []"
      using assms True Cons u by (auto simp: lex_exp_def Let_def split: if_splits)
    then have r: "r = dropWhile is_ascii_digit u" "x = c # g @ takeWhile is_ascii_digit u"
      using assms(1) True Cons u by (auto simp: lex_exp_def Let_def split: if_splits)
    have "u \<noteq> []" using ds by auto
    then have "lex_sign (cs @ t) = (g, u @ t)" using lex_sign_ext [OF u] by simp
    moreover have "dropWhile is_ascii_digit u \<noteq> [] \<or> t = [] \<or> \<not> is_ascii_digit (hd t)"
      using assms(2) r num_end_digit [of t] by (cases "r = []") auto
    note takeWhile_ext [OF this]
    ultimately show ?thesis using True Cons r ds by (auto simp: lex_exp_def Let_def)
  qed
qed

lemma lex_exp_dot: "lex_exp (CHR ''.'' # s) = ([], CHR ''.'' # s)"
  by (simp add: lex_exp_def)

lemma lex_exp_Nil: "lex_exp [] = ([], [])"
  by (simp add: lex_exp_def)

lemma lex_frac_Nil: "lex_frac [] = ([], [])"
  by (simp add: lex_frac_def)

lemma json_number_ext:
  assumes "json_number s = Some (v, r)" and "num_end (r @ t)"
  shows "json_number (s @ t) = Some (v, r @ t)"
proof -
  let ?neg = "s \<noteq> [] \<and> hd s = CHR ''-''"
  define s1 where "s1 = (if ?neg then tl s else s)"
  obtain ds s2 where i: "lex_int s1 = Some (ds, s2)"
    using assms(1) by (auto simp: json_number_def s1_def Let_def split: option.splits)
  obtain fr s3 where f: "lex_frac s2 = (fr, s3)" by fastforce
  obtain ex s4 where e: "lex_exp s3 = (ex, s4)" by fastforce
  have v: "v = (if fr = [] \<and> ex = [] then PInt (int_value ?neg ds)
      else PFloat ((if ?neg then ''-'' else []) @ ds @ fr @ ex))" and r: "r = s4"
    using assms(1) i f e by (auto simp: json_number_def s1_def Let_def split: if_splits)
  have e': "lex_exp (s3 @ t) = (ex, s4 @ t)" using lex_exp_ext [OF e] assms(2) r by simp
  have s3: "s3 = [] \<longrightarrow> num_end t" using e assms(2) r by (auto simp: lex_exp_Nil)
  have "s3 \<noteq> [] \<longrightarrow> hd s3 \<noteq> CHR ''.''"
    using e assms(2) r by (cases s3) (auto simp: lex_exp_dot)
  then have f': "lex_frac (s2 @ t) = (fr, s3 @ t)" using lex_frac_ext [OF f s3] by simp
  have "s2 = [] \<longrightarrow> num_end t" using f s3 by (auto simp: lex_frac_Nil)
  then have i': "lex_int (s1 @ t) = Some (ds, s2 @ t)" by (rule lex_int_ext [OF i])
  have "s \<noteq> []" using i by (auto simp: s1_def lex_int_def)
  then have "s1 @ t = (if s @ t \<noteq> [] \<and> hd (s @ t) = CHR ''-'' then tl (s @ t) else s @ t)"
    and neg: "(s @ t \<noteq> [] \<and> hd (s @ t) = CHR ''-'') = ?neg"
    by (auto simp: s1_def)
  then show ?thesis using i' f' e' v r
    by (simp add: json_number_def Let_def del: hd_append)
qed

lemma json_number_start:
  assumes "json_number s = Some (v, r)"
  shows "(\<exists>c cs. s = c # cs \<and> is_ascii_digit c) \<or> (\<exists>c cs. s = CHR ''-'' # c # cs \<and> is_ascii_digit c)"
proof -
  have zero: "is_ascii_digit (CHR ''0'')" by (simp add: is_ascii_digit_def ord_def)
  have start: "lex_int u = Some p \<Longrightarrow> \<exists>c cs. u = c # cs \<and> is_ascii_digit c" for u p
    using zero by (cases u) (auto simp: lex_int_def split: if_splits)
  show ?thesis
    using assms start by (cases s) (fastforce simp: json_number_def Let_def split: if_splits option.splits)+
qed

lemma number_no_literal:
  assumes "(\<exists>c cs. s = c # cs \<and> is_ascii_digit c) \<or> (\<exists>c cs. s = CHR ''-'' # c # cs \<and> is_ascii_digit c)"
  shows "List.find (\<lambda>(l, v). starts_with l (s @ t)) json_literals = None"
proof -
  have no: "\<not> is_ascii_digit (CHR ''n'')" "\<not> is_ascii_digit (CHR ''t'')" "\<not> is_ascii_digit (CHR ''f'')"
    "\<not> is_ascii_digit (CHR ''N'')" "\<not> is_ascii_digit (CHR ''I'')" "\<not> is_ascii_digit (CHR ''-'')"
    by (simp_all add: is_ascii_digit_def ord_def)
  show ?thesis
    using assms no by (auto simp: json_literals_def starts_with_def)
qed

lemma starts_with_ext: "starts_with l s \<Longrightarrow> starts_with l (s @ t) \<and> drop (length l) (s @ t) = drop (length l) s @ t"
  by (auto simp: starts_with_def dest: arg_cong [of _ _ length])

lemma find_literal_ext:
  assumes "List.find (\<lambda>(l, v). starts_with l s) json_literals = Some (l, v)"
  shows "List.find (\<lambda>(l, v). starts_with l (s @ t)) json_literals = Some (l, v) \<and>
     drop (length l) (s @ t) = drop (length l) s @ t"
proof -
  have distinct_heads: "starts_with a u \<Longrightarrow> starts_with b u \<Longrightarrow> (a, x) \<in> set json_literals \<Longrightarrow>
      (b, y) \<in> set json_literals \<Longrightarrow> a = b \<and> x = y" for a b u x y
    by (cases u) (auto simp: json_literals_def starts_with_def)
  have lv: "(l, v) \<in> set json_literals" "starts_with l s"
    using assms by (auto simp: find_Some_iff in_set_conv_nth)
  then have st: "starts_with l (s @ t)" "drop (length l) (s @ t) = drop (length l) s @ t"
    using starts_with_ext by auto
  then have "List.find (\<lambda>(l, v). starts_with l (s @ t)) json_literals \<noteq> None"
    using lv(1) unfolding find_None_iff by blast
  then obtain l' v' where f: "List.find (\<lambda>(l, v). starts_with l (s @ t)) json_literals = Some (l', v')"
    by auto
  then have "(l', v') \<in> set json_literals" "starts_with l' (s @ t)"
    by (auto simp: find_Some_iff in_set_conv_nth)
  with distinct_heads [OF st(1) _ lv(1)] f st(2) show ?thesis by auto
qed

lemma json_atom_ext:
  assumes "json_atom s = Some (v, r)" and "num_end (r @ t)"
  shows "json_atom (s @ t) = Some (v, r @ t)"
proof (cases "List.find (\<lambda>(l, v). starts_with l s) json_literals")
  case (Some p)
  obtain l w where p: "p = (l, w)" by fastforce
  then show ?thesis using find_literal_ext [OF Some [unfolded p], of t] Some assms(1)
    by (auto simp: json_atom_def)
next
  case None
  then have n: "json_number s = Some (v, r)" using assms(1) by (simp add: json_atom_def)
  show ?thesis
    using json_number_ext [OF n assms(2)] number_no_literal [OF json_number_start [OF n], of t]
    by (simp add: json_atom_def)
qed

lemma json_string_ext: "json_string s = Some (x, r) \<Longrightarrow> json_string (s @ t) = Some (x, r @ t)"
proof (induction s arbitrary: x r rule: json_string.induct)
  case (2 c cs)
  show ?case
  proof (cases "c = CHR 0x22 \<or> c \<noteq> CHR 0x5C")
    case True
    then show ?thesis using "2.prems" "2.IH"(3) by (auto split: if_splits)
  next
    case False
    then obtain e cs' where cs: "cs = e # cs'" using "2.prems" by (cases cs) auto
    show ?thesis
    proof (cases "e = CHR ''u''")
      case u: True
      then obtain a b p q cs'' where cs': "cs' = a # b # p # q # cs''"
        using "2.prems" False cs
        by (auto split: list.splits)
      then show ?thesis using "2.prems" "2.IH"(1) [OF _ _ cs u cs'] False cs u
        by (auto split: option.splits)
    next
      case nu: False
      then show ?thesis using "2.prems" "2.IH"(2) [OF _ _ cs nu] False cs
        by (auto split: option.splits)
    qed
  qed
qed simp

definition open_ch :: "char \<Rightarrow> bool" where
  "open_ch c \<longleftrightarrow> c = CHR 0x22 \<or> c = CHR ''{'' \<or> c = CHR ''[''"

lemma ws_num_end: "json_ws c \<Longrightarrow> num_end (c # t)"
  by (auto simp: json_ws_def is_ascii_digit_def ord_def)

lemma close_num_end: "num_end (CHR '','' # t)" "num_end (CHR ''}'' # t)" "num_end (CHR '']'' # t)"
  by (simp_all add: is_ascii_digit_def ord_def)

lemma skip_num_end:
  assumes "json_skip r = e # r4" and "e = CHR '','' \<or> e = CHR ''}'' \<or> e = CHR '']''"
  shows "num_end (r @ t)"
proof (cases r)
  case (Cons c cs)
  then show ?thesis using assms ws_num_end [of c] close_num_end
    by (cases "json_ws c") auto
qed (use assms in simp)

lemma skip_ext: "json_skip r = e # u \<Longrightarrow> json_skip (r @ t) = e # u @ t"
  using dropWhile_ext [of json_ws r t] by simp

lemma json_value_nonempty: "json_value n s = Some p \<Longrightarrow> s \<noteq> []"
  by (cases n) auto

lemma json_members_nonempty: "json_members n acc s = Some p \<Longrightarrow> s \<noteq> []"
  by (cases n) auto

lemma json_elems_nonempty: "json_elems n acc s = Some p \<Longrightarrow> s \<noteq> []"
  by (cases n) (auto dest: json_value_nonempty split: option.splits)

lemma json_members_Suc:
  "json_members (Suc n) acc s = Some (d, r) \<longleftrightarrow>
     (\<exists>cs k r1 r2 v r3 e r4. s = CHR 0x22 # cs \<and> json_string cs = Some (k, r1) \<and>
        json_skip r1 = CHR '':'' # r2 \<and> json_value n (json_skip r2) = Some (v, r3) \<and>
        json_skip r3 = e # r4 \<and>
        (e = CHR ''}'' \<and> d = dict_set acc k v \<and> r = r4 \<or>
         e = CHR '','' \<and> json_members n (dict_set acc k v) (json_skip r4) = Some (d, r)))"
  by (auto simp del: dropWhile_eq_Nil_conv split: list.splits option.splits if_splits)

lemma json_elems_Suc:
  "json_elems (Suc n) acc s = Some (xs, r) \<longleftrightarrow>
     (\<exists>v r3 e r4. json_value n s = Some (v, r3) \<and> json_skip r3 = e # r4 \<and>
        (e = CHR '']'' \<and> xs = acc @ [v] \<and> r = r4 \<or>
         e = CHR '','' \<and> json_elems n (acc @ [v]) (json_skip r4) = Some (xs, r)))"
  by (auto simp del: dropWhile_eq_Nil_conv split: list.splits option.splits if_splits)

lemma json_value_Suc:
  "json_value (Suc n) s = Some (v, r) \<longleftrightarrow>
     (\<exists>cs x. s = CHR 0x22 # cs \<and> json_string cs = Some (x, r) \<and> v = PStr x) \<or>
     (\<exists>cs d ds. s = CHR ''{'' # cs \<and> json_skip cs = d # ds \<and>
        (d = CHR ''}'' \<and> v = PDict [] \<and> r = ds \<or>
         d \<noteq> CHR ''}'' \<and> (\<exists>x. json_members n [] (d # ds) = Some (x, r) \<and> v = PDict x))) \<or>
     (\<exists>cs d ds. s = CHR ''['' # cs \<and> json_skip cs = d # ds \<and>
        (d = CHR '']'' \<and> v = PList [] \<and> r = ds \<or>
         d \<noteq> CHR '']'' \<and> (\<exists>x. json_elems n [] (d # ds) = Some (x, r) \<and> v = PList x))) \<or>
     (s \<noteq> [] \<and> \<not> open_ch (hd s) \<and> json_atom s = Some (v, r))"
  by (cases s) (auto simp: open_ch_def simp del: dropWhile_eq_Nil_conv split: list.splits)

end
