(* ===== verification/Json_Roundtrip.thy ===== *)
theory Json_Roundtrip
  imports Json_Text
begin

text \<open>
  Facts about \<open>json.loads\<close> on what \<open>json.dumps\<close> wrote: the value comes back, a proper prefix
  of a written object (a torn line) is refused, more fuel changes nothing.
\<close>

section \<open>Extension\<close>

lemma json_ext:
  "json_value n s = Some (v, r) \<Longrightarrow> open_ch (hd s) \<or> num_end (r @ t) \<Longrightarrow>
     json_value n (s @ t) = Some (v, r @ t)"
  "json_members n acc s = Some (d, r) \<Longrightarrow> json_members n acc (s @ t) = Some (d, r @ t)"
  "json_elems n acc' s = Some (xs, r) \<Longrightarrow> json_elems n acc' (s @ t) = Some (xs, r @ t)"
proof (induction n arbitrary: s v r acc d acc' xs)
  case (Suc n)
  {
    case 1
    then have cases: "json_value (Suc n) s = Some (v, r)" by simp
    have ih: "json_members n [] (c # u) = Some (d, r) \<Longrightarrow> json_members n [] (c # u @ t) = Some (d, r @ t)"
      "json_elems n [] (c # u) = Some (xs, r) \<Longrightarrow> json_elems n [] (c # u @ t) = Some (xs, r @ t)" for c u d xs
      using Suc.IH(2) [of "[]" "c # u"] Suc.IH(3) [of "[]" "c # u"] by auto
    from cases 1(2) show ?case
      unfolding json_value_Suc [of n "s @ t"]
      unfolding json_value_Suc [of n s]
      by (elim disjE exE conjE; simp del: dropWhile_eq_Nil_conv)
        (auto simp: open_ch_def hd_append json_string_ext skip_ext json_atom_ext
          dest: ih simp del: dropWhile_eq_Nil_conv)
  next
    case 2
    then obtain cs k r1 r2 v r3 e r4 where m: "s = CHR 0x22 # cs" "json_string cs = Some (k, r1)"
        "json_skip r1 = CHR '':'' # r2" "json_value n (json_skip r2) = Some (v, r3)"
        "json_skip r3 = e # r4" and alt: "e = CHR ''}'' \<and> d = dict_set acc k v \<and> r = r4 \<or>
         e = CHR '','' \<and> json_members n (dict_set acc k v) (json_skip r4) = Some (d, r)"
      unfolding json_members_Suc by blast
    have e: "e = CHR '','' \<or> e = CHR ''}'' \<or> e = CHR '']''" using alt by blast
    have "json_skip r2 \<noteq> []" using json_value_nonempty [OF m(4)] .
    then have v: "json_value n (json_skip (r2 @ t)) = Some (v, r3 @ t)"
      using Suc.IH(1) [OF m(4)] skip_num_end [OF m(5) e] by (simp add: dropWhile_ext)
    have rec: "json_members n (dict_set acc k v) (json_skip (r4 @ t)) = Some (d, r @ t)"
      if "json_members n (dict_set acc k v) (json_skip r4) = Some (d, r)"
      using Suc.IH(2) [OF that] json_members_nonempty [OF that] by (simp add: dropWhile_ext)
    show ?case
      unfolding json_members_Suc
      using m(1) json_string_ext [OF m(2), of t] skip_ext [OF m(3), of t] v skip_ext [OF m(5), of t] alt rec
      by fastforce
  next
    case 3
    then obtain v r3 e r4 where m: "json_value n s = Some (v, r3)" "json_skip r3 = e # r4"
      and alt: "e = CHR '']'' \<and> xs = acc' @ [v] \<and> r = r4 \<or>
         e = CHR '','' \<and> json_elems n (acc' @ [v]) (json_skip r4) = Some (xs, r)"
      unfolding json_elems_Suc by blast
    have e: "e = CHR '','' \<or> e = CHR ''}'' \<or> e = CHR '']''" using alt by blast
    have v: "json_value n (s @ t) = Some (v, r3 @ t)"
      using Suc.IH(1) [OF m(1)] skip_num_end [OF m(2) e] by blast
    have rec: "json_elems n (acc' @ [v]) (json_skip (r4 @ t)) = Some (xs, r @ t)"
      if "json_elems n (acc' @ [v]) (json_skip r4) = Some (xs, r)"
      using Suc.IH(3) [OF that] json_elems_nonempty [OF that] by (simp add: dropWhile_ext)
    show ?case
      unfolding json_elems_Suc using v skip_ext [OF m(2), of t] alt rec by fastforce
  }
qed simp_all

section \<open>Round trip\<close>

text \<open>
  A float's text as CPython writes it: a JSON number that is not an integer, or a special.
  Well-formed values: such floats, no foreign object, no key twice in a dictionary.
\<close>

definition float_text :: "string \<Rightarrow> bool" where
  "float_text s \<longleftrightarrow> s \<in> {''inf'', ''-inf'', ''nan''} \<or> json_number s = Some (PFloat s, [])"

fun wf_json :: "pyval \<Rightarrow> bool" where
  "wf_json (PFloat s) = float_text s"
| "wf_json (PList xs) = list_all wf_json xs"
| "wf_json (PDict d) = (distinct (map fst d) \<and> list_all (\<lambda>(k, v). wf_json v) d)"
| "wf_json (PObj s) = False"
| "wf_json v = True"

lemma wf_json_ok: "wf_json v \<Longrightarrow> json_ok v"
proof (induction v)
  case (PList xs)
  then show ?case by (auto simp: list_all_iff)
next
  case (PDict d)
  then show ?case by (fastforce simp: list_all_iff)
qed auto

lemma parse_digits_show: "parse_digits 0 False (show_nat n) = Some n"
  by (rule parse_show_nat)

lemma show_nat_zero_hd: "hd (show_nat n) = CHR ''0'' \<Longrightarrow> n = 0"
proof (induction n rule: show_nat.induct)
  case (1 n)
  show ?case
  proof (cases "n < 10")
    case True
    then have "hd (show_nat n) = char_of (48 + n)" by (subst show_nat.simps) simp
    with 1(2) have "ord (char_of (48 + n)) = ord (CHR ''0'')" by simp
    then show ?thesis using True by (simp add: ord_def)
  next
    case False
    then have "hd (show_nat n) = hd (show_nat (n div 10))"
      by (subst show_nat.simps) (simp add: hd_append)
    with 1 False have "n div 10 = 0" by simp
    with False show ?thesis by simp
  qed
qed

lemma takeWhile_digits:
  "list_all is_ascii_digit ds \<Longrightarrow> num_end t \<Longrightarrow>
     takeWhile is_ascii_digit (ds @ t) = ds \<and> dropWhile is_ascii_digit (ds @ t) = t"
proof (induction ds)
  case Nil
  then show ?case by (cases t) (auto simp: num_end_def)
qed simp

lemma lex_int_show:
  assumes "num_end t"
  shows "lex_int (show_nat n @ t) = Some (show_nat n, t)"
proof (cases "n = 0")
  case True
  have "show_nat 0 = ''0''" by code_simp
  then show ?thesis using True by (simp add: lex_int_def)
next
  case False
  obtain c cs where c: "show_nat n = c # cs" by (cases "show_nat n") auto
  then have "c \<noteq> CHR ''0''" using show_nat_zero_hd [of n] False by auto
  moreover have "is_ascii_digit c" using show_nat_digits [of n] c by simp
  ultimately show ?thesis
    using takeWhile_digits [OF show_nat_digits [of n] assms] c by (simp add: lex_int_def)
qed

lemma num_end_lex: "num_end t \<Longrightarrow> lex_frac t = ([], t) \<and> lex_exp t = ([], t)"
  by (cases t) (auto simp: lex_frac_def lex_exp_def)

lemma json_number_show:
  assumes "num_end t"
  shows "json_number (show_int i @ t) = Some (PInt i, t)"
proof (cases "i < 0")
  case True
  then show ?thesis
    using lex_int_show [OF assms, of "nat (- i)"] num_end_lex [OF assms]
    by (simp add: show_int_def json_number_def int_value_def parse_digits_show del: show_nat.simps)
next
  case False
  have "hd (show_nat (nat i)) \<noteq> CHR ''-''"
    using show_nat_hd [of "nat i"] by (auto simp: is_ascii_digit_def ord_def)
  then show ?thesis
    using False lex_int_show [OF assms, of "nat i"] num_end_lex [OF assms]
    by (simp add: show_int_def json_number_def int_value_def parse_digits_show Let_def hd_append
        del: show_nat.simps)
qed

lemma atom_number: "json_number s = Some (v, []) \<Longrightarrow> num_end t \<Longrightarrow> json_atom (s @ t) = Some (v, t)"
  using json_number_ext [of s v "[]" t] number_no_literal [OF json_number_start, of s v "[]" t]
  by (simp add: json_atom_def)

lemma atom_int: "num_end t \<Longrightarrow> json_atom (show_int i @ t) = Some (PInt i, t)"
  using json_number_show [of "[]" i] atom_number [of "show_int i" "PInt i" t] by (simp add: num_end_def)

lemma atom_literal: "(l, v) \<in> set json_literals \<Longrightarrow> json_atom (l @ t) = Some (v, t)"
proof -
  assume lv: "(l, v) \<in> set json_literals"
  have "\<forall>(l, v) \<in> set json_literals. List.find (\<lambda>(k, w). starts_with k l) json_literals = Some (l, v)"
    by code_simp
  with lv have "List.find (\<lambda>(k, w). starts_with k l) json_literals = Some (l, v)" by blast
  from find_literal_ext [OF this, of t] show ?thesis by (simp add: json_atom_def)
qed

text \<open>How a written value starts.\<close>

definition value_start :: "string \<Rightarrow> bool" where
  "value_start s \<longleftrightarrow> s \<noteq> [] \<and> \<not> json_ws (hd s) \<and> hd s \<noteq> CHR '']'' \<and> hd s \<noteq> CHR ''}''"

lemma digit_start: "is_ascii_digit c \<Longrightarrow> value_start (c # s) \<and> \<not> open_ch c"
  by (auto simp: value_start_def json_ws_def open_ch_def is_ascii_digit_def ord_def)

lemma minus_start: "value_start (CHR ''-'' # s) \<and> \<not> open_ch (CHR ''-'')"
  by (simp add: value_start_def json_ws_def open_ch_def ord_def)

lemma number_start: "json_number s = Some (v, r) \<Longrightarrow> value_start s \<and> \<not> open_ch (hd s)"
  by (drule json_number_start) (elim disjE exE conjE; use digit_start minus_start in simp)

lemma literal_start: "(l, v) \<in> set json_literals \<Longrightarrow> value_start l \<and> \<not> open_ch (hd l)"
  by (auto simp: json_literals_def value_start_def json_ws_def open_ch_def ord_def)

lemma text_atom:
  assumes "wf_json v" and "\<nexists>s. v = PStr s" and "\<nexists>xs. v = PList xs" and "\<nexists>d. v = PDict d"
  shows "value_start (json_text esc v) \<and> \<not> open_ch (hd (json_text esc v)) \<and>
     (\<forall>t. num_end t \<longrightarrow> json_atom (json_text esc v @ t) = Some (v, t))"
proof -
  have lit: "(l, v) \<in> set json_literals \<Longrightarrow> json_text esc v = l \<Longrightarrow> ?thesis" for l
    using literal_start atom_literal by auto
  show ?thesis
  proof (cases v)
    case PNone
    then show ?thesis by (intro lit [of "''null''"]) (simp_all add: json_literals_def)
  next
    case (PBool b)
    then show ?thesis
      by (intro lit [of "if b then ''true'' else ''false''"]) (auto simp: json_literals_def)
  next
    case (PInt i)
    then show ?thesis
      using number_start [OF json_number_show [of "[]" i]] atom_int by (simp add: num_end_def)
  next
    case (PFloat s)
    show ?thesis
    proof (cases "s \<in> {''inf'', ''-inf'', ''nan''}")
      case True
      then show ?thesis using PFloat
        by (intro lit [of "json_text esc v"]) (auto simp: json_literals_def)
    next
      case False
      then show ?thesis
        using PFloat assms(1) number_start atom_number by (auto simp: float_text_def)
    qed
  qed (use assms in auto)
qed

lemma text_start: "wf_json v \<Longrightarrow> value_start (json_text esc v)"
  using text_atom [of v esc]
  by (cases v) (auto simp: value_start_def json_ws_def json_str_def ord_def)

lemma skip_start: "value_start s \<Longrightarrow> json_skip (s @ t) = s @ t"
  by (cases s) (auto simp: value_start_def)

lemma skip_blank: "json_skip (CHR '' '' # s) = json_skip s"
  by (simp add: json_ws_def ord_def)

lemma ws_punct [simp]:
  "\<not> json_ws (CHR '':'')" "\<not> json_ws (CHR '','')" "\<not> json_ws (CHR ''}'')"
  "\<not> json_ws (CHR '']'')" "json_ws (CHR '' '')" "\<not> json_ws (CHR 0x22)"
  by (simp_all add: json_ws_def ord_def)

lemma read_string: "esc_ok esc \<Longrightarrow> json_str esc s @ t = CHR 0x22 # concat (map esc s) @ CHR 0x22 # t"
  by (simp add: json_str_def)

text \<open>A value that is read back with enough fuel, whatever follows it.\<close>

definition reads :: "(char \<Rightarrow> string) \<Rightarrow> pyval \<Rightarrow> bool" where
  "reads esc v \<longleftrightarrow> (\<forall>n t. length (json_text esc v) < n \<longrightarrow> num_end t \<longrightarrow>
     json_value n (json_text esc v @ t) = Some (v, t))"

lemma elems_read:
  assumes "xs \<noteq> []" and "\<forall>x \<in> set xs. reads esc x \<and> wf_json x"
    and "Suc (length (join_with '', '' (map (json_text esc) xs))) < n"
  shows "json_elems n acc (join_with '', '' (map (json_text esc) xs) @ CHR '']'' # t) = Some (acc @ xs, t)"
  using assms
proof (induction xs arbitrary: n acc)
  case (Cons x xs)
  obtain m where n: "n = Suc m" using Cons.prems(3) by (cases n) auto
  have x: "reads esc x" using Cons.prems(2) by simp
  show ?case
  proof (cases "xs = []")
    case True
    have "json_value m (json_text esc x @ CHR '']'' # t) = Some (x, CHR '']'' # t)"
      using x Cons.prems(3) n True close_num_end by (simp add: reads_def)
    then show ?thesis unfolding n json_elems_Suc using True by simp
  next
    case False
    let ?rest = "join_with '', '' (map (json_text esc) xs)"
    have j: "join_with '', '' (map (json_text esc) (x # xs)) = json_text esc x @ '', '' @ ?rest"
      using False by (simp add: join_with_Cons)
    have "json_value m (json_text esc x @ CHR '','' # CHR '' '' # ?rest @ CHR '']'' # t)
        = Some (x, CHR '','' # CHR '' '' # ?rest @ CHR '']'' # t)"
      using x Cons.prems(3) n j close_num_end by (simp add: reads_def)
    moreover have "value_start ?rest"
    proof -
      obtain y ys where ys: "xs = y # ys" using False by (cases xs) auto
      then have "value_start (json_text esc y)" using Cons.prems(2) text_start by auto
      then show ?thesis using ys by (cases ys) (auto simp: value_start_def hd_append)
    qed
    then have "json_skip (CHR '' '' # ?rest @ CHR '']'' # t) = ?rest @ CHR '']'' # t"
      by (simp only: skip_blank skip_start)
    moreover have "json_elems m (acc @ [x]) (?rest @ CHR '']'' # t) = Some ((acc @ [x]) @ xs, t)"
      using Cons.prems n j by (intro Cons.IH [OF False]) auto
    ultimately show ?thesis unfolding n json_elems_Suc j by simp
  qed
qed simp

abbreviation member_text :: "(char \<Rightarrow> string) \<Rightarrow> string \<times> pyval \<Rightarrow> string" where
  "member_text esc \<equiv> (\<lambda>(k, v). json_str esc k @ '': '' @ json_text esc v)"

lemma members_read:
  assumes "esc_ok esc" and "d \<noteq> []" and "\<forall>(k, v) \<in> set d. reads esc v \<and> wf_json v"
    and "distinct (map fst (acc @ d))"
    and "Suc (length (join_with '', '' (map (member_text esc) d))) < n"
  shows "json_members n acc (join_with '', '' (map (member_text esc) d) @ CHR ''}'' # t) = Some (acc @ d, t)"
  using assms(2-)
proof (induction d arbitrary: n acc)
  case (Cons kv d)
  obtain k v where kv: "kv = (k, v)" by fastforce
  obtain m where n: "n = Suc m" using Cons.prems(4) by (cases n) auto
  have v: "reads esc v" "value_start (json_text esc v)" using Cons.prems(2) kv text_start by auto
  have new: "dict_set acc k v = acc @ [(k, v)]"
    using Cons.prems(3) kv by (intro dict_set_new) auto
  have head: "json_string (concat (map esc k) @ CHR 0x22 # r) = Some (k, r)" for r
    by (rule json_string_esc [OF assms(1)])
  have skip: "json_skip (CHR '' '' # json_text esc v @ r) = json_text esc v @ r" for r
    using skip_start [OF v(2)] by (simp only: skip_blank)
  have val: "json_value m (json_text esc v @ r) = Some (v, r)"
    if "Suc (length (member_text esc (k, v))) < n" "num_end r" for r
    using v(1) that n by (simp add: reads_def)
  show ?case
  proof (cases "d = []")
    case True
    have "json_value m (json_text esc v @ CHR ''}'' # t) = Some (v, CHR ''}'' # t)"
      using val Cons.prems(4) kv True close_num_end by simp
    then show ?thesis unfolding n json_members_Suc
      using head skip new kv True by (simp add: json_str_def)
  next
    case False
    let ?rest = "join_with '', '' (map (member_text esc) d)"
    have j: "join_with '', '' (map (member_text esc) (kv # d)) = member_text esc (k, v) @ '', '' @ ?rest"
      using False kv by (simp add: join_with_Cons)
    have 1: "json_value m (json_text esc v @ CHR '','' # CHR '' '' # ?rest @ CHR ''}'' # t)
        = Some (v, CHR '','' # CHR '' '' # ?rest @ CHR ''}'' # t)"
      using val Cons.prems(4) j close_num_end by simp
    have "value_start ?rest"
    proof -
      obtain l w d' where d: "d = (l, w) # d'" using False by (cases d) auto
      have "value_start (json_str esc l @ x)" for x
        by (simp add: json_str_def value_start_def)
      then show ?thesis using d by (cases d') (auto simp: value_start_def hd_append)
    qed
    then have 2: "json_skip (CHR '' '' # ?rest @ CHR ''}'' # t) = ?rest @ CHR ''}'' # t"
      by (simp only: skip_blank skip_start)
    have 3: "json_members m (acc @ [(k, v)]) (?rest @ CHR ''}'' # t) = Some ((acc @ [(k, v)]) @ d, t)"
      using Cons.prems n j kv by (intro Cons.IH [OF False]) auto
    show ?thesis unfolding n json_members_Suc j
      using 1 2 3 head skip new kv by (simp add: json_str_def)
  qed
qed simp

lemma join_Cons_text: "xs \<noteq> [] \<Longrightarrow> \<exists>u. join_with sep xs = hd xs @ u"
  by (cases xs; cases "tl xs") auto

lemma wf_reads: "esc_ok esc \<Longrightarrow> wf_json v \<Longrightarrow> reads esc v"
proof (induction v)
  case (PStr s)
  then show ?case
    using json_string_esc by (auto simp: reads_def json_str_def gr0_conv_Suc dest!: less_imp_Suc_add)
next
  case (PList xs)
  have el: "\<forall>x \<in> set xs. reads esc x \<and> wf_json x" using PList by (auto simp: list_all_iff)
  show ?case unfolding reads_def
  proof (intro allI impI)
    fix n t assume n: "length (json_text esc (PList xs)) < n" and "num_end t"
    then obtain m where m: "n = Suc m" by (cases n) auto
    show "json_value n (json_text esc (PList xs) @ t) = Some (PList xs, t)"
    proof (cases xs)
      case Nil
      then show ?thesis unfolding m json_value_Suc by simp
    next
      case (Cons x ys)
      let ?j = "join_with '', '' (map (json_text esc) xs)"
      have r: "json_elems m [] (?j @ CHR '']'' # t) = Some (xs, t)"
        using elems_read [of xs esc m "[]" t] el n m Cons by simp
      obtain u where u: "?j = json_text esc x @ u" using join_Cons_text [of "map (json_text esc) xs"] Cons by auto
      have "value_start (json_text esc x)" using el Cons text_start by auto
      then obtain c cs where "?j @ CHR '']'' # t = c # cs" "c \<noteq> CHR '']''" "\<not> json_ws c"
        unfolding u by (cases "json_text esc x") (auto simp: value_start_def)
      then show ?thesis unfolding m json_value_Suc using r by simp
    qed
  qed
next
  case (PDict d)
  have el: "\<forall>(k, v) \<in> set d. reads esc v \<and> wf_json v" using PDict by (fastforce simp: list_all_iff)
  show ?case unfolding reads_def
  proof (intro allI impI)
    fix n t assume n: "length (json_text esc (PDict d)) < n" and "num_end t"
    then obtain m where m: "n = Suc m" by (cases n) auto
    show "json_value n (json_text esc (PDict d) @ t) = Some (PDict d, t)"
    proof (cases d)
      case Nil
      then show ?thesis unfolding m json_value_Suc by simp
    next
      case (Cons kv ys)
      let ?j = "join_with '', '' (map (member_text esc) d)"
      have r: "json_members m [] (?j @ CHR ''}'' # t) = Some (d, t)"
        using members_read [OF PDict.prems(1), of d "[]" m t] el n m Cons PDict.prems(2) by simp
      obtain u where u: "?j = member_text esc kv @ u"
        using join_Cons_text [of "map (member_text esc) d"] Cons by auto
      then obtain cs where "?j @ CHR ''}'' # t = CHR 0x22 # cs"
        by (cases kv) (auto simp: json_str_def)
      then show ?thesis unfolding m json_value_Suc using r by simp
    qed
  qed
qed (use text_atom in \<open>fastforce simp: reads_def value_start_def json_value_Suc
       simp del: json_text.simps wf_json.simps json_value.simps dest: less_imp_Suc_add\<close>)+

section \<open>Fuel\<close>

lemma json_string_shorter: "json_string s = Some (x, r) \<Longrightarrow> length r < length s"
proof (induction s arbitrary: x r rule: json_string.induct)
  case (2 c cs)
  show ?case
  proof (cases "c = CHR 0x22 \<or> c \<noteq> CHR 0x5C")
    case True
    then show ?thesis using "2.prems" "2.IH"(3) by (fastforce split: if_splits)
  next
    case False
    then obtain e cs' where cs: "cs = e # cs'" using "2.prems" by (cases cs) auto
    show ?thesis
    proof (cases "e = CHR ''u''")
      case u: True
      then obtain a b p q cs'' where cs': "cs' = a # b # p # q # cs''"
        using "2.prems" False cs by (auto split: list.splits)
      then show ?thesis using "2.prems" "2.IH"(1) [OF _ _ cs u cs'] False cs u
        by (fastforce split: option.splits)
    next
      case nu: False
      then show ?thesis using "2.prems" "2.IH"(2) [OF _ _ cs nu] False cs
        by (fastforce split: option.splits)
    qed
  qed
qed simp

lemma skip_shorter: "json_skip s = c # u \<Longrightarrow> length u < length s"
  using length_dropWhile_le [of json_ws s] by auto

lemma lex_shorter:
  "lex_int s = Some (d, r) \<Longrightarrow> length r < length s"
  "lex_frac s = (f, r) \<Longrightarrow> length r \<le> length s"
  "lex_exp s = (x, r) \<Longrightarrow> length r \<le> length s"
proof -
  show "lex_int s = Some (d, r) \<Longrightarrow> length r < length s"
    by (cases s) (auto simp: lex_int_def le_imp_less_Suc length_dropWhile_le split: if_splits)
  show "lex_frac s = (f, r) \<Longrightarrow> length r \<le> length s"
    by (cases s) (auto simp: lex_frac_def le_SucI length_dropWhile_le split: if_splits)
  have "lex_sign u = (g, r') \<Longrightarrow> length (dropWhile P r') \<le> length u" for u g r' P
    using length_dropWhile_le [of P r'] by (cases u) (auto simp: lex_sign_def split: if_splits)
  then show "lex_exp s = (x, r) \<Longrightarrow> length r \<le> length s"
    by (cases s) (auto simp: lex_exp_def Let_def le_SucI split: if_splits prod.splits)
qed

lemma json_atom_shorter:
  assumes "json_atom s = Some (v, r)"
  shows "length r < length s"
proof (cases "List.find (\<lambda>(l, v). starts_with l s) json_literals")
  case (Some p)
  obtain l w where p: "p = (l, w)" by fastforce
  then have "(l, w) \<in> set json_literals" "starts_with l s"
    using Some by (auto simp: find_Some_iff in_set_conv_nth)
  then have "l \<noteq> []" "length l \<le> length s"
    by (auto simp: json_literals_def starts_with_def dest: arg_cong [of _ _ length])
  then show ?thesis using assms Some p by (cases l) (auto simp: json_atom_def)
next
  case None
  then have "json_number s = Some (v, r)" using assms by (simp add: json_atom_def)
  then obtain s1 d s2 f s3 x where "lex_int s1 = Some (d, s2)" "lex_frac s2 = (f, s3)" "lex_exp s3 = (x, r)"
    and "length s1 \<le> length s"
    by (auto simp: json_number_def Let_def split: option.splits prod.splits if_splits)
  then show ?thesis using lex_shorter(1) [of s1 d s2] lex_shorter(2) [of s2 f s3] lex_shorter(3) [of s3 x r]
    by linarith
qed

lemma json_shorter:
  "json_value n s = Some (v, r) \<Longrightarrow> length r < length s"
  "json_members n acc s = Some (d, r) \<Longrightarrow> length r < length s"
  "json_elems n acc' s = Some (xs, r) \<Longrightarrow> length r < length s"
proof (induction n arbitrary: s v r acc d acc' xs)
  case (Suc n)
  {
    case 1
    show ?case using 1 unfolding json_value_Suc
      by (elim disjE exE conjE)
        (use json_string_shorter skip_shorter json_atom_shorter Suc.IH(2,3) in \<open>fastforce dest: less_trans\<close>)+
  next
    case 2
    then obtain cs k r1 r2 v r3 e r4 where m: "s = CHR 0x22 # cs" "json_string cs = Some (k, r1)"
        "json_skip r1 = CHR '':'' # r2" "json_value n (json_skip r2) = Some (v, r3)"
        "json_skip r3 = e # r4" and alt: "r = r4 \<or> json_members n (dict_set acc k v) (json_skip r4) = Some (d, r)"
      unfolding json_members_Suc by blast
    have "length r \<le> length r4"
      using alt Suc.IH(2) [of "dict_set acc k v" "json_skip r4" d r] length_dropWhile_le [of json_ws r4] by auto
    then show ?case
      using json_string_shorter [OF m(2)] skip_shorter [OF m(3)] Suc.IH(1) [OF m(4)] skip_shorter [OF m(5)]
        length_dropWhile_le [of json_ws r2] m(1) by simp
  next
    case 3
    then obtain v r3 e r4 where m: "json_value n s = Some (v, r3)" "json_skip r3 = e # r4"
      and alt: "r = r4 \<or> json_elems n (acc' @ [v]) (json_skip r4) = Some (xs, r)"
      unfolding json_elems_Suc by blast
    have "length r \<le> length r4"
      using alt Suc.IH(3) [of "acc' @ [v]" "json_skip r4" xs r] length_dropWhile_le [of json_ws r4] by auto
    then show ?case using Suc.IH(1) [OF m(1)] skip_shorter [OF m(2)] by simp
  }
qed simp_all

lemma json_fuel:
  "2 * length s < n \<Longrightarrow> 2 * length s < m \<Longrightarrow> json_value n s = json_value m s"
  "2 * length s < n \<Longrightarrow> 2 * length s < m \<Longrightarrow> json_members n acc s = json_members m acc s"
  "2 * length s + 1 < n \<Longrightarrow> 2 * length s + 1 < m \<Longrightarrow> json_elems n acc' s = json_elems m acc' s"
proof (induction n arbitrary: m s acc acc')
  case (Suc n)
  {
    case 1
    then obtain k where m: "m = Suc k" by (cases m) auto
    have mem: "json_members n [] (d # ds) = json_members k [] (d # ds)"
      and el: "json_elems n [] (d # ds) = json_elems k [] (d # ds)"
      if "s = c # cs" "json_skip cs = d # ds" for c cs d ds
      using 1 m skip_shorter [OF that(2)] that(1)
      by (auto intro!: Suc.IH(2) Suc.IH(3))
    show ?case unfolding m by (cases s) (auto simp: mem el simp del: dropWhile_eq_Nil_conv split: list.split)
  next
    case 2
    then obtain k where m: "m = Suc k" by (cases m) auto
    have val: "json_value n (json_skip r2) = json_value k (json_skip r2)"
      if "s = c # cs" "json_string cs = Some (x, r1)" "json_skip r1 = e # r2" for c cs x r1 e r2
      using 2 m that(1) json_string_shorter [OF that(2)] skip_shorter [OF that(3)]
        length_dropWhile_le [of json_ws r2]
      by (intro Suc.IH(1)) auto
    have mem: "json_members n a (json_skip r4) = json_members k a (json_skip r4)"
      if "s = c # cs" "json_string cs = Some (x, r1)" "json_skip r1 = e # r2"
        "json_value k (json_skip r2) = Some (v, r3)" "json_skip r3 = f # r4" for c cs x r1 e r2 v r3 f r4 a
      using 2 m that(1) json_string_shorter [OF that(2)] skip_shorter [OF that(3)] skip_shorter [OF that(5)]
        json_shorter(1) [OF that(4)] length_dropWhile_le [of json_ws r2] length_dropWhile_le [of json_ws r4]
      by (intro Suc.IH(2)) auto
    show ?case unfolding m
      by (cases s) (auto simp: val mem simp del: dropWhile_eq_Nil_conv split: list.split option.split)
  next
    case 3
    then obtain k where m: "m = Suc k" by (cases m) auto
    have val: "json_value n s = json_value k s" using 3 m by (intro Suc.IH(1)) auto
    have el: "json_elems n a (json_skip r4) = json_elems k a (json_skip r4)"
      if "json_value k s = Some (v, r3)" "json_skip r3 = f # r4" for v r3 f r4 a
      using 3 m json_shorter(1) [OF that(1)] skip_shorter [OF that(2)] length_dropWhile_le [of json_ws r4]
      by (intro Suc.IH(3)) auto
    show ?case unfolding m
      by (auto simp: val el simp del: dropWhile_eq_Nil_conv split: list.split option.split)
  }
qed simp_all

section \<open>Lines\<close>

lemma reads_end: "reads esc v \<Longrightarrow> length (json_text esc v) < n \<Longrightarrow> json_value n (json_text esc v @ []) = Some (v, [])"
  unfolding reads_def num_end_def by blast

lemma json_loads_text:
  assumes "esc_ok esc" and "wf_json v"
  shows "json_loads (json_text esc v) = Some v"
proof -
  let ?s = "json_text esc v"
  have "json_skip ?s = ?s" using skip_start [OF text_start [OF assms(2)], where t = "[]"] by simp
  moreover have "json_value (Suc (2 * length ?s)) (?s @ []) = Some (v, [])"
    by (rule reads_end [OF wf_reads [OF assms]]) simp
  ultimately show ?thesis by (simp add: json_loads_def)
qed

text \<open>A line cut short: no proper prefix of a written object is a JSON text.\<close>

lemma json_loads_torn:
  assumes "esc_ok esc" and "wf_json (PDict d)" and "k < length (json_text esc (PDict d))"
  shows "json_loads (take k (json_text esc (PDict d))) = None"
proof (rule ccontr)
  let ?s = "json_text esc (PDict d)"
  assume "json_loads (take k ?s) \<noteq> None"
  then obtain w r where v: "json_value (Suc (2 * length (take k ?s))) (json_skip (take k ?s)) = Some (w, r)"
    by (auto simp: json_loads_def split: option.splits)
  have "k \<noteq> 0" using v by (cases k) auto
  then obtain u where u: "take k ?s = CHR ''{'' # u" by (cases k) auto
  have skip: "json_skip (take k ?s) = take k ?s" unfolding u by (simp add: json_ws_def ord_def)
  let ?n = "Suc (2 * length ?s)"
  have "json_value ?n (take k ?s) = json_value (Suc (2 * length (take k ?s))) (take k ?s)"
    by (rule json_fuel) (simp_all del: json_text.simps)
  then have "json_value ?n (take k ?s) = Some (w, r)" using v unfolding skip by (rule trans)
  from json_ext(1) [OF this, of "drop k ?s"] have "json_value ?n ?s = Some (w, r @ drop k ?s)"
    using u by (simp add: open_ch_def)
  moreover have "json_value ?n (?s @ []) = Some (PDict d, [])"
    by (rule reads_end [OF wf_reads [OF assms(1,2)]]) simp
  ultimately show False using assms(3) by simp
qed

end
