(* ===== verification/Jsonl.thy ===== *)
theory Jsonl
  imports Json_Roundtrip Errors_Wire
begin

text \<open>
  Append-only JSONL files, the storage form of the file mirror, of the task log and of the
  result files: one \<open>json.dumps(record, ensure_ascii=False)\<close> per line, read back by iterating
  over the lines. A log is a set of partitions, each a text; \<open>append_log\<close> is the interface
  the services rely on.
\<close>

section \<open>Lines of a text file\<close>

text \<open>Universal newlines: what reading in text mode makes of line ends.\<close>

fun universal_nl :: "string \<Rightarrow> string" where
  "universal_nl [] = []"
| "universal_nl (c # cs) =
     (if c = CHR 0x0D then
        newline # (case cs of d # ds \<Rightarrow> if d = newline then universal_nl ds else universal_nl cs | [] \<Rightarrow> [])
      else c # universal_nl cs)"

definition drop_last_empty :: "string list \<Rightarrow> string list" where
  "drop_last_empty ls = (if ls \<noteq> [] \<and> last ls = [] then butlast ls else ls)"

definition py_lines :: "string \<Rightarrow> string list" where
  "py_lines s = drop_last_empty (split_on newline (universal_nl s))"

text \<open>\<open>line.strip()\<close>, blank lines skipped; \<open>None\<close> is a line \<open>json.loads\<close> refuses.\<close>

definition line_values :: "string \<Rightarrow> pyval option list" where
  "line_values s = map json_loads (filter (\<lambda>l. l \<noteq> []) (map py_strip (py_lines s)))"

text \<open>Reading that skips bad lines, and reading that raises on the first.\<close>

definition read_tolerant :: "string \<Rightarrow> pyval list" where
  "read_tolerant s = map the (filter (\<lambda>v. v \<noteq> None) (line_values s))"

definition read_strict :: "string \<Rightarrow> pyval list res" where
  "read_strict s = mapR (\<lambda>v. case v of None \<Rightarrow> raise PyValueError ''JSONDecodeError'' | Some w \<Rightarrow> Inr w)
     (line_values s)"

definition append_line :: "string \<Rightarrow> pyval \<Rightarrow> string res" where
  "append_line txt v = (case json_line v of
       None \<Rightarrow> raise PyTypeError ''not JSON serializable''
     | Some l \<Rightarrow> Inr (txt @ l @ [newline]))"

section \<open>Appending and reading back\<close>

text \<open>A text that ends with a line end, so that the next line starts a line.\<close>

definition clean_text :: "string \<Rightarrow> bool" where
  "clean_text t \<longleftrightarrow> t = [] \<or> last t = newline"

definition printable :: "string \<Rightarrow> bool" where
  "printable s \<longleftrightarrow> (\<forall>c \<in> set s. 32 \<le> ord c)"

lemma printable_simps [simp]:
  "printable []" "printable (c # s) \<longleftrightarrow> 32 \<le> ord c \<and> printable s"
  "printable (s @ t) \<longleftrightarrow> printable s \<and> printable t"
  "printable (concat ss) \<longleftrightarrow> (\<forall>s \<in> set ss. printable s)"
  by (auto simp: printable_def)

lemma ord_newline: "ord newline = 10" "ord (CHR 0x0D) = 13"
  by (simp_all add: newline_def ord_def)

lemma printable_no_nl: "printable s \<Longrightarrow> newline \<notin> set s \<and> CHR 0x0D \<notin> set s"
  using ord_newline by (auto simp: printable_def)

lemma printable_join: "printable sep \<Longrightarrow> \<forall>s \<in> set ss. printable s \<Longrightarrow> printable (join_with sep ss)"
  by (induction sep ss rule: join_with.induct) auto

lemma printable_digits: "list_all is_ascii_digit s \<Longrightarrow> printable s"
  by (auto simp: printable_def list_all_iff is_ascii_digit_def)

lemma printable_show_int: "printable (show_int i)"
  using printable_digits [OF show_nat_digits] by (auto simp: show_int_def ord_def)

lemma printable_hex: "n < 256 \<Longrightarrow> printable (hex2 n)"
proof -
  have "k < 16 \<Longrightarrow> 32 \<le> ord (hex_digit k)" for k by auto
  moreover assume "n < 256"
  then have "n div 16 < 16" by auto
  ultimately show ?thesis by (simp add: hex2_def del: hex_digit.simps)
qed

lemma printable_raw: "printable (json_char_raw c)"
proof (cases "json_short c")
  case None
  then show ?thesis using printable_hex [of "ord c"]
    by (auto simp: json_char_raw_def json_u_def) (simp_all add: ord_def)
next
  case (Some s)
  then show ?thesis
    by (auto simp: json_char_raw_def json_short_def Let_def ord_codes split: if_splits)
      (simp_all add: ord_def)
qed

lemma printable_str: "printable (json_str json_char_raw s)"
  by (auto simp: json_str_def printable_raw) (simp_all add: ord_def)

lemma takeWhile_printable: "printable (takeWhile is_ascii_digit s)"
  by (rule printable_digits) (auto simp: list_all_iff dest: set_takeWhileD)

lemma lex_printable:
  "lex_int s = Some (d, r) \<Longrightarrow> s = d @ r \<and> printable d"
  "lex_frac s = (f, r) \<Longrightarrow> s = f @ r \<and> printable f"
  "lex_exp s = (x, r) \<Longrightarrow> s = x @ r \<and> printable x"
proof -
  have ch: "32 \<le> ord (CHR ''0'')" "32 \<le> ord (CHR ''.'')" "32 \<le> ord (CHR ''e'')" "32 \<le> ord (CHR ''E'')"
    "32 \<le> ord (CHR ''+'')" "32 \<le> ord (CHR ''-'')"
    by (simp_all add: ord_def)
  have dig: "is_ascii_digit c \<Longrightarrow> 32 \<le> ord c" for c by (simp add: is_ascii_digit_def)
  show "lex_int s = Some (d, r) \<Longrightarrow> s = d @ r \<and> printable d"
    by (cases s) (auto simp: lex_int_def ch dig takeWhile_printable split: if_splits)
  show "lex_frac s = (f, r) \<Longrightarrow> s = f @ r \<and> printable f"
    by (cases s) (auto simp: lex_frac_def ch takeWhile_printable split: if_splits)
  have sg: "lex_sign u = (g, r') \<Longrightarrow> u = g @ r' \<and> printable g" for u g r'
    by (cases u) (auto simp: lex_sign_def ch split: if_splits)
  show "lex_exp s = (x, r) \<Longrightarrow> s = x @ r \<and> printable x"
    by (cases s) (auto simp: lex_exp_def Let_def ch takeWhile_printable split: if_splits prod.splits dest!: sg)
qed

lemma printable_number:
  assumes "json_number s = Some (v, [])"
  shows "printable s"
proof -
  obtain s1 d s2 f s3 x where l: "lex_int s1 = Some (d, s2)" "lex_frac s2 = (f, s3)" "lex_exp s3 = (x, [])"
    and s: "s = s1 \<or> s = CHR ''-'' # s1"
    using assms
    by (cases s) (auto simp: json_number_def Let_def split: option.splits prod.splits if_splits)
  then have "printable s1"
    using lex_printable(1) [OF l(1)] lex_printable(2) [OF l(2)] lex_printable(3) [OF l(3)] by simp
  with s show ?thesis by (auto simp: ord_def)
qed

lemma printable_text: "wf_json v \<Longrightarrow> printable (json_text json_char_raw v)"
proof (induction v)
  case (PFloat s)
  show ?case
  proof (cases "s \<in> {''inf'', ''-inf'', ''nan''}")
    case True
    then show ?thesis by (elim insertE emptyE) (simp_all add: ord_def)
  next
    case False
    then have "json_number s = Some (PFloat s, [])" using PFloat by (simp add: float_text_def)
    then show ?thesis using printable_number False by simp
  qed
next
  case (PList xs)
  then have "printable (join_with '', '' (map (json_text json_char_raw) xs))"
    by (intro printable_join) (auto simp: list_all_iff ord_def)
  then show ?case by (simp add: ord_def)
next
  case (PDict d)
  then have "printable (join_with '', '' (map (member_text json_char_raw) d))"
    using printable_str by (intro printable_join) (fastforce simp: list_all_iff ord_def)+
  then show ?case by (simp add: ord_def)
qed (simp_all add: printable_show_int printable_str ord_def)

lemma universal_nl_id: "CHR 0x0D \<notin> set s \<Longrightarrow> universal_nl (s @ t) = s @ universal_nl t"
  by (induction s) auto

lemma universal_nl_newline:
  "universal_nl (s @ newline # t) = universal_nl (s @ [newline]) @ universal_nl t"
proof (induction s rule: universal_nl.induct)
  case 1
  have "newline \<noteq> CHR 0x0D" by (simp add: newline_def)
  then show ?case by simp
next
  case (2 c cs)
  show ?case
  proof (cases cs)
    case Nil
    then show ?thesis by (simp add: newline_def)
  next
    case (Cons d ds)
    then show ?thesis using 2 by auto
  qed
qed

lemma split_on_newline: "split_on c (s @ c # t) = split_on c s @ split_on c t"
  by (induction s) (auto simp: Let_def split: list.splits)

lemma universal_nl_clean: "universal_nl (s @ [newline]) \<noteq> [] \<and> last (universal_nl (s @ [newline])) = newline"
proof (induction s rule: universal_nl.induct)
  case 1
  then show ?case by (simp add: newline_def)
next
  case (2 c cs)
  show ?case
  proof (cases cs)
    case Nil
    then show ?thesis by (simp add: newline_def)
  next
    case (Cons d ds)
    then show ?thesis using 2 by auto
  qed
qed

lemma butlast_split_newline: "split_on c (s @ [c]) = split_on c s @ [[]]"
  using split_on_newline [of c s "[]"] by simp

lemma py_lines_clean:
  assumes "clean_text s"
  shows "py_lines (s @ t) = py_lines s @ py_lines t"
proof (cases "s = []")
  case True
  have "py_lines [] = []" by (simp add: py_lines_def drop_last_empty_def)
  then show ?thesis using True by simp
next
  case False
  then obtain u where s: "s = u @ [newline]"
    using assms by (metis append_butlast_last_id clean_text_def)
  obtain w where w: "universal_nl s = w @ [newline]"
    using universal_nl_clean [of u] s by (metis append_butlast_last_id)
  have "universal_nl (s @ t) = w @ newline # universal_nl t"
    using universal_nl_newline [of u t] w s by simp
  then have "split_on newline (universal_nl (s @ t)) = split_on newline w @ split_on newline (universal_nl t)"
    by (simp add: split_on_newline)
  moreover have "py_lines s = split_on newline w"
    using w by (simp add: py_lines_def drop_last_empty_def butlast_split_newline)
  ultimately show ?thesis
    by (auto simp: py_lines_def drop_last_empty_def butlast_append)
qed

lemma py_lines_one: "printable l \<Longrightarrow> py_lines (l @ [newline]) = [l]"
  using printable_no_nl [of l] universal_nl_id [of l "[newline]"]
  by (simp add: py_lines_def drop_last_empty_def butlast_split_newline split_on_no_sep newline_def)

lemma py_lines_tail: "printable l \<Longrightarrow> l \<noteq> [] \<Longrightarrow> py_lines l = [l]"
  using printable_no_nl [of l] universal_nl_id [of l "[]"]
  by (simp add: py_lines_def drop_last_empty_def split_on_no_sep)

lemma line_values_clean: "clean_text s \<Longrightarrow> line_values (s @ t) = line_values s @ line_values t"
  by (simp add: line_values_def py_lines_clean)

text \<open>A written object starts and ends with a brace.\<close>

lemma object_text_ends:
  "\<exists>u. json_text esc (PDict d) = CHR ''{'' # u @ [CHR ''}'']"
  by simp

lemma strip_object: "py_strip (json_text esc (PDict d)) = json_text esc (PDict d)"
proof -
  have "\<not> is_space (CHR ''{'')" "\<not> is_space (CHR ''}'')" by (simp_all add: is_space_def ord_def)
  then show ?thesis by (intro strip_by_id) simp
qed

lemma line_values_line:
  assumes "wf_json (PDict d)"
  shows "line_values (json_text json_char_raw (PDict d) @ [newline]) = [Some (PDict d)]"
  using py_lines_one [OF printable_text [OF assms]] strip_object [of json_char_raw d]
    json_loads_text [OF esc_ok_raw assms]
  by (simp add: line_values_def del: json_text.simps) simp

lemma append_line_wf:
  "wf_json v \<Longrightarrow> append_line txt v = Inr (txt @ json_text json_char_raw v @ [newline])"
  by (simp add: append_line_def json_line_def wf_json_ok)

lemma clean_append: "clean_text (s @ t @ [newline])"
  by (simp add: clean_text_def)

lemma line_values_append:
  assumes "clean_text txt" and "wf_json (PDict d)" and "append_line txt (PDict d) = Inr txt'"
  shows "line_values txt' = line_values txt @ [Some (PDict d)]" and "clean_text txt'"
  using assms(3) line_values_clean [OF assms(1)] line_values_line [OF assms(2)]
  by (auto simp: append_line_wf [OF assms(2)] clean_text_def simp del: json_text.simps)

text \<open>A torn tail: the part of a line that reached the file before a crash.\<close>

lemma strip_torn:
  assumes "0 < k" and "k \<le> length (json_text esc (PDict d))"
  shows "\<exists>j. 0 < j \<and> j \<le> k \<and> py_strip (take k (json_text esc (PDict d))) = take j (json_text esc (PDict d))"
proof -
  let ?s = "json_text esc (PDict d)"
  obtain pre post where dec: "take k ?s = pre @ py_strip (take k ?s) @ post" and sp: "list_all is_space pre"
    by (rule strip_by_decomp)
  obtain u where u: "take k ?s = CHR ''{'' # u" using assms(1) by (cases k) auto
  have brace: "\<not> is_space (CHR ''{'')" by (simp add: is_space_def ord_def)
  have pre: "pre = []" using sp dec u brace by (cases pre) auto
  let ?j = "length (py_strip (take k ?s))"
  have "py_strip (take k ?s) \<noteq> []" using u brace by (simp add: strip_by_Nil_iff)
  moreover have "py_strip (take k ?s) = take ?j ?s" "?j \<le> k"
  proof -
    have "take ?j (take k ?s) = py_strip (take k ?s)" using dec pre by (metis append_Nil append_eq_conv_conj)
    moreover show "?j \<le> k" using length_strip_by [of is_space "take k ?s"] by (auto intro: le_trans)
    ultimately show "py_strip (take k ?s) = take ?j ?s" by (simp add: min_absorb1)
  qed
  ultimately show ?thesis by (intro exI [of _ ?j]) simp
qed

lemma printable_take: "printable s \<Longrightarrow> printable (take k s)"
  by (auto simp: printable_def dest: in_set_takeD)

lemma line_values_torn:
  assumes "clean_text txt" and "wf_json (PDict d)" and "0 < k" and "k < length (json_text json_char_raw (PDict d))"
  shows "line_values (txt @ take k (json_text json_char_raw (PDict d))) = line_values txt @ [None]"
proof -
  let ?s = "json_text json_char_raw (PDict d)"
  have p: "printable (take k ?s)" using printable_text [OF assms(2)] by (rule printable_take)
  have "take k ?s \<noteq> []" using assms(3,4) by (cases ?s) auto
  then have l: "py_lines (take k ?s) = [take k ?s]" by (rule py_lines_tail [OF p])
  obtain j where j: "0 < j" "j \<le> k" "py_strip (take k ?s) = take j ?s"
    using strip_torn [of k json_char_raw d] assms(3,4) by auto
  then have "json_loads (take j ?s) = None" using json_loads_torn [OF esc_ok_raw assms(2)] assms(4) by simp
  moreover have "take j ?s \<noteq> []" using j by (cases j) auto
  ultimately show ?thesis using l j by (simp add: line_values_clean [OF assms(1)], simp add: line_values_def)
qed

section \<open>Partitioned logs\<close>

text \<open>A directory of JSONL files: the partition key decides the file.\<close>

type_synonym 'k jlog = "('k, string) dict"

definition log_text :: "'k jlog \<Rightarrow> 'k \<Rightarrow> string" where
  "log_text m k = (case map_of m k of None \<Rightarrow> [] | Some t \<Rightarrow> t)"

definition log_append :: "'k jlog \<Rightarrow> 'k \<Rightarrow> pyval \<Rightarrow> 'k jlog res" where
  "log_append m k v = bindR (append_line (log_text m k) v) (\<lambda>t. Inr (dict_set m k t))"

definition log_ok :: "'k jlog \<Rightarrow> bool" where
  "log_ok m \<longleftrightarrow> (\<forall>k. clean_text (log_text m k) \<and> None \<notin> set (line_values (log_text m k)))"

definition record_ok :: "pyval \<Rightarrow> bool" where
  "record_ok v \<longleftrightarrow> wf_json v \<and> (\<exists>d. v = PDict d)"

text \<open>
  The interface of an append-only log: appending a proper record succeeds, adds it at the end
  of its partition and touches no other. \<open>entries\<close> is what reading returns.
\<close>

locale append_log =
  fixes append :: "'l \<Rightarrow> 'k \<Rightarrow> 'r \<Rightarrow> 'l res"
    and entries :: "'l \<Rightarrow> 'k \<Rightarrow> 'r list"
    and inv :: "'l \<Rightarrow> bool"
    and proper :: "'r \<Rightarrow> bool"
  assumes append_total: "inv l \<Longrightarrow> proper r \<Longrightarrow> \<exists>l'. append l k r = Inr l'"
    and append_inv: "inv l \<Longrightarrow> proper r \<Longrightarrow> append l k r = Inr l' \<Longrightarrow> inv l'"
    and append_entries: "inv l \<Longrightarrow> proper r \<Longrightarrow> append l k r = Inr l' \<Longrightarrow>
       entries l' k' = (if k' = k then entries l k' @ [r] else entries l k')"
begin

fun append_all :: "'l \<Rightarrow> ('k \<times> 'r) list \<Rightarrow> 'l res" where
  "append_all l [] = Inr l"
| "append_all l (e # es) = bindR (append l (fst e) (snd e)) (\<lambda>l'. append_all l' es)"

lemma append_all_total:
  "inv l \<Longrightarrow> list_all (\<lambda>e. proper (snd e)) es \<Longrightarrow> \<exists>l'. append_all l es = Inr l' \<and> inv l' \<and>
     (\<forall>k. entries l' k = entries l k @ map snd (filter (\<lambda>e. fst e = k) es))"
proof (induction es arbitrary: l)
  case (Cons e es)
  obtain l1 where l1: "append l (fst e) (snd e) = Inr l1" using append_total Cons.prems by fastforce
  have "inv l1" using append_inv [OF _ _ l1] Cons.prems by simp
  from Cons.IH [OF this] Cons.prems obtain l' where l': "append_all l1 es = Inr l'" "inv l'"
    "\<forall>k. entries l' k = entries l1 k @ map snd (filter (\<lambda>e. fst e = k) es)" by auto
  then show ?case using l1 append_entries [OF _ _ l1] Cons.prems by auto
qed simp

text \<open>The last entry with a property, \<open>found = d\<close> in a scan of the whole partition.\<close>

definition last_entry :: "('r \<Rightarrow> bool) \<Rightarrow> 'l \<Rightarrow> 'k \<Rightarrow> 'r option" where
  "last_entry P l k = (case rev (filter P (entries l k)) of [] \<Rightarrow> None | r # _ \<Rightarrow> Some r)"

lemma last_entry_append:
  assumes "inv l" and "proper r" and "append l k r = Inr l'"
  shows "last_entry P l' k' = (if k' = k \<and> P r then Some r else last_entry P l k')"
  using append_entries [OF assms] by (auto simp: last_entry_def)

end

lemma log_text_set: "log_text (dict_set m k t) k' = (if k' = k then t else log_text m k')"
  by (simp add: log_text_def dict_get_set)

lemma log_append_Inr:
  assumes "log_ok m" and "record_ok v" and "log_append m k v = Inr m'"
  shows "line_values (log_text m' k') = (if k' = k then line_values (log_text m k') @ [Some v]
     else line_values (log_text m k'))" and "clean_text (log_text m' k')"
proof -
  obtain d where d: "v = PDict d" "wf_json (PDict d)" using assms(2) by (auto simp: record_ok_def)
  obtain t where t: "append_line (log_text m k) (PDict d) = Inr t" "m' = dict_set m k t"
    using assms(3) d by (auto simp: log_append_def bindR_Inr_iff)
  have c: "clean_text (log_text m j)" for j using assms(1) by (simp add: log_ok_def)
  show "line_values (log_text m' k') = (if k' = k then line_values (log_text m k') @ [Some v]
     else line_values (log_text m k'))" and "clean_text (log_text m' k')"
    using line_values_append [OF c d(2) t(1)] c d(1) t(2) by (auto simp: log_text_set)
qed

lemma log_ok_append:
  assumes "log_ok m" and "record_ok v" and "log_append m k v = Inr m'"
  shows "log_ok m'"
  unfolding log_ok_def
proof
  fix j
  have "None \<notin> set (line_values (log_text m j))" using assms(1) by (simp add: log_ok_def)
  then show "clean_text (log_text m' j) \<and> None \<notin> set (line_values (log_text m' j))"
    using log_append_Inr [OF assms, of j] by (auto split: if_splits)
qed

lemma log_append_total: "record_ok v \<Longrightarrow> \<exists>m'. log_append m k v = Inr m'"
  by (auto simp: log_append_def record_ok_def append_line_wf simp del: wf_json.simps)

definition log_entries :: "'k jlog \<Rightarrow> 'k \<Rightarrow> pyval list" where
  "log_entries m k = read_tolerant (log_text m k)"

interpretation jl: append_log log_append log_entries log_ok record_ok
proof
  show "\<exists>l'. log_append l k r = Inr l'" if "record_ok r" for l :: "'a jlog" and k r
    using that by (rule log_append_total)
  show "log_ok l'" if "log_ok l" "record_ok r" "log_append l k r = Inr l'" for l l' :: "'a jlog" and k r
    using that by (rule log_ok_append)
  show "log_entries l' k' = (if k' = k then log_entries l k' @ [r] else log_entries l k')"
    if "log_ok l" "record_ok r" "log_append l k r = Inr l'" for l l' :: "'a jlog" and k k' r
    using log_append_Inr(1) [OF that, of k'] by (simp add: log_entries_def read_tolerant_def)
qed

lemma log_ok_Nil: "log_ok []"
  by (simp add: log_ok_def log_text_def clean_text_def line_values_def py_lines_def drop_last_empty_def)

lemma read_strict_ok:
  "None \<notin> set (line_values s) \<Longrightarrow> read_strict s = Inr (read_tolerant s)"
proof -
  have "None \<notin> set vs \<Longrightarrow>
      mapR (\<lambda>v. case v of None \<Rightarrow> raise PyValueError m | Some w \<Rightarrow> Inr w) vs =
        Inr (map the (filter (\<lambda>v. v \<noteq> None) vs))" for vs :: "pyval option list" and m
  proof (induction vs)
    case (Cons v vs)
    then show ?case by (cases v) auto
  qed simp
  then show "None \<notin> set (line_values s) \<Longrightarrow> read_strict s = Inr (read_tolerant s)"
    by (simp add: read_strict_def read_tolerant_def)
qed

end
