(* ===== verification/Row_Store.thy ===== *)
theory Row_Store
  imports Sql_Text Embedding
begin

text \<open>
  The rows behind \<open>service/store_service.py\<close>: what the visibility predicate selects, and the
  write primitives (\<open>validate\<close>, \<open>_existing_keys\<close>, \<open>commit_rows\<close>, \<open>match_live\<close>, \<open>soft_delete\<close>,
  \<open>clear\<close>, the search indexes). A table is the list of its rows in insertion order, with its
  \<open>PRIMARY KEY\<close> read as not null and unique. DuckDB itself is a parameter where the code
  leaves a value to it: the conversion of a bound value to a column's type and the result of
  a \<open>SELECT\<close> with the caller's \<open>WHERE\<close> text.
\<close>

section \<open>Rows and the visibility predicate\<close>

record row =
  r_cells :: pyrow
  r_ds :: "string option"
  r_created_at :: "string option"
  r_deleted_ds :: "string option"
  r_deleted_at :: "string option"
  r_vec :: "(string, real list option) dict"
  r_tok :: "(string, string option) dict"

text \<open>A condition in a \<open>WHERE\<close>: a comparison with NULL is not true. Text compares by code points.\<close>

fun cond_holds :: "asof_cond \<Rightarrow> row \<Rightarrow> bool" where
  "cond_holds DeletedIsNull r = (r_deleted_ds r = None)"
| "cond_holds (DsLe d) r = (case r_ds r of None \<Rightarrow> False | Some s \<Rightarrow> s \<le> d)"
| "cond_holds (NotDeletedBy d) r = (case r_deleted_ds r of None \<Rightarrow> True | Some s \<Rightarrow> d < s)"
| "cond_holds (DsGe d) r = (case r_ds r of None \<Rightarrow> False | Some s \<Rightarrow> d \<le> s)"

definition visible :: "string option \<Rightarrow> string option \<Rightarrow> row \<Rightarrow> bool" where
  "visible ds_start ds_end r \<longleftrightarrow> list_all (\<lambda>c. cond_holds c r) (asof_conds ds_start ds_end)"

definition visible_rows :: "string option \<Rightarrow> string option \<Rightarrow> row list \<Rightarrow> row list" where
  "visible_rows ds_start ds_end rows = filter (visible ds_start ds_end) rows"

section \<open>The database\<close>

record lance_row =
  lr_pk :: string
  lr_cells :: "(real list option \<times> string option) list"

text \<open>
  Per table: its rows, the content of its BM25 index as of its last build (key and tokens of
  every row at that moment), and its side dataset.
\<close>

record db =
  db_rows :: "(string, row list) dict"
  db_fts :: "(string, (pyval \<times> string option list) list) dict"
  db_lance :: "(string, lance_row list) dict"

definition rows_of :: "db \<Rightarrow> string \<Rightarrow> row list" where
  "rows_of d t = (case map_of (db_rows d) t of None \<Rightarrow> [] | Some rs \<Rightarrow> rs)"

definition set_rows :: "db \<Rightarrow> string \<Rightarrow> row list \<Rightarrow> db" where
  "set_rows d t rs = d\<lparr>db_rows := dict_set (db_rows d) t rs\<rparr>"

text \<open>
  The parameters: \<open>x_conv sql_type v\<close> is the stored form of a bound value (or the conversion
  error), \<open>x_select d sql params\<close> the first column of a \<open>SELECT\<close>, run with the current-state
  views.
\<close>

record duck =
  x_conv :: "string \<Rightarrow> pyval \<Rightarrow> pyval res"
  x_select :: "db \<Rightarrow> string \<Rightarrow> pyval list \<Rightarrow> pyval list res"

text \<open>\<open>CAST(pk AS VARCHAR)\<close> of a stored text or integer.\<close>

definition pk_text :: "tablespec \<Rightarrow> row \<Rightarrow> string" where
  "pk_text spec r = py_str (dict_get (r_cells r) (ts_primary spec))"

section \<open>Validation\<close>

definition norm_record :: "tablespec \<Rightarrow> pyrow \<Rightarrow> pyrow" where
  "norm_record spec rw = map (\<lambda>c. (c, dict_get rw c)) (column_names spec)"

fun normalize_rows :: "tablespec \<Rightarrow> pyrow list \<Rightarrow> pyrow list res" where
  "normalize_rows spec [] = Inr []"
| "normalize_rows spec (rw # rws) =
     (if list_ex (\<lambda>(k, _). k \<notin> set (column_names spec)) rw
      then raise QueryError ''unknown column(s)''
      else bindR (normalize_rows spec rws) (\<lambda>rs. Inr (norm_record spec rw # rs)))"

definition record_key :: "tablespec \<Rightarrow> pyrow \<Rightarrow> string" where
  "record_key spec rec = py_str (dict_get rec (ts_primary spec))"

definition existing_keys :: "store_cfg \<Rightarrow> db \<Rightarrow> string \<Rightarrow> string list \<Rightarrow> string list res" where
  "existing_keys cfg d table keys =
     (if keys = [] then Inr []
      else bindR (schema_table (cfg_schema cfg) table) (\<lambda>spec.
           bindR (sql_ident (ts_primary spec)) (\<lambda>_.
           bindR (phys table) (\<lambda>_.
           Inr (filter (\<lambda>k. k \<in> set keys) (map (pk_text spec) (rows_of d table)))))))"

definition validate :: "store_cfg \<Rightarrow> db \<Rightarrow> string \<Rightarrow> pyrow list \<Rightarrow> bool \<Rightarrow> pyrow list res" where
  "validate cfg d table rws skip_existing =
     bindR (schema_table (cfg_schema cfg) table) (\<lambda>spec.
     bindR (normalize_rows spec rws) (\<lambda>records.
     if skip_existing then
       (let dedup = dedup_by (record_key spec) [] records in
        bindR (existing_keys cfg d table (map (record_key spec) dedup)) (\<lambda>existing.
        Inr (filter (\<lambda>r. record_key spec r \<notin> set existing) dedup)))
     else
       (let keys = map (record_key spec) records in
        if \<not> distinct keys then raise QueryError ''duplicate primary key within the insert batch''
        else bindR (existing_keys cfg d table keys) (\<lambda>existing.
             if existing \<noteq> [] then raise QueryError ''primary key already exists''
             else Inr records))))"

section \<open>Inserting\<close>

text \<open>The values bound for one record: \<open>json\<close> columns are dumped to text first.\<close>

definition bind_cell :: "column \<Rightarrow> pyrow \<Rightarrow> pyval res" where
  "bind_cell c rec = (let v = dict_get rec (c_name c) in
     if c_type c = ''json'' \<and> v \<noteq> PNone then
       (case json_dumps v of None \<Rightarrow> raise PyTypeError ''not JSON serializable'' | Some s \<Rightarrow> Inr (PStr s))
     else Inr v)"

definition col_at :: "('b option) list option \<Rightarrow> nat \<Rightarrow> 'b option" where
  "col_at cs i = (case cs of None \<Rightarrow> None | Some xs \<Rightarrow> xs ! i)"

record insert_row =
  ir_cells :: "pyval list"
  ir_ds :: pyval
  ir_created_at :: pyval
  ir_vec :: "(string, real list option) dict"
  ir_tok :: "(string, string option) dict"

fun insert_payload ::
    "store_cfg \<Rightarrow> tablespec \<Rightarrow> nat \<Rightarrow> pyrow list \<Rightarrow> vecs \<Rightarrow> toks \<Rightarrow> pyval \<Rightarrow> pyval
      \<Rightarrow> insert_row list res" where
  "insert_payload cfg spec i [] vs ks ds now = Inr []"
| "insert_payload cfg spec i (rec # recs) vs ks ds now =
     bindR (mapR (\<lambda>c. bind_cell c rec) (ts_columns spec)) (\<lambda>cells.
     bindR (insert_payload cfg spec (Suc i) recs vs ks ds now) (\<lambda>rest.
     Inr (\<lparr>ir_cells = cells, ir_ds = ds, ir_created_at = now,
           ir_vec = (if is_vss cfg then map (\<lambda>c. (c, col_at (map_of vs c) i)) (ts_searchable spec) else []),
           ir_tok = (if is_vss cfg then map (\<lambda>c. (c, col_at (map_of ks c) i)) (ts_searchable spec) else [])\<rparr>
          # rest)))"

text \<open>A bound metadata value stored in a \<open>VARCHAR\<close> column.\<close>

definition meta_cell :: "duck \<Rightarrow> pyval \<Rightarrow> string option res" where
  "meta_cell x v = bindR (x_conv x ''VARCHAR'' v) (\<lambda>w. case w of
       PNone \<Rightarrow> Inr None | PStr s \<Rightarrow> Inr (Some s) | _ \<Rightarrow> raise DuckError ''not a VARCHAR'')"

definition stored_row :: "duck \<Rightarrow> tablespec \<Rightarrow> insert_row \<Rightarrow> row res" where
  "stored_row x spec ir =
     bindR (mapR (\<lambda>(c, v). x_conv x (c_sql_type c) v) (zip (ts_columns spec) (ir_cells ir))) (\<lambda>cells.
     bindR (meta_cell x (ir_ds ir)) (\<lambda>ds.
     bindR (meta_cell x (ir_created_at ir)) (\<lambda>ca.
     Inr \<lparr>r_cells = zip (column_names spec) cells, r_ds = ds, r_created_at = ca,
          r_deleted_ds = None, r_deleted_at = None, r_vec = ir_vec ir, r_tok = ir_tok ir\<rparr>)))"

text \<open>One \<open>INSERT\<close>: conversion, then the constraints of the primary key.\<close>

definition insert_one :: "duck \<Rightarrow> tablespec \<Rightarrow> insert_row \<Rightarrow> (db, exn, unit) sm" where
  "insert_one x spec ir d = (case stored_row x spec ir of
       Inl e \<Rightarrow> (Inl e, d)
     | Inr r \<Rightarrow>
         (let pk = dict_get (r_cells r) (ts_primary spec); rs = rows_of d (ts_name spec) in
          if pk = PNone then (raise DuckError ''NOT NULL constraint failed'', d)
          else if list_ex (\<lambda>q. dict_get (r_cells q) (ts_primary spec) = pk) rs
            then (raise DuckError ''Duplicate key'', d)
          else (Inr (), set_rows d (ts_name spec) (rs @ [r]))))"

text \<open>\<open>executemany\<close>: row after row; the rows before a failing one stay inserted.\<close>

definition insert_rows ::
    "store_cfg \<Rightarrow> duck \<Rightarrow> tablespec \<Rightarrow> pyrow list \<Rightarrow> vecs \<Rightarrow> toks \<Rightarrow> pyval \<Rightarrow> pyval
      \<Rightarrow> (db, exn, unit) sm" where
  "insert_rows cfg x spec recs vs ks ds now =
     bindM (liftM (insert_payload cfg spec 0 recs vs ks ds now)) (\<lambda>payload.
     forM (insert_one x spec) payload)"

text \<open>The BM25 index is a snapshot: key and tokens of every row when it is built.\<close>

definition fts_content :: "tablespec \<Rightarrow> row list \<Rightarrow> (pyval \<times> string option list) list" where
  "fts_content spec rs = map (\<lambda>r. (dict_get (r_cells r) (ts_primary spec),
     map (\<lambda>c. case map_of (r_tok r) c of None \<Rightarrow> None | Some t \<Rightarrow> t) (ts_searchable spec))) rs"

definition rebuild_fts_inline :: "store_cfg \<Rightarrow> string \<Rightarrow> (db, exn, unit) sm" where
  "rebuild_fts_inline cfg table d = (case schema_table (cfg_schema cfg) table of
       Inl e \<Rightarrow> (Inl e, d)
     | Inr spec \<Rightarrow>
         if ts_searchable spec \<noteq> []
         then (Inr (), d\<lparr>db_fts := dict_set (db_fts d) table (fts_content spec (rows_of d table))\<rparr>)
         else (Inr (), d))"

definition rebuild_fts :: "store_cfg \<Rightarrow> string \<Rightarrow> (db, exn, unit) sm" where
  "rebuild_fts cfg table = (if is_vss cfg then rebuild_fts_inline cfg table else returnM ())"

definition commit_rows ::
    "store_cfg \<Rightarrow> duck \<Rightarrow> tablespec \<Rightarrow> pyrow list \<Rightarrow> vecs \<Rightarrow> toks \<Rightarrow> pyval \<Rightarrow> pyval \<Rightarrow> bool
      \<Rightarrow> (db, exn, unit) sm" where
  "commit_rows cfg x spec recs vs ks ds now rebuild =
     bindM (insert_rows cfg x spec recs vs ks ds now) (\<lambda>_.
     if rebuild \<and> is_vss cfg then rebuild_fts_inline cfg (ts_name spec) else returnM ())"

section \<open>The side datasets\<close>

definition lance_payload ::
    "tablespec \<Rightarrow> pyrow list \<Rightarrow> vecs \<Rightarrow> toks \<Rightarrow> lance_row list" where
  "lance_payload spec recs vs ks =
     map (\<lambda>(i, rec). \<lparr>lr_pk = record_key spec rec,
            lr_cells = map (\<lambda>c. (map_option l2_normalize (col_at (map_of vs c) i),
                                 col_at (map_of ks c) i)) (ts_searchable spec)\<rparr>)
       (enumerate 0 recs)"

definition lance_rows :: "db \<Rightarrow> string \<Rightarrow> lance_row list" where
  "lance_rows d t = (case map_of (db_lance d) t of None \<Rightarrow> [] | Some rs \<Rightarrow> rs)"

definition lance_write :: "tablespec \<Rightarrow> lance_row list \<Rightarrow> bool \<Rightarrow> db \<Rightarrow> db" where
  "lance_write spec payload keep d =
     d\<lparr>db_lance := dict_set (db_lance d) (ts_name spec)
          ((if keep then lance_rows d (ts_name spec) else []) @ payload)\<rparr>"

definition index_search_rows ::
    "store_cfg \<Rightarrow> tablespec \<Rightarrow> pyrow list \<Rightarrow> vecs \<Rightarrow> toks \<Rightarrow> (db, exn, unit) sm" where
  "index_search_rows cfg spec recs vs ks =
     (if \<not> is_lance cfg \<or> ts_searchable spec = [] \<or> recs = [] then returnM ()
      else modifyM (lance_write spec (lance_payload spec recs vs ks) True))"

definition rebuild_search_index ::
    "store_cfg \<Rightarrow> tablespec \<Rightarrow> pyrow list \<Rightarrow> vecs \<Rightarrow> toks \<Rightarrow> (db, exn, unit) sm" where
  "rebuild_search_index cfg spec recs vs ks =
     (if \<not> is_lance cfg \<or> ts_searchable spec = [] then returnM ()
      else modifyM (lance_write spec (lance_payload spec recs vs ks) False))"

section \<open>Deleting\<close>

definition match_live_sql :: "tablespec \<Rightarrow> string \<Rightarrow> string \<Rightarrow> string res" where
  "match_live_sql spec table stmt =
     bindR (sql_ident (ts_primary spec)) (\<lambda>pk.
     bindR (sql_ident table) (\<lambda>t.
     Inr (''SELECT '' @ pk @ '' FROM '' @ t @ '' WHERE ('' @ stmt @ '')'')))"

definition match_live ::
    "store_cfg \<Rightarrow> duck \<Rightarrow> db \<Rightarrow> string \<Rightarrow> string \<Rightarrow> pyval list \<Rightarrow> pyval list res" where
  "match_live cfg x d table wh params =
     bindR (schema_table (cfg_schema cfg) table) (\<lambda>spec.
     bindR (one_statement wh ''delete where'') (\<lambda>stmt.
     bindR (match_live_sql spec table stmt) (\<lambda>sql.
     case x_select x d sql params of
       Inl e \<Rightarrow> if exn_class e = DuckError then raise QueryError ''bad delete where'' else Inl e
     | Inr ks \<Rightarrow> Inr ks)))"

definition mark_deleted :: "tablespec \<Rightarrow> string list \<Rightarrow> string option \<Rightarrow> string option \<Rightarrow> row \<Rightarrow> row" where
  "mark_deleted spec keys ds now r =
     (if pk_text spec r \<in> set keys \<and> r_deleted_ds r = None
      then r\<lparr>r_deleted_ds := ds, r_deleted_at := now\<rparr> else r)"

definition soft_delete ::
    "store_cfg \<Rightarrow> duck \<Rightarrow> string \<Rightarrow> pyval list \<Rightarrow> pyval \<Rightarrow> pyval \<Rightarrow> (db, exn, unit) sm" where
  "soft_delete cfg x table keys ds now =
     (if keys = [] then returnM ()
      else bindM (liftM (schema_table (cfg_schema cfg) table)) (\<lambda>spec.
           bindM (liftM (bindR (phys table) (\<lambda>_. sql_ident (ts_primary spec)))) (\<lambda>_.
           bindM (liftM (meta_cell x ds)) (\<lambda>ds'.
           bindM (liftM (meta_cell x now)) (\<lambda>now'.
           modifyM (\<lambda>d. set_rows d table
             (map (mark_deleted spec (map py_str keys) ds' now') (rows_of d table))))))))"

definition clear_table :: "string \<Rightarrow> (db, exn, unit) sm" where
  "clear_table table = bindM (liftM (phys table)) (\<lambda>_. modifyM (\<lambda>d. set_rows d table []))"

section \<open>Visibility\<close>

lemma visible_now: "visible None None r \<longleftrightarrow> r_deleted_ds r = None"
  by (simp add: visible_def asof_conds_def)

lemma visible_asof:
  "visible None (Some d) r \<longleftrightarrow> (\<exists>s. r_ds r = Some s \<and> s \<le> d) \<and>
     (\<forall>t. r_deleted_ds r = Some t \<longrightarrow> d < t)"
  by (auto simp: visible_def asof_conds_def split: option.splits)

lemma visible_from:
  "visible (Some a) e r \<longleftrightarrow> visible None e r \<and> (\<exists>s. r_ds r = Some s \<and> a \<le> s)"
  by (auto simp: visible_def asof_conds_def split: option.splits)

section \<open>Tables with a primary key\<close>

lemma rows_of_set [simp]: "rows_of (set_rows d t rs) t' = (if t' = t then rs else rows_of d t')"
  by (simp add: rows_of_def set_rows_def dict_get_set)

lemma set_rows_other [simp]:
  "db_fts (set_rows d t rs) = db_fts d" "db_lance (set_rows d t rs) = db_lance d"
  by (simp_all add: set_rows_def)

definition pk_of :: "tablespec \<Rightarrow> row \<Rightarrow> pyval" where
  "pk_of spec r = dict_get (r_cells r) (ts_primary spec)"

text \<open>What the primary-key constraint guarantees of a table.\<close>

definition keyed :: "tablespec \<Rightarrow> row list \<Rightarrow> bool" where
  "keyed spec rs \<longleftrightarrow> distinct (map (pk_of spec) rs) \<and> PNone \<notin> set (map (pk_of spec) rs)"

text \<open>
  The contract of a table that is written once per key: a step either adds one row with a new
  key at the end or leaves the rows as they are.
\<close>

locale write_once =
  fixes rows :: "'s \<Rightarrow> 'r list" and key :: "'r \<Rightarrow> 'k" and put :: "'i \<Rightarrow> ('s, exn, unit) sm"
    and made :: "'i \<Rightarrow> 'r \<Rightarrow> bool"
  assumes put_ok: "put i s = (Inr u, s') \<Longrightarrow>
      \<exists>r. made i r \<and> rows s' = rows s @ [r] \<and> key r \<notin> key ` set (rows s)"
    and put_err: "put i s = (Inl e, s') \<Longrightarrow> rows s' = rows s"
begin

lemma put_distinct: "put i s = (q, s') \<Longrightarrow> distinct (map key (rows s)) \<Longrightarrow> distinct (map key (rows s'))"
  using put_ok [of i s _ s'] put_err [of i s _ s'] by (cases q) auto

lemma forM_distinct:
  "forM put is s = (q, s') \<Longrightarrow> distinct (map key (rows s)) \<Longrightarrow> distinct (map key (rows s'))"
  by (rule forM_invariant [where P = "\<lambda>s. distinct (map key (rows s))"]) (blast intro: put_distinct)+

text \<open>A whole batch: the rows grow by one row per item, in order; keys of the batch are new.\<close>

lemma forM_rows:
  "forM put is s = (Inr u, s') \<Longrightarrow> \<exists>rs. rows s' = rows s @ rs \<and> list_all2 made is rs"
proof (induction "is" arbitrary: s)
  case (Cons i "is")
  then obtain t where t: "put i s = (Inr (), t)" "forM put is t = (Inr u, s')"
    by (auto simp: bindM_Inr)
  obtain r where r: "made i r" "rows t = rows s @ [r]" using put_ok [OF t(1)] by blast
  from Cons.IH [OF t(2)] obtain rs where "rows s' = rows t @ rs" "list_all2 made is rs" by blast
  with r show ?case by (intro exI [of _ "r # rs"]) simp
qed simp

lemma forM_prefix: "forM put is s = (q, s') \<Longrightarrow> \<exists>rs. rows s' = rows s @ rs"
proof (induction "is" arbitrary: s)
  case (Cons i "is")
  obtain q1 t where t: "put i s = (q1, t)" by fastforce
  show ?case
  proof (cases q1)
    case (Inl e)
    then show ?thesis using Cons.prems t put_err [of i s e t] by auto
  next
    case (Inr u)
    then have f: "forM put is t = (q, s')" using Cons.prems t by simp
    obtain r where "rows t = rows s @ [r]" using put_ok t Inr by blast
    with Cons.IH [OF f] show ?thesis by auto
  qed
qed simp

end

interpretation ins: write_once "\<lambda>d. rows_of d (ts_name spec)" "pk_of spec" "insert_one x spec"
  "\<lambda>ir r. stored_row x spec ir = Inr r \<and> pk_of spec r \<noteq> PNone"
  for x spec
proof
  show "\<exists>r. (stored_row x spec i = Inr r \<and> pk_of spec r \<noteq> PNone) \<and>
      rows_of s' (ts_name spec) = rows_of s (ts_name spec) @ [r] \<and>
      pk_of spec r \<notin> pk_of spec ` set (rows_of s (ts_name spec))"
    if "insert_one x spec i s = (Inr u, s')" for i s u s'
    using that by (auto simp: insert_one_def Let_def list_ex_iff pk_of_def split: sum.splits if_splits)
  show "rows_of s' (ts_name spec) = rows_of s (ts_name spec)"
    if "insert_one x spec i s = (Inl e, s')" for i s e s'
    using that by (auto simp: insert_one_def Let_def split: sum.splits if_splits)
qed

lemma insert_one_frame:
  "insert_one x spec ir d = (q, d') \<Longrightarrow> (\<forall>t. t \<noteq> ts_name spec \<longrightarrow> rows_of d' t = rows_of d t) \<and>
     db_fts d' = db_fts d \<and> db_lance d' = db_lance d"
  by (auto simp: insert_one_def Let_def split: sum.splits if_splits)

lemma insert_one_keyed:
  "insert_one x spec ir d = (q, d') \<Longrightarrow> keyed spec (rows_of d (ts_name spec)) \<Longrightarrow>
     keyed spec (rows_of d' (ts_name spec))"
  by (auto simp: insert_one_def Let_def keyed_def pk_of_def list_ex_iff split: sum.splits if_splits) blast

lemma forM_insert_frame:
  assumes "forM (insert_one x spec) irs d = (q, d')"
  shows "(\<forall>t. t \<noteq> ts_name spec \<longrightarrow> rows_of d' t = rows_of d t) \<and> db_fts d' = db_fts d \<and> db_lance d' = db_lance d"
  using assms
  by (rule forM_invariant [where P = "\<lambda>e. (\<forall>t. t \<noteq> ts_name spec \<longrightarrow> rows_of e t = rows_of d t) \<and>
      db_fts e = db_fts d \<and> db_lance e = db_lance d", rotated 2])
    (auto dest!: insert_one_frame)

lemma forM_insert_keyed:
  assumes "forM (insert_one x spec) irs d = (q, d')" and "keyed spec (rows_of d (ts_name spec))"
  shows "keyed spec (rows_of d' (ts_name spec))"
  using assms
  by (rule_tac forM_invariant [where P = "\<lambda>e. keyed spec (rows_of e (ts_name spec))", rotated 2])
    (auto dest: insert_one_keyed)

lemma pk_of_mark [simp]: "pk_of spec (mark_deleted spec' ks ds now r) = pk_of spec r"
  by (simp add: mark_deleted_def pk_of_def)

lemma pk_text_mark [simp]: "pk_text spec (mark_deleted spec' ks ds now r) = pk_text spec r"
  by (simp add: mark_deleted_def pk_text_def)

lemma keyed_mark: "keyed spec (map (mark_deleted spec' ks ds now) rs) \<longleftrightarrow> keyed spec rs"
  by (simp add: keyed_def comp_def)

lemma soft_delete_Inr:
  assumes "soft_delete cfg x table keys ds now d = (Inr u, d')"
  shows "keys = [] \<and> d' = d \<or>
    (\<exists>spec ds' now'. schema_table (cfg_schema cfg) table = Inr spec \<and> meta_cell x ds = Inr ds' \<and>
       meta_cell x now = Inr now' \<and>
       d' = set_rows d table (map (mark_deleted spec (map py_str keys) ds' now') (rows_of d table)))"
  using assms by (auto simp: soft_delete_def bindM_Inr split: if_splits)

lemma soft_delete_Inl: "soft_delete cfg x table keys ds now d = (Inl e, d') \<Longrightarrow> d' = d"
  by (auto simp: soft_delete_def bindM_Inl split: if_splits)

section \<open>Validation\<close>

lemma normalize_rows_Inr:
  "normalize_rows spec rws = Inr recs \<longleftrightarrow>
     list_all (\<lambda>rw. fst ` set rw \<subseteq> set (column_names spec)) rws \<and> recs = map (norm_record spec) rws"
  by (induction rws arbitrary: recs) (auto simp: bindR_Inr_iff list_ex_iff)

lemma norm_record_get: "c \<in> set (column_names spec) \<Longrightarrow> dict_get (norm_record spec rw) c = dict_get rw c"
  by (auto simp: norm_record_def dict_get_def map_of_map_key)

text \<open>A successful validation: the key texts are new and occur once.\<close>

lemma existing_keys_Inr:
  assumes "existing_keys cfg d table keys = Inr ex" and "schema_table (cfg_schema cfg) table = Inr spec"
  shows "set ex = set keys \<inter> set (map (pk_text spec) (rows_of d table))"
  using assms by (auto simp: existing_keys_def bindR_Inr_iff split: if_splits)

lemma validate_Inr:
  assumes "validate cfg d table rws skip = Inr recs" and "schema_table (cfg_schema cfg) table = Inr spec"
  shows "distinct (map (record_key spec) recs)"
    and "set (map (record_key spec) recs) \<inter> set (map (pk_text spec) (rows_of d table)) = {}"
    and "set recs \<subseteq> norm_record spec ` set rws"
    and "\<not> skip \<Longrightarrow> recs = map (norm_record spec) rws"
proof -
  let ?n = "map (norm_record spec) rws"
  have norm: "normalize_rows spec rws = Inr ?n"
    using assms by (auto simp: validate_def bindR_Inr_iff normalize_rows_Inr)
  have "distinct (map (record_key spec) recs) \<and>
      set (map (record_key spec) recs) \<inter> set (map (pk_text spec) (rows_of d table)) = {} \<and>
      set recs \<subseteq> norm_record spec ` set rws \<and> (\<not> skip \<longrightarrow> recs = ?n)"
  proof (cases skip)
    case True
    let ?dd = "dedup_by (record_key spec) [] ?n"
    obtain ex where ex: "existing_keys cfg d table (map (record_key spec) ?dd) = Inr ex"
      and recs: "recs = filter (\<lambda>r. record_key spec r \<notin> set ex) ?dd"
      using assms norm True by (auto simp: validate_def bindR_Inr_iff Let_def)
    show ?thesis
      using existing_keys_Inr [OF ex assms(2)] recs True dedup_by_distinct [of "record_key spec" "[]" ?n]
        dedup_by_subset [of "record_key spec" "[]" ?n]
      by (auto simp: filter_distinct_map)
  next
    case False
    let ?keys = "map (record_key spec) ?n"
    have "existing_keys cfg d table ?keys = Inr []" "recs = ?n" "distinct ?keys"
      using assms norm False by (auto simp: validate_def bindR_Inr_iff Let_def split: if_splits)
    then show ?thesis using existing_keys_Inr [OF _ assms(2), of d ?keys "[]"] False by auto
  qed
  then show "distinct (map (record_key spec) recs)"
    and "set (map (record_key spec) recs) \<inter> set (map (pk_text spec) (rows_of d table)) = {}"
    and "set recs \<subseteq> norm_record spec ` set rws"
    and "\<not> skip \<Longrightarrow> recs = map (norm_record spec) rws" by auto
qed

end
