(* ===== verification/File_Mirror.thy ===== *)
theory File_Mirror
  imports Jsonl Row_Store
begin

text \<open>
  \<open>service/file_service.py\<close>: the canonical file mirror, one JSONL file per day and table. The
  partition key is the pair of the two path components.
\<close>

type_synonym mirror = "(string \<times> string) jlog"

definition mirror_append :: "string \<Rightarrow> string \<Rightarrow> pyval \<Rightarrow> (mirror, exn, unit) sm" where
  "mirror_append ds table v m = (case log_append m (ds, table) v of
       Inl e \<Rightarrow> (Inl e, m) | Inr m' \<Rightarrow> (Inr (), m'))"

text \<open>The put line: \<open>rec[c]\<close> for every column, then \<open>ds\<close> and \<open>created_at\<close>.\<close>

definition put_line :: "tablespec \<Rightarrow> string \<Rightarrow> string \<Rightarrow> pyrow \<Rightarrow> pyval res" where
  "put_line spec ds now rec =
     bindR (mapR (\<lambda>c. case map_of rec c of None \<Rightarrow> raise PyKeyError ''column'' | Some v \<Rightarrow> Inr (c, v))
              (column_names spec)) (\<lambda>cells.
     Inr (PDict (dict_set (dict_set cells ''ds'' (PStr ds)) ''created_at'' (PStr now))))"

definition write_puts :: "tablespec \<Rightarrow> pyrow list \<Rightarrow> string \<Rightarrow> string \<Rightarrow> (mirror, exn, unit) sm" where
  "write_puts spec records ds now =
     bindM (liftM (mapR (put_line spec ds now) records)) (\<lambda>lines.
     forM (mirror_append ds (ts_name spec)) lines)"

definition tombstone :: "string \<Rightarrow> pyval \<Rightarrow> pyval" where
  "tombstone now k = PDict [(''_deleted'', k), (''deleted_at'', PStr now)]"

definition write_deletes :: "string \<Rightarrow> pyval list \<Rightarrow> string \<Rightarrow> string \<Rightarrow> (mirror, exn, unit) sm" where
  "write_deletes table keys ds now = forM (\<lambda>k. mirror_append ds table (tombstone now k)) keys"

text \<open>\<open>sorted\<close> over the directories \<open>ds=...\<close>: their names order as the days do.\<close>

definition mirror_days :: "mirror \<Rightarrow> string list" where
  "mirror_days m = sort (remdups (map fst (dict_keys m)))"

definition iter_events :: "mirror \<Rightarrow> string \<Rightarrow> (string \<times> pyval) list" where
  "iter_events m table =
     concat (map (\<lambda>ds. map (Pair ds) (read_tolerant (log_text m (ds, table)))) (mirror_days m))"

section \<open>Appending in chronological order\<close>

lemma events_no_file: "(ds, table) \<notin> set (dict_keys m) \<Longrightarrow> log_text m (ds, table) = []"
  using map_of_eq_None_iff [of m "(ds, table)"] by (simp add: log_text_def)

lemma read_Nil [simp]: "read_tolerant [] = []"
  by (simp add: read_tolerant_def line_values_def py_lines_def drop_last_empty_def)

lemma mirror_days_set: "set (mirror_days m) = fst ` set (dict_keys m)"
  by (simp add: mirror_days_def image_image)

lemma mirror_days_sorted: "sorted (mirror_days m)" "distinct (mirror_days m)"
  by (simp_all add: mirror_days_def)

text \<open>Adding a day that is not before any other puts it at the end.\<close>

lemma sorted_distinct_max:
  fixes xs :: "string list"
  assumes "sorted xs" and "distinct xs" and "x \<in> set xs" and "\<forall>y \<in> set xs. y \<le> x"
  shows "xs = filter (\<lambda>y. y < x) xs @ [x]"
  using assms
proof (induction xs)
  case (Cons a xs)
  show ?case
  proof (cases "a = x")
    case True
    then have "xs = []" using Cons.prems by (cases xs) force+
    then show ?thesis using True by simp
  next
    case False
    then have "a < x" "x \<in> set xs" using Cons.prems by auto
    with Cons show ?thesis by simp
  qed
qed simp

lemma sorted_distinct_set_eq:
  fixes xs ys :: "string list"
  assumes "sorted xs" "distinct xs" "sorted ys" "distinct ys" "set xs = set ys"
  shows "xs = ys"
  using assms sorted_distinct_set_unique by blast

lemma mirror_days_set_key:
  assumes "\<forall>d \<in> fst ` set (dict_keys m). d \<le> ds"
  shows "filter (\<lambda>d. d < ds) (mirror_days m) @ [ds] = mirror_days (dict_set m (ds, table) t)"
proof (rule sorted_distinct_set_eq)
  show "sorted (filter (\<lambda>d. d < ds) (mirror_days m) @ [ds])"
    using mirror_days_sorted [of m] by (auto simp: sorted_append intro: sorted_filter [of "\<lambda>x. x", simplified] less_imp_le)
  show "set (filter (\<lambda>d. d < ds) (mirror_days m) @ [ds]) = set (mirror_days (dict_set m (ds, table) t))"
    using assms by (force simp: mirror_days_set dom_update dest: order_le_less [THEN iffD1])
qed (use mirror_days_sorted [of m] mirror_days_sorted [of "dict_set m (ds, table) t"] in auto)

definition day_events :: "mirror \<Rightarrow> string \<Rightarrow> string \<Rightarrow> (string \<times> pyval) list" where
  "day_events m table ds = map (Pair ds) (read_tolerant (log_text m (ds, table)))"

lemma iter_events_days: "iter_events m table = concat (map (day_events m table) (mirror_days m))"
  by (simp add: iter_events_def day_events_def [abs_def])

lemma iter_events_split:
  assumes "\<forall>d \<in> fst ` set (dict_keys m). d \<le> ds"
  shows "iter_events m table =
     concat (map (day_events m table) (filter (\<lambda>d. d < ds) (mirror_days m))) @ day_events m table ds"
proof (cases "ds \<in> set (mirror_days m)")
  case True
  have "mirror_days m = filter (\<lambda>d. d < ds) (mirror_days m) @ [ds]"
    using sorted_distinct_max [OF mirror_days_sorted True] assms by (simp add: mirror_days_set)
  then show ?thesis unfolding iter_events_days by (metis concat_append concat.simps(1,2) append_Nil2 list.simps(8,9) map_append)
next
  case False
  then have "filter (\<lambda>d. d < ds) (mirror_days m) = mirror_days m"
    using assms by (intro filter_True) (auto simp: mirror_days_set order_le_less)
  moreover have "(ds, table) \<notin> set (dict_keys m)"
    using False by (force simp: mirror_days_set)
  ultimately show ?thesis by (simp add: iter_events_days day_events_def events_no_file)
qed

text \<open>The mirror as an append-only log whose days never go backwards.\<close>

lemma mirror_append_Inr:
  assumes "log_ok m" and "record_ok v" and "\<forall>d \<in> fst ` set (dict_keys m). d \<le> ds"
    and "mirror_append ds table v m = (Inr u, m')"
  shows "log_ok m'" and "\<forall>d \<in> fst ` set (dict_keys m'). d \<le> ds"
    and "iter_events m' t = (if t = table then iter_events m t @ [(ds, v)] else iter_events m t)"
proof -
  have a: "log_append m (ds, table) v = Inr m'"
    using assms(4) by (auto simp: mirror_append_def split: sum.splits)
  then obtain fl where m': "m' = dict_set m (ds, table) fl"
    by (auto simp: log_append_def bindR_Inr_iff)
  show "log_ok m'" by (rule log_ok_append [OF assms(1,2) a])
  show days: "\<forall>d \<in> fst ` set (dict_keys m'). d \<le> ds"
    using assms(3) by (auto simp: m' dom_update)
  have other: "day_events m' t d = day_events m t d" if "d < ds" for d
    using that log_append_Inr(1) [OF assms(1,2) a, of "(d, t)"]
    by (auto simp: day_events_def read_tolerant_def)
  have here: "day_events m' t ds = (if t = table then day_events m t ds @ [(ds, v)] else day_events m t ds)"
    using log_append_Inr(1) [OF assms(1,2) a, of "(ds, t)"]
    by (auto simp: day_events_def read_tolerant_def)
  have "filter (\<lambda>d. d < ds) (mirror_days m') = filter (\<lambda>d. d < ds) (mirror_days m)"
    unfolding m' mirror_days_set_key [OF assms(3), of table fl, symmetric] by simp
  moreover have "concat (map (day_events m' t) (filter (\<lambda>d. d < ds) (mirror_days m))) =
      concat (map (day_events m t) (filter (\<lambda>d. d < ds) (mirror_days m)))"
    using other by (intro arg_cong [where f = concat] map_cong) auto
  ultimately show "iter_events m' t = (if t = table then iter_events m t @ [(ds, v)] else iter_events m t)"
    using iter_events_split [OF days, of t] iter_events_split [OF assms(3), of t] here
    by (cases "t = table") simp_all
qed

end
