(* ===== verification/Task_Record.thy ===== *)
theory Task_Record
  imports Errors_Wire
begin

text \<open>
  \<open>struct/task.py\<close>: the unified operation handle and its JSON form. The fields are whatever
  the JSON body holds, so they are Python values; \<open>None\<close> marks an absent one.
\<close>

record task =
  t_id :: pyval
  t_op :: pyval
  t_state :: pyval
  t_error :: pyval
  t_matched :: pyval
  t_stats :: pyval
  t_query :: pyval
  t_rows :: pyval
  t_submitted_at :: pyval
  t_finished_at :: pyval

text \<open>\<open>Task(id=\<dots>, op=\<dots>)\<close>: the dataclass defaults.\<close>

definition mk_task :: "string \<Rightarrow> string \<Rightarrow> task" where
  "mk_task i opn = \<lparr>t_id = PStr i, t_op = PStr opn, t_state = PStr ''done'', t_error = PNone,
     t_matched = PNone, t_stats = PNone, t_query = PNone, t_rows = PNone,
     t_submitted_at = PNone, t_finished_at = PNone\<rparr>"

text \<open>The fields that \<open>to_wire\<close> copies only when they are not \<open>None\<close>, in its order.\<close>

definition opt_fields :: "task \<Rightarrow> pyrow" where
  "opt_fields t =
     [(''matched'', t_matched t), (''stats'', t_stats t), (''query'', t_query t),
      (''rows'', t_rows t), (''submitted_at'', t_submitted_at t),
      (''finished_at'', t_finished_at t)]"

definition to_wire :: "task \<Rightarrow> pyrow" where
  "to_wire t =
     [(''task'', t_id t), (''op'', t_op t), (''state'', t_state t), (''error'', t_error t)] @
     filter (\<lambda>(k, v). v \<noteq> PNone) (opt_fields t)"

definition dict_get_or :: "pyrow \<Rightarrow> string \<Rightarrow> pyval \<Rightarrow> pyval" where
  "dict_get_or d k v = (case map_of d k of None \<Rightarrow> v | Some w \<Rightarrow> w)"

definition from_wire :: "pyrow \<Rightarrow> task res" where
  "from_wire d =
     bindR (if truthy (dict_get d ''task'') then Inr (dict_get d ''task'')
            else (case map_of d ''ticket'' of None \<Rightarrow> raise PyKeyError ''ticket'' | Some v \<Rightarrow> Inr v))
       (\<lambda>i. Inr \<lparr>t_id = i, t_op = dict_get_or d ''op'' (PStr []),
          t_state = dict_get_or d ''state'' (PStr ''done''), t_error = dict_get d ''error'',
          t_matched = dict_get d ''matched'', t_stats = dict_get d ''stats'',
          t_query = dict_get d ''query'', t_rows = dict_get d ''rows'',
          t_submitted_at = dict_get d ''submitted_at'',
          t_finished_at = dict_get d ''finished_at''\<rparr>)"

lemma map_of_filter_some:
  "distinct (map fst xs) \<Longrightarrow>
     map_of (filter (\<lambda>(k, v). v \<noteq> PNone) xs) k =
       (case map_of xs k of None \<Rightarrow> None | Some v \<Rightarrow> if v = PNone then None else Some v)"
  by (induction xs) (auto split: option.splits simp: map_of_eq_None_iff image_iff)

lemma opt_fields_get:
  "dict_get (filter (\<lambda>(k, v). v \<noteq> PNone) (opt_fields t)) k = dict_get (opt_fields t) k"
proof -
  have "distinct (map fst (opt_fields t))" by (simp add: opt_fields_def)
  then show ?thesis
    by (simp add: dict_get_def map_of_filter_some split: option.splits)
qed

lemma to_wire_get:
  "dict_get (to_wire t) k =
     (if k = ''task'' then t_id t else if k = ''op'' then t_op t
      else if k = ''state'' then t_state t else if k = ''error'' then t_error t
      else dict_get (opt_fields t) k)"
  by (simp add: to_wire_def opt_fields_get [symmetric]) (simp add: dict_get_def)

lemma to_wire_get_or [simp]:
  "dict_get_or (to_wire t) ''op'' v = t_op t"
  "dict_get_or (to_wire t) ''state'' v = t_state t"
  by (simp_all add: dict_get_or_def to_wire_def)

lemma from_wire_to_wire: "truthy (t_id t) \<Longrightarrow> from_wire (to_wire t) = Inr t"
  by (cases t) (simp add: from_wire_def to_wire_get, simp add: dict_get_def opt_fields_def)

lemma to_wire_id: "map_of (to_wire t) ''task'' = Some (t_id t)"
  by (simp add: to_wire_def)

end
