(* ===== verification/Task_Log.thy ===== *)
theory Task_Log
  imports Jsonl Task_Record
begin

text \<open>
  The task log of \<open>service/task_service.py\<close>: ids that carry their partition, appended state
  lines of which the last wins, the status lookup and the list of recent tasks. The partition
  key is the text between \<open>ds=\<close> and \<open>.jsonl\<close> in the file name.
\<close>

section \<open>Ids\<close>

definition new_task_id :: "string \<Rightarrow> string \<Rightarrow> string" where
  "new_task_id ds hex = ''tk_'' @ ds @ ''_'' @ hex"

definition ds_of :: "string \<Rightarrow> string option" where
  "ds_of i = (let parts = split_on (CHR ''_'') i in
     if 3 \<le> length parts \<and> py_isdigit (parts ! 1) then Some (parts ! 1) else None)"

definition ds_key :: "string \<Rightarrow> string" where
  "ds_key i = (case ds_of i of None \<Rightarrow> ''None'' | Some d \<Rightarrow> d)"

section \<open>append, status, list\<close>

type_synonym tlog = "string jlog"

definition task_append :: "tlog \<Rightarrow> task \<Rightarrow> tlog res" where
  "task_append lg t = (case t_id t of
       PStr i \<Rightarrow> log_append lg (ds_key i) (PDict (to_wire t))
     | _ \<Rightarrow> raise PyAttributeError ''split'')"

definition scan_lines :: "string \<Rightarrow> pyrow list res" where
  "scan_lines s = mapR (\<lambda>v. case v of
       None \<Rightarrow> raise PyValueError ''JSONDecodeError''
     | Some (PDict d) \<Rightarrow> Inr d
     | Some _ \<Rightarrow> raise PyAttributeError ''get'') (line_values s)"

definition is_record_of :: "string \<Rightarrow> pyrow \<Rightarrow> bool" where
  "is_record_of i d \<longleftrightarrow> dict_get d ''task'' = PStr i \<or> dict_get d ''ticket'' = PStr i"

text \<open>\<open>found = d\<close> in a scan that never stops early: the last matching line.\<close>

definition find_last :: "('a \<Rightarrow> bool) \<Rightarrow> 'a list \<Rightarrow> 'a option" where
  "find_last P xs = foldl (\<lambda>found d. if P d then Some d else found) None xs"

definition task_status :: "tlog \<Rightarrow> string \<Rightarrow> task res" where
  "task_status lg i = (case ds_of i of
       None \<Rightarrow> raise NotFound ''unknown task''
     | Some ds \<Rightarrow>
         bindR (scan_lines (log_text lg ds)) (\<lambda>recs.
         case find_last (is_record_of i) recs of
           None \<Rightarrow> raise NotFound ''unknown task''
         | Some d \<Rightarrow> from_wire d))"

text \<open>\<open>list\<close>: partitions newest first until enough records are gathered; last line per id.\<close>

definition list_key :: "pyrow \<Rightarrow> pyval res" where
  "list_key d = (let k = (if truthy (dict_get d ''task'') then dict_get d ''task'' else dict_get d ''ticket'')
     in if hashable k then Inr k else raise PyTypeError ''unhashable type'')"

fun list_records :: "(pyval, pyrow) dict \<Rightarrow> pyrow list \<Rightarrow> (pyval, pyrow) dict res" where
  "list_records out [] = Inr out"
| "list_records out (d # ds) = bindR (list_key d) (\<lambda>k. list_records (dict_set out k d) ds)"

fun list_partitions :: "tlog \<Rightarrow> nat \<Rightarrow> (pyval, pyrow) dict \<Rightarrow> string list \<Rightarrow> (pyval, pyrow) dict res" where
  "list_partitions lg limit out [] = Inr out"
| "list_partitions lg limit out (p # ps) =
     (if limit * 3 \<le> length out then Inr out
      else bindR (scan_lines (log_text lg p)) (\<lambda>recs.
           bindR (list_records out recs) (\<lambda>out'. list_partitions lg limit out' ps)))"

definition partitions_desc :: "tlog \<Rightarrow> string list" where
  "partitions_desc lg = rev (sort_key (\<lambda>p. p @ ''.jsonl'') (remdups (dict_keys lg)))"

definition submitted_key :: "task \<Rightarrow> string res" where
  "submitted_key t = (case t_submitted_at t of
       PStr s \<Rightarrow> Inr s
     | v \<Rightarrow> if truthy v then raise PyTypeError ''not comparable with str'' else Inr [])"

definition task_list :: "tlog \<Rightarrow> nat \<Rightarrow> task list res" where
  "task_list lg limit =
     bindR (list_partitions lg limit [] (partitions_desc lg)) (\<lambda>out.
     bindR (mapR (\<lambda>(k, d). from_wire d) out) (\<lambda>ts.
     bindR (mapR (\<lambda>t. bindR (submitted_key t) (\<lambda>k. Inr (k, t))) ts) (\<lambda>kts.
     Inr (take limit (map snd (rev (sort_key fst (rev kts))))))))"

section \<open>Ids locate their partition\<close>

lemma ds_of_new_task_id:
  assumes "list_all is_ascii_digit ds" and "ds \<noteq> []" and "CHR ''_'' \<notin> set hex"
  shows "ds_of (new_task_id ds hex) = Some ds"
proof -
  have u: "CHR ''_'' \<notin> set ds"
    using assms(1) by (auto simp: list_all_iff is_ascii_digit_def ord_def)
  have "new_task_id ds hex = ''tk'' @ CHR ''_'' # ds @ CHR ''_'' # hex" by (simp add: new_task_id_def)
  then have "split_on (CHR ''_'') (new_task_id ds hex) = [''tk'', ds, hex]"
    using u assms(3) by (simp only: split_on_append_sep split_on_no_sep) (simp add: split_on_append_sep split_on_no_sep)
  moreover have "py_isdigit ds"
    using assms(1,2) by (simp add: py_isdigit_def list_all_iff is_digit_ch_def)
  ultimately show ?thesis by (simp add: ds_of_def)
qed

section \<open>The last line wins\<close>

lemma find_last_append [simp]:
  "find_last P (xs @ [x]) = (if P x then Some x else find_last P xs)" "find_last P [] = None"
  by (simp_all add: find_last_def)

lemma find_last_rev:
  "find_last P xs = (case rev (filter P xs) of [] \<Rightarrow> None | r # _ \<Rightarrow> Some r)"
  by (induction xs rule: rev_induct) auto

text \<open>A log of records only.\<close>

definition tlog_ok :: "tlog \<Rightarrow> bool" where
  "tlog_ok lg \<longleftrightarrow> log_ok lg \<and> (\<forall>k. \<forall>v \<in> set (line_values (log_text lg k)). \<exists>d. v = Some (PDict d))"

definition task_ok :: "task \<Rightarrow> bool" where
  "task_ok t \<longleftrightarrow> wf_json (PDict (to_wire t)) \<and>
     (case t_id t of PStr i \<Rightarrow> i \<noteq> [] \<and> ds_of i \<noteq> None | _ \<Rightarrow> False)"

lemma task_ok_iff:
  "task_ok t \<longleftrightarrow> wf_json (PDict (to_wire t)) \<and> (\<exists>i. t_id t = PStr i \<and> i \<noteq> [] \<and> ds_of i \<noteq> None)"
  by (auto simp: task_ok_def simp del: wf_json.simps split: pyval.splits)

lemma tlog_ok_Nil: "tlog_ok []"
  by (simp add: tlog_ok_def log_ok_Nil) (simp add: log_text_def line_values_def py_lines_def drop_last_empty_def)

lemma scan_lines_ok:
  assumes "\<forall>v \<in> set (line_values s). \<exists>d. v = Some (PDict d)"
  shows "\<exists>ds. scan_lines s = Inr ds \<and> line_values s = map (\<lambda>d. Some (PDict d)) ds"
proof -
  have "\<forall>v \<in> set vs. \<exists>d. v = Some (PDict d) \<Longrightarrow>
      \<exists>ds. mapR (\<lambda>v. case v of None \<Rightarrow> raise PyValueError m | Some (PDict d) \<Rightarrow> Inr d
        | Some _ \<Rightarrow> raise PyAttributeError m') vs = Inr ds \<and> vs = map (\<lambda>d. Some (PDict d)) ds" for vs m m'
  proof (induction vs)
    case (Cons v vs)
    then obtain d ds where "v = Some (PDict d)" "vs = map (\<lambda>d. Some (PDict d)) ds"
      and "mapR (\<lambda>v. case v of None \<Rightarrow> raise PyValueError m | Some (PDict d) \<Rightarrow> Inr d
        | Some _ \<Rightarrow> raise PyAttributeError m') vs = Inr ds" by auto
    then show ?case by (intro exI [of _ "d # ds"]) simp
  qed simp
  from this [OF assms] show ?thesis unfolding scan_lines_def by blast
qed

lemma task_append_Inr:
  assumes "tlog_ok lg" and "task_ok t" and "task_append lg t = Inr lg'" and "t_id t = PStr i"
  shows "tlog_ok lg'"
    and "line_values (log_text lg' k) = (if k = ds_key i then line_values (log_text lg k) @ [Some (PDict (to_wire t))]
       else line_values (log_text lg k))"
proof -
  have r: "record_ok (PDict (to_wire t))" using assms(2) by (simp add: task_ok_iff record_ok_def del: wf_json.simps)
  have a: "log_append lg (ds_key i) (PDict (to_wire t)) = Inr lg'"
    using assms(3,4) by (simp add: task_append_def)
  have ok: "log_ok lg" using assms(1) by (simp add: tlog_ok_def)
  note app = log_append_Inr [OF ok r a]
  show "tlog_ok lg'"
    using assms(1) log_ok_append [OF ok r a] unfolding tlog_ok_def app(1) by auto
  show "line_values (log_text lg' k) = (if k = ds_key i then line_values (log_text lg k) @ [Some (PDict (to_wire t))]
       else line_values (log_text lg k))" by (rule app(1))
qed

lemma task_append_total: "task_ok t \<Longrightarrow> \<exists>lg'. task_append lg t = Inr lg'"
  using log_append_total by (fastforce simp: task_ok_iff task_append_def record_ok_def simp del: wf_json.simps)

lemma is_record_of_wire: "is_record_of j (to_wire t) \<longleftrightarrow> t_id t = PStr j"
  by (auto simp: is_record_of_def to_wire_get) (auto simp: opt_fields_def dict_get_def)

lemma task_status_append:
  assumes "tlog_ok lg" and "task_ok t" and "task_append lg t = Inr lg'"
  shows "task_status lg' j = (if t_id t = PStr j then Inr t else task_status lg j)"
proof -
  obtain i where i: "t_id t = PStr i" "i \<noteq> []" "ds_of i \<noteq> None" using assms(2) by (auto simp: task_ok_iff)
  note app = task_append_Inr [OF assms i(1)]
  show ?thesis
  proof (cases "ds_of j")
    case None
    then show ?thesis using i by (auto simp: task_status_def)
  next
    case (Some ds)
    obtain xs where xs: "scan_lines (log_text lg ds) = Inr xs" "line_values (log_text lg ds) = map (\<lambda>d. Some (PDict d)) xs"
      using scan_lines_ok assms(1) unfolding tlog_ok_def by meson
    obtain ys where ys: "scan_lines (log_text lg' ds) = Inr ys" "line_values (log_text lg' ds) = map (\<lambda>d. Some (PDict d)) ys"
      using scan_lines_ok app(1) unfolding tlog_ok_def by meson
    have inj: "map (\<lambda>d. Some (PDict d)) as = map (\<lambda>d. Some (PDict d)) bs \<Longrightarrow> as = bs" for as bs
      by (induction as arbitrary: bs) auto
    have "ys = (if ds = ds_key i then xs @ [to_wire t] else xs)"
      using app(2) [of ds] xs(2) ys(2) by (auto intro!: inj split: if_splits)
    moreover have "t_id t = PStr j \<Longrightarrow> ds = ds_key i" using i Some by (simp add: ds_key_def)
    ultimately show ?thesis
      using xs ys Some i is_record_of_wire from_wire_to_wire [of t]
      by (auto simp: task_status_def)
  qed
qed

end
