(* ===== verification/Write_Service.thy ===== *)
theory Write_Service
  imports File_Mirror Task_Log
begin

text \<open>
  \<open>service/write_service.py\<close>: one write at a time, files first, then the database, then the
  side index; a batch of the worker, its one BM25 rebuild per touched table and its born-done
  tasks. The clock readings and the random parts of the task ids come with the operations.
\<close>

section \<open>State and environment\<close>

record wstate =
  w_files :: mirror
  w_db :: db

record wenv =
  e_cfg :: store_cfg
  e_duck :: duck
  e_emb :: "embedder option"

definition on_files :: "(mirror, exn, 'a) sm \<Rightarrow> (wstate, exn, 'a) sm" where
  "on_files m s = (case m (w_files s) of (r, f) \<Rightarrow> (r, s\<lparr>w_files := f\<rparr>))"

definition on_db :: "(db, exn, 'a) sm \<Rightarrow> (wstate, exn, 'a) sm" where
  "on_db m s = (case m (w_db s) of (r, d) \<Rightarrow> (r, s\<lparr>w_db := d\<rparr>))"

definition readM :: "('s \<Rightarrow> exn + 'a) \<Rightarrow> ('s, exn, 'a) sm" where
  "readM f s = (f s, s)"

section \<open>One operation\<close>

datatype wop =
    OpInsert string "pyrow list" bool
  | OpDelete string string "pyval list"
  | OpUnknown string

text \<open>What \<open>_execute_one\<close> returns: the kind, the task's extra fields, the table to re-index.\<close>

datatype executed = Executed string pyrow "string option"

definition embed_rows :: "wenv \<Rightarrow> tablespec \<Rightarrow> pyrow list \<Rightarrow> (vecs \<times> toks) res" where
  "embed_rows ev spec recs = (case e_emb ev of
       None \<Rightarrow> Inr ([], []) | Some em \<Rightarrow> embed_records em spec recs)"

fun execute_one :: "wenv \<Rightarrow> string \<Rightarrow> string \<Rightarrow> wop \<Rightarrow> (wstate, exn, executed) sm" where
  "execute_one ev ds ts (OpInsert table rws skip) =
     bindM (readM (\<lambda>s. validate (e_cfg ev) (w_db s) table rws skip)) (\<lambda>recs.
     bindM (liftM (schema_table (cfg_schema (e_cfg ev)) table)) (\<lambda>spec.
     if recs = [] then returnM (Executed ''insert'' [] None)
     else
       bindM (liftM (embed_rows ev spec recs)) (\<lambda>(vs, ks).
       bindM (on_files (write_puts spec recs ds ts)) (\<lambda>_.
       bindM (on_db (commit_rows (e_cfg ev) (e_duck ev) spec recs vs ks (PStr ds) (PStr ts) False)) (\<lambda>_.
       bindM (on_db (index_search_rows (e_cfg ev) spec recs vs ks)) (\<lambda>_.
       returnM (Executed ''insert'' [] (if e_emb ev \<noteq> None then Some table else None))))))))"
| "execute_one ev ds ts (OpDelete table wh params) =
     bindM (readM (\<lambda>s. match_live (e_cfg ev) (e_duck ev) (w_db s) table wh params)) (\<lambda>keys.
     bindM (on_files (write_deletes table keys ds ts)) (\<lambda>_.
     bindM (on_db (soft_delete (e_cfg ev) (e_duck ev) table keys (PStr ds) (PStr ts))) (\<lambda>_.
     returnM (Executed ''delete'' [(''matched'', PInt (int (length keys)))] None))))"
| "execute_one ev ds ts (OpUnknown k) = raiseM (Exn QueryError ''unknown write op'')"

text \<open>The public entry points before the queue: \<open>delete\<close> needs a non-empty \<open>where\<close>.\<close>

definition delete_op :: "string \<Rightarrow> string option \<Rightarrow> pyval list \<Rightarrow> wop res" where
  "delete_op table wh params = (case wh of
       None \<Rightarrow> raise QueryError ''delete requires a where clause''
     | Some w \<Rightarrow> if w = [] then raise QueryError ''delete requires a where clause''
                else Inr (OpDelete table w params))"

section \<open>A batch of the worker\<close>

record bstate =
  b_w :: wstate
  b_log :: tlog

text \<open>A queued operation with the clock readings of its execution and its task's id.\<close>

record job =
  j_op :: wop
  j_ds :: string
  j_ts :: string
  j_id :: string

text \<open>The execution loop: results in queue order, the state threaded through, failures kept.\<close>

fun execute_batch :: "wenv \<Rightarrow> job list \<Rightarrow> wstate \<Rightarrow> executed res list \<times> wstate" where
  "execute_batch ev [] s = ([], s)"
| "execute_batch ev (j # js) s =
     (let (r, s1) = execute_one ev (j_ds j) (j_ts j) (j_op j) s;
          (rs, s2) = execute_batch ev js s1 in (r # rs, s2))"

fun fts_table :: "executed res \<Rightarrow> string list" where
  "fts_table (Inr (Executed k x (Some t))) = (if t = [] then [] else [t])"
| "fts_table _ = []"

text \<open>\<open>for t in fts_tables: with suppress(Exception)\<close>.\<close>

fun rebuild_tables :: "wenv \<Rightarrow> string list \<Rightarrow> wstate \<Rightarrow> wstate" where
  "rebuild_tables ev [] s = s"
| "rebuild_tables ev (t # ts) s = rebuild_tables ev ts (snd (on_db (rebuild_fts (e_cfg ev) t) s))"

definition born_done :: "string \<Rightarrow> string \<Rightarrow> executed \<Rightarrow> task" where
  "born_done i ts ex = (case ex of Executed kind extra _ \<Rightarrow>
     (mk_task i kind)\<lparr>t_matched := dict_get extra ''matched'',
        t_submitted_at := PStr ts, t_finished_at := PStr ts\<rparr>)"

text \<open>\<open>for task in tasks: await self._tasks.append(task)\<close>.\<close>

fun append_tasks :: "task list \<Rightarrow> (tlog, exn, unit) sm" where
  "append_tasks [] lg = (Inr (), lg)"
| "append_tasks (t # ts) lg = (case task_append lg t of
       Inl e \<Rightarrow> (Inl e, lg) | Inr lg' \<Rightarrow> append_tasks ts lg')"

definition batch_tasks :: "string \<Rightarrow> job list \<Rightarrow> executed res list \<Rightarrow> task list" where
  "batch_tasks ts js rs =
     concat (map (\<lambda>(j, r). case r of Inl e \<Rightarrow> [] | Inr ex \<Rightarrow> [born_done (j_id j) ts ex]) (zip js rs))"

text \<open>
  \<open>_process_batch\<close> inside the worker's \<open>try\<close>: the future of every queued operation ends with
  its exception, its task, or the exception that appending the tasks raised.
\<close>

definition process_batch :: "wenv \<Rightarrow> string \<Rightarrow> job list \<Rightarrow> bstate \<Rightarrow> task res list \<times> bstate" where
  "process_batch ev ts js b =
     (let (rs, w1) = execute_batch ev js (b_w b);
          w2 = rebuild_tables ev (remdups (concat (map fts_table rs))) w1;
          (q, lg) = append_tasks (batch_tasks ts js rs) (b_log b);
          out = map (\<lambda>(j, r). case r of
                   Inl e \<Rightarrow> Inl e
                 | Inr ex \<Rightarrow> (case q of Inl e \<Rightarrow> Inl e | Inr _ \<Rightarrow> Inr (born_done (j_id j) ts ex))) (zip js rs)
      in (out, \<lparr>b_w = w2, b_log = lg\<rparr>))"

section \<open>Frames\<close>

lemma on_files_Inr: "on_files m s = (q, s') \<longleftrightarrow> (\<exists>f. m (w_files s) = (q, f) \<and> s' = s\<lparr>w_files := f\<rparr>)"
  by (auto simp: on_files_def split: prod.splits)

lemma on_db_Inr: "on_db m s = (q, s') \<longleftrightarrow> (\<exists>d. m (w_db s) = (q, d) \<and> s' = s\<lparr>w_db := d\<rparr>)"
  by (auto simp: on_db_def split: prod.splits)

lemma readM_Inr: "readM f s = (q, s') \<longleftrightarrow> f s = q \<and> s' = s"
  by (auto simp: readM_def)

lemma returnM_Inr: "returnM a s = (q, s') \<longleftrightarrow> q = Inr a \<and> s' = s"
  by auto

lemma liftM_Inr: "liftM r s = (q, s') \<longleftrightarrow> q = r \<and> s' = s"
  by auto

lemmas sm_iff = bindM_Inr on_files_Inr on_db_Inr readM_Inr returnM_Inr liftM_Inr

lemma insert_Inr:
  assumes "execute_one ev ds ts (OpInsert table rws skip) s = (Inr ex, s')"
  obtains (none) spec where "validate (e_cfg ev) (w_db s) table rws skip = Inr []"
      "schema_table (cfg_schema (e_cfg ev)) table = Inr spec" "s' = s" "ex = Executed ''insert'' [] None"
  | (some) spec recs vs ks m d1 d2 where
      "validate (e_cfg ev) (w_db s) table rws skip = Inr recs" "recs \<noteq> []"
      "schema_table (cfg_schema (e_cfg ev)) table = Inr spec"
      "embed_rows ev spec recs = Inr (vs, ks)"
      "write_puts spec recs ds ts (w_files s) = (Inr (), m)"
      "commit_rows (e_cfg ev) (e_duck ev) spec recs vs ks (PStr ds) (PStr ts) False (w_db s) = (Inr (), d1)"
      "index_search_rows (e_cfg ev) spec recs vs ks d1 = (Inr (), d2)"
      "s' = s\<lparr>w_files := m, w_db := d2\<rparr>"
      "ex = Executed ''insert'' [] (if e_emb ev \<noteq> None then Some table else None)"
proof -
  obtain recs spec where v: "validate (e_cfg ev) (w_db s) table rws skip = Inr recs"
    and sp: "schema_table (cfg_schema (e_cfg ev)) table = Inr spec"
    using assms by (auto simp: sm_iff)
  show thesis
  proof (cases "recs = []")
    case True
    then show thesis using assms v sp by (intro none [of spec]) (auto simp: sm_iff)
  next
    case False
    then obtain vs ks m d1 d2 where "embed_rows ev spec recs = Inr (vs, ks)"
      "write_puts spec recs ds ts (w_files s) = (Inr (), m)"
      "commit_rows (e_cfg ev) (e_duck ev) spec recs vs ks (PStr ds) (PStr ts) False (w_db s) = (Inr (), d1)"
      "index_search_rows (e_cfg ev) spec recs vs ks d1 = (Inr (), d2)"
      "s' = s\<lparr>w_files := m, w_db := d2\<rparr>"
      "ex = Executed ''insert'' [] (if e_emb ev \<noteq> None then Some table else None)"
      using assms v sp by (auto simp: sm_iff split: prod.splits)
    then show thesis by (rule some [OF v False sp])
  qed
qed

end
