(* ===== verification/Admin_Rebuild.thy ===== *)
theory Admin_Rebuild
  imports Write_Service
begin

text \<open>
  \<open>service/admin_service.py\<close>: \<open>_replay\<close> rebuilds the database from the file mirror. It first
  reads the events of every table and embeds the puts, then clears every table, and then per
  table reloads the rows, re-applies the tombstones and refreshes the search indexes. A JSON
  line that is not an object makes \<open>"_deleted" in rec\<close>, \<open>rec["_deleted"]\<close> or \<open>p.get\<close> raise.
\<close>

section \<open>Reading the events\<close>

definition contains_text :: "string \<Rightarrow> string \<Rightarrow> bool" where
  "contains_text p s \<longleftrightarrow> list_ex (\<lambda>i. starts_with p (drop i s)) [0..<Suc (length s)]"

type_synonym del = "string \<times> string \<times> pyval"

fun split_events :: "(string \<times> pyval) list \<Rightarrow> (pyval list \<times> del list) res" where
  "split_events [] = Inr ([], [])"
| "split_events ((ds, rec) # evs) =
     bindR (case rec of
         PDict d \<Rightarrow> (case map_of d ''_deleted'' of
             Some k \<Rightarrow> Inr ([], [(py_str k, ds, dict_get d ''deleted_at'')])
           | None \<Rightarrow> Inr ([rec], []))
       | PList xs \<Rightarrow> if PStr ''_deleted'' \<in> set xs then raise PyTypeError ''list indices must be integers''
                    else Inr ([rec], [])
       | PStr s \<Rightarrow> if contains_text ''_deleted'' s then raise PyTypeError ''string indices must be integers''
                  else Inr ([rec], [])
       | _ \<Rightarrow> raise PyTypeError ''argument is not iterable'') (\<lambda>(ps, ds1).
     bindR (split_events evs) (\<lambda>(puts, dels). Inr (ps @ puts, ds1 @ dels)))"

definition as_object :: "pyval \<Rightarrow> pyrow res" where
  "as_object p = (case p of PDict d \<Rightarrow> Inr d | _ \<Rightarrow> raise PyAttributeError ''get'')"

record replay_table =
  rt_recs :: "pyrow list"
  rt_vecs :: vecs
  rt_toks :: toks
  rt_dels :: "del list"
  rt_ds :: "pyval list"
  rt_ca :: "pyval list"

definition read_table :: "wenv \<Rightarrow> mirror \<Rightarrow> tablespec \<Rightarrow> replay_table res" where
  "read_table ev m spec =
     bindR (split_events (iter_events m (ts_name spec))) (\<lambda>(puts, dels).
     bindR (mapR as_object puts) (\<lambda>ps.
     (let recs = map (norm_record spec) ps in
      bindR (embed_rows ev spec recs) (\<lambda>(vs, ks).
      Inr \<lparr>rt_recs = recs, rt_vecs = vs, rt_toks = ks, rt_dels = dels,
           rt_ds = map (\<lambda>p. dict_get p ''ds'') ps,
           rt_ca = map (\<lambda>p. dict_get p ''created_at'') ps\<rparr>))))"

section \<open>Reloading\<close>

text \<open>\<open>{c: [cols[c][i]] for c in cols}\<close>: one record's vectors or tokens.\<close>

definition single :: "(string, 'a option list) dict \<Rightarrow> nat \<Rightarrow> (string, 'a option list) dict" where
  "single cols i = map (\<lambda>(c, xs). (c, [xs ! i])) cols"

definition or_now :: "pyval \<Rightarrow> string \<Rightarrow> pyval" where
  "or_now v now = (if truthy v then v else PStr now)"

definition reload_row ::
    "wenv \<Rightarrow> (nat \<Rightarrow> string) \<Rightarrow> tablespec \<Rightarrow> replay_table \<Rightarrow> nat \<times> pyrow \<Rightarrow> (db, exn, unit) sm" where
  "reload_row ev now spec rt = (\<lambda>(i, rec).
     commit_rows (e_cfg ev) (e_duck ev) spec [rec] (single (rt_vecs rt) i) (single (rt_toks rt) i)
       (rt_ds rt ! i) (or_now (rt_ca rt ! i) (now i)) False)"

definition reload_delete :: "wenv \<Rightarrow> tablespec \<Rightarrow> del \<Rightarrow> (db, exn, unit) sm" where
  "reload_delete ev spec = (\<lambda>(k, ds, dat).
     soft_delete (e_cfg ev) (e_duck ev) (ts_name spec) [PStr k] (PStr ds) dat)"

definition reload_table ::
    "wenv \<Rightarrow> (nat \<Rightarrow> string) \<Rightarrow> tablespec \<times> replay_table \<Rightarrow> (db, exn, unit) sm" where
  "reload_table ev now = (\<lambda>(spec, rt).
     bindM (forM (reload_row ev now spec rt) (enumerate 0 (rt_recs rt))) (\<lambda>_.
     bindM (forM (reload_delete ev spec) (rt_dels rt)) (\<lambda>_.
     bindM (rebuild_fts (e_cfg ev) (ts_name spec)) (\<lambda>_.
     rebuild_search_index (e_cfg ev) spec (rt_recs rt) (rt_vecs rt) (rt_toks rt)))))"

definition replay_stats :: "(tablespec \<times> replay_table) list \<Rightarrow> pyrow" where
  "replay_stats rts =
     [(''tables'', PInt (int (length rts))),
      (''rows'', PInt (int (sum_list (map (\<lambda>(s, rt). length (rt_recs rt)) rts)))),
      (''tombstones'', PInt (int (sum_list (map (\<lambda>(s, rt). length (rt_dels rt)) rts))))]"

definition replay :: "wenv \<Rightarrow> mirror \<Rightarrow> (nat \<Rightarrow> string) \<Rightarrow> (db, exn, pyrow) sm" where
  "replay ev m now =
     (let specs = sc_tables (cfg_schema (e_cfg ev)) in
      bindM (liftM (mapR (\<lambda>spec. bindR (read_table ev m spec) (\<lambda>rt. Inr (spec, rt))) specs)) (\<lambda>rts.
      bindM (forM (\<lambda>spec. clear_table (ts_name spec)) specs) (\<lambda>_.
      bindM (forM (reload_table ev now) rts) (\<lambda>_.
      returnM (replay_stats rts)))))"

section \<open>What a put is stored as\<close>

text \<open>The vector and the tokens of a cell under an embedder that works text by text.\<close>

definition cell_vec :: "wenv \<Rightarrow> (string \<Rightarrow> real list) \<Rightarrow> pyval \<Rightarrow> real list option" where
  "cell_vec ev g v = (case e_emb ev of None \<Rightarrow> None | Some em \<Rightarrow> vec_of g v)"

definition cell_tok :: "wenv \<Rightarrow> pyval \<Rightarrow> string option" where
  "cell_tok ev v = (case e_emb ev of None \<Rightarrow> None | Some em \<Rightarrow> tok_of em v)"

definition emb_ok :: "wenv \<Rightarrow> (string \<Rightarrow> real list) \<Rightarrow> bool" where
  "emb_ok ev g \<longleftrightarrow> (case e_emb ev of None \<Rightarrow> True | Some em \<Rightarrow> pointwise em g)"

definition one_payload ::
    "wenv \<Rightarrow> (string \<Rightarrow> real list) \<Rightarrow> tablespec \<Rightarrow> pyval \<Rightarrow> pyval \<Rightarrow> pyrow \<Rightarrow> insert_row res" where
  "one_payload ev g spec ds now rec =
     bindR (mapR (\<lambda>c. bind_cell c rec) (ts_columns spec)) (\<lambda>cells.
     Inr \<lparr>ir_cells = cells, ir_ds = ds, ir_created_at = now,
       ir_vec = (if is_vss (e_cfg ev) then map (\<lambda>c. (c, cell_vec ev g (dict_get rec c))) (ts_searchable spec) else []),
       ir_tok = (if is_vss (e_cfg ev) then map (\<lambda>c. (c, cell_tok ev (dict_get rec c))) (ts_searchable spec) else [])\<rparr>)"

definition aligned :: "wenv \<Rightarrow> (string \<Rightarrow> real list) \<Rightarrow> tablespec \<Rightarrow> pyrow list \<Rightarrow> nat \<Rightarrow> vecs \<Rightarrow> toks \<Rightarrow> bool" where
  "aligned ev g spec recs i vs ks \<longleftrightarrow>
     (\<forall>j < length recs. \<forall>c \<in> set (ts_searchable spec).
        col_at (map_of vs c) (i + j) = cell_vec ev g (dict_get (recs ! j) c) \<and>
        col_at (map_of ks c) (i + j) = cell_tok ev (dict_get (recs ! j) c))"

lemma embed_rows_aligned:
  assumes "emb_ok ev g" and "embed_rows ev spec recs = Inr (vs, ks)"
  shows "aligned ev g spec recs 0 vs ks"
proof (cases "e_emb ev")
  case None
  then show ?thesis using assms
    by (auto simp: aligned_def embed_rows_def cell_vec_def cell_tok_def col_at_def)
next
  case (Some em)
  then have pw: "pointwise em g" using assms(1) by (simp add: emb_ok_def)
  then show ?thesis using assms(2) Some embed_records_pointwise [OF pw, of spec recs]
    by (auto simp: aligned_def embed_rows_def cell_vec_def cell_tok_def col_at_def)
qed

lemma embed_rows_total: "emb_ok ev g \<Longrightarrow> \<exists>vs ks. embed_rows ev spec recs = Inr (vs, ks)"
proof (cases "e_emb ev")
  case (Some em)
  assume "emb_ok ev g"
  then have "pointwise em g" using Some by (simp add: emb_ok_def)
  from embed_records_pointwise [OF this, of spec recs] Some show ?thesis
    by (auto simp: embed_rows_def)
qed (simp add: embed_rows_def)

lemma insert_payload_each:
  "aligned ev g spec recs i vs ks \<Longrightarrow>
     insert_payload (e_cfg ev) spec i recs vs ks ds now = mapR (one_payload ev g spec ds now) recs"
proof (induction recs arbitrary: i)
  case (Cons rec recs)
  have "aligned ev g spec recs (Suc i) vs ks"
    unfolding aligned_def
  proof (intro allI impI ballI)
    fix j c assume "j < length recs" "c \<in> set (ts_searchable spec)"
    then show "col_at (map_of vs c) (Suc i + j) = cell_vec ev g (dict_get (recs ! j) c) \<and>
        col_at (map_of ks c) (Suc i + j) = cell_tok ev (dict_get (recs ! j) c)"
      using Cons.prems unfolding aligned_def by (auto dest: spec [of _ "Suc j"])
  qed
  note rec = Cons.IH [OF this]
  have maps: "map (\<lambda>c. (c, col_at (map_of vs c) i)) (ts_searchable spec) =
      map (\<lambda>c. (c, cell_vec ev g (dict_get rec c))) (ts_searchable spec)"
    "map (\<lambda>c. (c, col_at (map_of ks c) i)) (ts_searchable spec) =
      map (\<lambda>c. (c, cell_tok ev (dict_get rec c))) (ts_searchable spec)"
    using Cons.prems unfolding aligned_def by (auto dest!: spec [of _ 0])
  show ?case
    by (cases "mapR (\<lambda>c. bind_cell c rec) (ts_columns spec)")
      (simp_all add: one_payload_def [of ev g spec ds now rec] maps rec)
qed simp

text \<open>\<open>made ev g spec ds now rec r\<close>: \<open>r\<close> is the row that a put of \<open>rec\<close> stores.\<close>

definition made ::
    "wenv \<Rightarrow> (string \<Rightarrow> real list) \<Rightarrow> tablespec \<Rightarrow> pyval \<Rightarrow> pyval \<Rightarrow> pyrow \<Rightarrow> row \<Rightarrow> bool" where
  "made ev g spec ds now rec r \<longleftrightarrow>
     (\<exists>ir. one_payload ev g spec ds now rec = Inr ir \<and> stored_row (e_duck ev) spec ir = Inr r)"

lemma made_fun: "made ev g spec ds now rec r \<Longrightarrow> made ev g spec ds now rec r' \<Longrightarrow> r = r'"
  by (auto simp: made_def)

lemma stored_row_live: "stored_row x spec ir = Inr r \<Longrightarrow> r_deleted_ds r = None \<and> r_deleted_at r = None"
  by (auto simp: stored_row_def bindR_Inr_iff)

lemma made_live: "made ev g spec ds now rec r \<Longrightarrow> r_deleted_ds r = None \<and> r_deleted_at r = None"
  by (auto simp: made_def dest: stored_row_live)

lemma commit_rows_made:
  assumes "aligned ev g spec recs 0 vs ks"
    and "commit_rows (e_cfg ev) (e_duck ev) spec recs vs ks ds now False d = (Inr u, d')"
    and "keyed spec (rows_of d (ts_name spec))"
  shows "\<exists>rs. rows_of d' (ts_name spec) = rows_of d (ts_name spec) @ rs \<and>
      list_all2 (made ev g spec ds now) recs rs \<and> keyed spec (rows_of d (ts_name spec) @ rs)"
    and "\<forall>t. t \<noteq> ts_name spec \<longrightarrow> rows_of d' t = rows_of d t"
    and "db_fts d' = db_fts d" and "db_lance d' = db_lance d"
proof -
  obtain irs where irs: "mapR (one_payload ev g spec ds now) recs = Inr irs"
    and ins: "forM (insert_one (e_duck ev) spec) irs d = (Inr u, d')"
    using assms(2) insert_payload_each [OF assms(1)]
    by (auto simp: commit_rows_def insert_rows_def bindM_Inr)
  obtain rs where rs: "rows_of d' (ts_name spec) = rows_of d (ts_name spec) @ rs"
    and m: "list_all2 (\<lambda>ir r. stored_row (e_duck ev) spec ir = Inr r \<and> pk_of spec r \<noteq> PNone) irs rs"
    using ins.forM_rows [OF ins] by blast
  have "list_all2 (made ev g spec ds now) recs rs"
    using irs m unfolding mapR_Inr_iff list_all2_conv_all_nth made_def by auto
  with rs forM_insert_keyed [OF ins assms(3)]
  show "\<exists>rs. rows_of d' (ts_name spec) = rows_of d (ts_name spec) @ rs \<and>
      list_all2 (made ev g spec ds now) recs rs \<and> keyed spec (rows_of d (ts_name spec) @ rs)" by auto
  show "\<forall>t. t \<noteq> ts_name spec \<longrightarrow> rows_of d' t = rows_of d t"
    and "db_fts d' = db_fts d" and "db_lance d' = db_lance d"
    using forM_insert_frame [OF ins] by auto
qed

text \<open>Conversely one record that is made into a row with a new key is inserted.\<close>

lemma insert_made:
  assumes "aligned ev g spec [rec] 0 vs ks" and "made ev g spec ds now rec r"
    and "keyed spec (rows_of d (ts_name spec) @ [r])"
  shows "commit_rows (e_cfg ev) (e_duck ev) spec [rec] vs ks ds now False d =
    (Inr (), set_rows d (ts_name spec) (rows_of d (ts_name spec) @ [r]))"
proof -
  obtain ir where ir: "one_payload ev g spec ds now rec = Inr ir" "stored_row (e_duck ev) spec ir = Inr r"
    using assms(2) by (auto simp: made_def)
  have "insert_one (e_duck ev) spec ir d = (Inr (), set_rows d (ts_name spec) (rows_of d (ts_name spec) @ [r]))"
  proof -
    have "pk_of spec r \<noteq> PNone" "\<not> list_ex (\<lambda>q. pk_of spec q = pk_of spec r) (rows_of d (ts_name spec))"
      using assms(3) unfolding keyed_def list_ex_iff by auto (metis image_eqI)
    then show ?thesis using ir(2) by (simp add: insert_one_def Let_def pk_of_def)
  qed
  then show ?thesis
    using insert_payload_each [OF assms(1), of ds now] ir(1)
    by (simp add: commit_rows_def insert_rows_def bindM_def liftM_def returnM_def)
qed

end
