(* ===== verification/Rebuild_Sync.thy ===== *)
theory Rebuild_Sync
  imports Admin_Rebuild
begin

text \<open>
  The file mirror and the database agree: the rows of a table are what replaying its events
  gives (\<open>sync_table\<close>). Every successful write keeps that (\<open>insert_synced\<close>,
  \<open>delete_synced\<close>), and a rebuild of an agreeing mirror reproduces the rows.
\<close>

section \<open>What is assumed of the database engine\<close>

text \<open>
  Binding: text stays itself in a \<open>VARCHAR\<close> column, whose values are texts or NULL; the values
  of a \<open>BIGINT\<close> column are integers or NULL. Selection: the delete's \<open>SELECT\<close> over the
  current-state view returns primary keys of live rows of the table.
\<close>

definition conv_ok :: "duck \<Rightarrow> bool" where
  "conv_ok x \<longleftrightarrow> (\<forall>s. x_conv x ''VARCHAR'' (PStr s) = Inr (PStr s)) \<and>
     (\<forall>v w. x_conv x ''VARCHAR'' v = Inr w \<longrightarrow> w = PNone \<or> (\<exists>s. w = PStr s)) \<and>
     (\<forall>v w. x_conv x ''BIGINT'' v = Inr w \<longrightarrow> w = PNone \<or> (\<exists>i. w = PInt i))"

definition select_ok :: "store_cfg \<Rightarrow> duck \<Rightarrow> bool" where
  "select_ok cfg x \<longleftrightarrow> (\<forall>d spec table stmt sql ps ks. schema_table (cfg_schema cfg) table = Inr spec \<longrightarrow>
     match_live_sql spec table stmt = Inr sql \<longrightarrow> x_select x d sql ps = Inr ks \<longrightarrow>
     set ks \<subseteq> pk_of spec ` set (visible_rows None None (rows_of d table)))"

lemma meta_cell_str: "conv_ok x \<Longrightarrow> meta_cell x (PStr s) = Inr (Some s)"
  by (simp add: conv_ok_def meta_cell_def)

section \<open>Primary keys as text\<close>

definition pk_kind :: "pyval \<Rightarrow> pyval \<Rightarrow> bool" where
  "pk_kind v w \<longleftrightarrow> (\<exists>s t. v = PStr s \<and> w = PStr t) \<or> (\<exists>i j. v = PInt i \<and> w = PInt j)"

lemma pk_kind_inj: "pk_kind v w \<Longrightarrow> py_str v = py_str w \<Longrightarrow> v = w"
  by (auto simp: pk_kind_def show_int_inj)

lemma primary_column:
  assumes "wf_table spec"
  obtains c where "c \<in> set (ts_columns spec)" "c_name c = ts_primary spec"
    "c_sql_type c = ''VARCHAR'' \<or> c_sql_type c = ''BIGINT''"
proof -
  obtain c where c: "c \<in> set (ts_columns spec)" "c_name c = ts_primary spec" "c_type c \<in> set PRIMARY_OK"
    using assms by (auto simp: wf_table_def has_column_def list_ex_iff)
  then have "sql_type_of (PStr (c_type c)) = Inr (c_sql_type c)"
    using assms by (auto simp: wf_table_def list_all_iff wf_column_def)
  then have "c_sql_type c = ''VARCHAR'' \<or> c_sql_type c = ''BIGINT''"
    using c(3) by (auto simp: PRIMARY_OK_def sql_type_of_def SCALAR_SQL_def)
  with c that show thesis by blast
qed

lemma zip_map_of_nth:
  "distinct ks \<Longrightarrow> length ks = length vs \<Longrightarrow> i < length ks \<Longrightarrow> map_of (zip ks vs) (ks ! i) = Some (vs ! i)"
  by (metis length_zip map_of_is_SomeI map_fst_zip min.idem nth_mem nth_zip)

lemma stored_pk:
  assumes "stored_row x spec ir = Inr r" and "wf_table spec" and "length (ir_cells ir) = length (ts_columns spec)"
    and "c \<in> set (ts_columns spec)" and "c_name c = ts_primary spec"
  shows "\<exists>v. x_conv x (c_sql_type c) v = Inr (pk_of spec r)"
proof -
  obtain cells where cells: "mapR (\<lambda>(c, v). x_conv x (c_sql_type c) v) (zip (ts_columns spec) (ir_cells ir)) = Inr cells"
    and r: "r_cells r = zip (column_names spec) cells"
    using assms(1) by (auto simp: stored_row_def bindR_Inr_iff)
  obtain i where i: "i < length (ts_columns spec)" "ts_columns spec ! i = c"
    using assms(4) by (auto simp: in_set_conv_nth)
  have len: "length cells = length (ts_columns spec)" using mapR_length [OF cells] assms(3) by simp
  have "x_conv x (c_sql_type c) (ir_cells ir ! i) = Inr (cells ! i)"
    using cells i assms(3) unfolding mapR_Inr_iff list_all2_conv_all_nth by auto
  moreover have "map_of (zip (column_names spec) cells) (column_names spec ! i) = Some (cells ! i)"
    using assms(2) i len by (intro zip_map_of_nth) (auto simp: wf_table_def column_names_def)
  then have "pk_of spec r = cells ! i"
    using i assms(5) by (simp add: pk_of_def r dict_get_def column_names_def)
  ultimately show ?thesis by auto
qed

lemma one_payload_length:
  "one_payload ev g spec ds now rec = Inr ir \<Longrightarrow> length (ir_cells ir) = length (ts_columns spec)"
  by (auto simp: one_payload_def bindR_Inr_iff dest: mapR_length)

lemma made_pk_kind:
  assumes "conv_ok (e_duck ev)" and "wf_table spec"
    and "made ev g spec ds now rec r" and "made ev g spec ds' now' rec' r'"
    and "pk_of spec r \<noteq> PNone" and "pk_of spec r' \<noteq> PNone"
  shows "pk_kind (pk_of spec r) (pk_of spec r')"
proof -
  obtain c where c: "c \<in> set (ts_columns spec)" "c_name c = ts_primary spec"
    "c_sql_type c = ''VARCHAR'' \<or> c_sql_type c = ''BIGINT''" by (rule primary_column [OF assms(2)])
  have "\<exists>v. x_conv (e_duck ev) (c_sql_type c) v = Inr (pk_of spec q)" if "made ev g spec a b z q" for a b z q
    using that stored_pk [OF _ assms(2) _ c(1,2)] one_payload_length by (auto simp: made_def)
  from this [OF assms(3)] this [OF assms(4)] c(3) assms(1,5,6) show ?thesis
    by (fastforce simp: conv_ok_def pk_kind_def)
qed

section \<open>Agreement\<close>

definition del_at :: "pyval \<Rightarrow> string option" where
  "del_at v = (case v of PStr s \<Rightarrow> Some s | _ \<Rightarrow> None)"

definition apply_del :: "tablespec \<Rightarrow> del \<Rightarrow> row list \<Rightarrow> row list" where
  "apply_del spec = (\<lambda>(k, ds, dat). map (mark_deleted spec [k] (Some ds) (del_at dat)))"

definition apply_dels :: "tablespec \<Rightarrow> del list \<Rightarrow> row list \<Rightarrow> row list" where
  "apply_dels spec dels rs = foldl (\<lambda>rs d. apply_del spec d rs) rs dels"

definition put_made :: "wenv \<Rightarrow> (string \<Rightarrow> real list) \<Rightarrow> tablespec \<Rightarrow> pyrow \<Rightarrow> row \<Rightarrow> bool" where
  "put_made ev g spec p r \<longleftrightarrow>
     made ev g spec (dict_get p ''ds'') (dict_get p ''created_at'') (norm_record spec p) r \<and>
     truthy (dict_get p ''created_at'')"

definition sync_parts ::
    "wenv \<Rightarrow> (string \<Rightarrow> real list) \<Rightarrow> tablespec \<Rightarrow> (string \<times> pyval) list \<Rightarrow> row list
      \<Rightarrow> pyrow list \<Rightarrow> del list \<Rightarrow> row list \<Rightarrow> bool" where
  "sync_parts ev g spec evs rows puts dels rs0 \<longleftrightarrow>
     split_events evs = Inr (map PDict puts, dels) \<and> list_all2 (put_made ev g spec) puts rs0 \<and>
     rows = apply_dels spec dels rs0 \<and> keyed spec rs0 \<and>
     (\<forall>(k, ds, dat) \<in> set dels. k \<in> pk_text spec ` set rs0 \<and> (\<exists>s. dat = PStr s))"

definition sync_table ::
    "wenv \<Rightarrow> (string \<Rightarrow> real list) \<Rightarrow> tablespec \<Rightarrow> (string \<times> pyval) list \<Rightarrow> row list \<Rightarrow> bool" where
  "sync_table ev g spec evs rows \<longleftrightarrow> (\<exists>puts dels rs0. sync_parts ev g spec evs rows puts dels rs0)"

definition synced :: "wenv \<Rightarrow> (string \<Rightarrow> real list) \<Rightarrow> wstate \<Rightarrow> bool" where
  "synced ev g s \<longleftrightarrow> log_ok (w_files s) \<and>
     (\<forall>spec \<in> set (sc_tables (cfg_schema (e_cfg ev))).
        sync_table ev g spec (iter_events (w_files s) (ts_name spec)) (rows_of (w_db s) (ts_name spec)))"

definition days_upto :: "string \<Rightarrow> mirror \<Rightarrow> bool" where
  "days_upto ds m \<longleftrightarrow> (\<forall>d \<in> fst ` set (dict_keys m). d \<le> ds)"

lemma apply_dels_simps [simp]:
  "apply_dels spec [] rs = rs"
  "apply_dels spec (d # ds) rs = apply_dels spec ds (apply_del spec d rs)"
  "apply_dels spec (ds1 @ ds2) rs = apply_dels spec ds2 (apply_dels spec ds1 rs)"
  by (simp_all add: apply_dels_def)

lemma apply_del_pk [simp]:
  "map (pk_of spec') (apply_del spec d rs) = map (pk_of spec') rs"
  "map (pk_text spec') (apply_del spec d rs) = map (pk_text spec') rs"
  by (cases d; simp add: apply_del_def comp_def)+

lemma apply_dels_pk [simp]:
  "map (pk_of spec') (apply_dels spec ds rs) = map (pk_of spec') rs"
  "map (pk_text spec') (apply_dels spec ds rs) = map (pk_text spec') rs"
  by (induction ds arbitrary: rs) simp_all

lemma keyed_apply_dels [simp]: "keyed spec (apply_dels spec' ds rs @ rs') = keyed spec (rs @ rs')"
  "keyed spec (apply_dels spec' ds rs) = keyed spec rs"
  by (simp_all add: keyed_def)

lemma apply_dels_append:
  "(\<forall>(k, ds, dat) \<in> set dels. k \<notin> pk_text spec ` set rs') \<Longrightarrow>
     apply_dels spec dels (rs @ rs') = apply_dels spec dels rs @ rs'"
proof (induction dels arbitrary: rs)
  case (Cons d dels)
  obtain k ds dat where d: "d = (k, ds, dat)" by (cases d) auto
  have "map (mark_deleted spec [k] (Some ds) (del_at dat)) rs' = rs'"
    using Cons.prems d by (intro map_idI) (auto simp: mark_deleted_def)
  then show ?case using Cons d by (simp add: apply_del_def)
qed simp

text \<open>One \<open>UPDATE\<close> over several keys is the tombstones one after the other.\<close>

lemma mark_list:
  "map (mark_deleted spec (map py_str keys) (Some ds) (Some ts)) rows =
     apply_dels spec (map (\<lambda>k. (py_str k, ds, PStr ts)) keys) rows"
proof (induction keys arbitrary: rows)
  case Nil
  then show ?case by (simp add: mark_deleted_def)
next
  case (Cons k keys)
  have "mark_deleted spec (map py_str (k # keys)) (Some ds) (Some ts) r =
      mark_deleted spec (map py_str keys) (Some ds) (Some ts) (mark_deleted spec [py_str k] (Some ds) (Some ts) r)" for r
    by (auto simp: mark_deleted_def pk_text_def)
  then have "map (mark_deleted spec (map py_str (k # keys)) (Some ds) (Some ts)) rows =
      map (mark_deleted spec (map py_str keys) (Some ds) (Some ts))
        (map (mark_deleted spec [py_str k] (Some ds) (Some ts)) rows)" by simp
  also have "\<dots> = apply_dels spec (map (\<lambda>k. (py_str k, ds, PStr ts)) (k # keys)) rows"
    unfolding Cons.IH by (simp add: apply_del_def del_at_def)
  finally show ?case .
qed

lemma split_events_append:
  "split_events a = Inr (p1, d1) \<Longrightarrow> split_events b = Inr (p2, d2) \<Longrightarrow>
     split_events (a @ b) = Inr (p1 @ p2, d1 @ d2)"
proof (induction a arbitrary: p1 d1)
  case (Cons e evs)
  obtain ds rec where e: "e = (ds, rec)" by fastforce
  show ?case using Cons by (fastforce simp: e bindR_Inr_iff)
qed simp

lemma split_events_puts:
  "list_all (\<lambda>d. map_of d ''_deleted'' = None) ps \<Longrightarrow>
     split_events (map (\<lambda>d. (ds, PDict d)) ps) = Inr (map PDict ps, [])"
  by (induction ps) auto

lemma split_events_dels:
  "split_events (map (\<lambda>k. (ds, tombstone ts k)) keys) = Inr ([], map (\<lambda>k. (py_str k, ds, PStr ts)) keys)"
  by (induction keys) (auto simp: tombstone_def dict_get_def)

section \<open>Writing the lines of one operation\<close>

lemma forM_mirror:
  assumes "log_ok m" and "list_all record_ok vs" and "days_upto ds m"
    and "forM (mirror_append ds table) vs m = (Inr u, m')"
  shows "log_ok m' \<and> days_upto ds m' \<and>
     (\<forall>t. iter_events m' t = (if t = table then iter_events m t @ map (Pair ds) vs else iter_events m t))"
  using assms
proof (induction vs arbitrary: m)
  case (Cons v vs)
  then obtain m1 where m1: "mirror_append ds table v m = (Inr (), m1)" "forM (mirror_append ds table) vs m1 = (Inr u, m')"
    by (auto simp: bindM_Inr)
  have r: "record_ok v" using Cons.prems by simp
  note a = mirror_append_Inr [OF Cons.prems(1) r Cons.prems(3) [unfolded days_upto_def] m1(1)]
  have "log_ok m' \<and> days_upto ds m' \<and>
     (\<forall>t. iter_events m' t = (if t = table then iter_events m1 t @ map (Pair ds) vs else iter_events m1 t))"
    using Cons.IH [OF a(1) _ _ m1(2)] Cons.prems(2) a(2) by (simp add: days_upto_def)
  then show ?case using a(3) by simp
qed simp

definition put_dict :: "string \<Rightarrow> string \<Rightarrow> pyrow \<Rightarrow> pyrow" where
  "put_dict ds ts rec = rec @ [(''ds'', PStr ds), (''created_at'', PStr ts)]"

lemma wf_table_meta: "wf_table spec \<Longrightarrow> c \<in> set (column_names spec) \<Longrightarrow> c \<notin> set META_COLUMNS"
  by (auto simp: wf_table_def list_all_iff wf_column_def column_names_def)

lemma norm_keys: "dict_keys (norm_record spec rw) = column_names spec"
  by (simp add: norm_record_def comp_def)

lemma put_line_norm:
  assumes "wf_table spec" and "rec = norm_record spec rw"
  shows "put_line spec ds ts rec = Inr (PDict (put_dict ds ts rec))"
proof -
  have m: "''ds'' \<notin> set (column_names spec)" "''created_at'' \<notin> set (column_names spec)"
    using wf_table_meta [OF assms(1)] by (auto simp: META_COLUMNS_def)
  have "mapR (\<lambda>c. case map_of rec c of None \<Rightarrow> raise PyKeyError e | Some v \<Rightarrow> Inr (c, v)) (column_names spec)
      = Inr (map (\<lambda>c. (c, dict_get rw c)) (column_names spec))" for e
    by (rule mapR_map_Inr) (simp add: assms(2) norm_record_def map_of_map_key)
  moreover have "dict_set (dict_set rec ''ds'' (PStr ds)) ''created_at'' (PStr ts) = put_dict ds ts rec"
    using m by (simp add: dict_set_new assms(2) norm_keys put_dict_def)
  ultimately show ?thesis by (simp add: put_line_def assms(2) norm_record_def)
qed

lemma put_dict_get:
  assumes "wf_table spec" and "rec = norm_record spec rw"
  shows "dict_get (put_dict ds ts rec) ''ds'' = PStr ds" "dict_get (put_dict ds ts rec) ''created_at'' = PStr ts"
    and "norm_record spec (put_dict ds ts rec) = rec"
    and "''_deleted'' \<notin> set (column_names spec) \<Longrightarrow> map_of (put_dict ds ts rec) ''_deleted'' = None"
proof -
  have m: "''ds'' \<notin> set (column_names spec)" "''created_at'' \<notin> set (column_names spec)"
    using wf_table_meta [OF assms(1)] by (auto simp: META_COLUMNS_def)
  have none: "c \<notin> set (column_names spec) \<Longrightarrow> map_of rec c = None" for c
    by (simp add: assms(2) norm_record_def map_of_map_key)
  show "dict_get (put_dict ds ts rec) ''ds'' = PStr ds" "dict_get (put_dict ds ts rec) ''created_at'' = PStr ts"
    using none [OF m(1)] none [OF m(2)] by (simp_all add: put_dict_def dict_get_def map_add_def)
  show "norm_record spec (put_dict ds ts rec) = rec"
    by (auto simp: norm_record_def put_dict_def dict_get_def assms(2) map_add_def map_of_map_key)
  show "''_deleted'' \<notin> set (column_names spec) \<Longrightarrow> map_of (put_dict ds ts rec) ''_deleted'' = None"
    using none by (simp add: put_dict_def map_add_def)
qed

lemma put_dict_ok:
  assumes "wf_table spec" and "rec = norm_record spec rw" and "list_all (\<lambda>(k, v). wf_json v) rw"
  shows "record_ok (PDict (put_dict ds ts rec))"
proof -
  have m: "''ds'' \<notin> set (column_names spec)" "''created_at'' \<notin> set (column_names spec)"
    using wf_table_meta [OF assms(1)] by (auto simp: META_COLUMNS_def)
  have "wf_json (dict_get rw c)" for c
    using assms(3) by (auto simp: dict_get_def list_all_iff dest: map_of_SomeD split: option.splits)
  then show ?thesis
    using m assms(1) by (auto simp: record_ok_def put_dict_def assms(2) norm_record_def wf_table_def comp_def list_all_iff)
qed

lemma write_puts_Inr:
  assumes "wf_table spec" and "list_all (\<lambda>rec. \<exists>rw. rec = norm_record spec rw \<and> list_all (\<lambda>(k, v). wf_json v) rw) recs"
    and "log_ok m" and "days_upto ds m" and "write_puts spec recs ds ts m = (Inr u, m')"
  shows "log_ok m' \<and> days_upto ds m' \<and>
     (\<forall>t. iter_events m' t = (if t = ts_name spec
        then iter_events m t @ map (\<lambda>d. (ds, PDict d)) (map (put_dict ds ts) recs) else iter_events m t))"
proof -
  let ?lines = "map (\<lambda>rec. PDict (put_dict ds ts rec)) recs"
  have "mapR (put_line spec ds ts) recs = Inr ?lines"
    using assms(2) put_line_norm [OF assms(1)] by (intro mapR_map_Inr) (auto simp: list_all_iff)
  then have f: "forM (mirror_append ds (ts_name spec)) ?lines m = (Inr u, m')"
    using assms(5) by (simp add: write_puts_def bindM_def)
  have "list_all record_ok ?lines"
    using assms(2) put_dict_ok [OF assms(1)] by (auto simp: list_all_iff)
  from forM_mirror [OF assms(3) this assms(4) f] show ?thesis by (simp add: comp_def)
qed

section \<open>Writes keep the agreement\<close>

lemma rows_keyed: "sync_parts ev g spec evs rows puts dels rs0 \<Longrightarrow> keyed spec rows"
  by (simp add: sync_parts_def)

lemma list_all2_source: "list_all2 P xs ys \<Longrightarrow> y \<in> set ys \<Longrightarrow> \<exists>x \<in> set xs. P x y"
  by (induction rule: list_all2_induct) auto

lemma sync_table_insert:
  assumes "wf_table spec" and "conv_ok (e_duck ev)" and "''_deleted'' \<notin> set (column_names spec)" and "ts \<noteq> []"
    and "sync_table ev g spec evs rows"
    and "list_all (\<lambda>rec. \<exists>rw. rec = norm_record spec rw) recs"
    and "list_all2 (made ev g spec (PStr ds) (PStr ts)) recs rs" and "keyed spec (rows @ rs)"
  shows "sync_table ev g spec (evs @ map (\<lambda>d. (ds, PDict d)) (map (put_dict ds ts) recs)) (rows @ rs)"
proof -
  obtain puts dels rs0 where parts: "sync_parts ev g spec evs rows puts dels rs0"
    using assms(5) by (auto simp: sync_table_def)
  let ?new = "map (put_dict ds ts) recs"
  have rec: "\<exists>rw. rec = norm_record spec rw" if "rec \<in> set recs" for rec
    using assms(6) that by (auto simp: list_all_iff)
  have "split_events (map (\<lambda>d. (ds, PDict d)) ?new) = Inr (map PDict ?new, [])"
    using put_dict_get(4) [OF assms(1) _ assms(3)] rec
    by (intro split_events_puts) (fastforce simp: list_all_iff)
  then have ev': "split_events (evs @ map (\<lambda>d. (ds, PDict d)) ?new) = Inr (map PDict (puts @ ?new), dels)"
    using split_events_append [of evs "map PDict puts" dels] parts by (simp add: sync_parts_def)
  have "list_all2 (put_made ev g spec) ?new rs"
    using assms(7) unfolding list_all2_map1
  proof (rule list.rel_mono_strong)
    fix rec r assume "rec \<in> set recs" and "made ev g spec (PStr ds) (PStr ts) rec r"
    moreover obtain rw where "rec = norm_record spec rw" using rec calculation(1) by blast
    ultimately show "put_made ev g spec (put_dict ds ts rec) r"
      using put_dict_get(1-3) [OF assms(1)] assms(4) by (simp add: put_made_def)
  qed
  then have made': "list_all2 (put_made ev g spec) (puts @ ?new) (rs0 @ rs)"
    using parts by (simp add: sync_parts_def list_all2_appendI)
  have k: "keyed spec (rs0 @ rs)" using assms(8) parts by (simp add: sync_parts_def)
  have new_text: "pk_text spec r \<noteq> pk_text spec q" if r: "r \<in> set rs" and q: "q \<in> set rs0" for r q
  proof -
    have "list_all2 (put_made ev g spec) puts rs0" using parts by (simp add: sync_parts_def)
    then have mq: "\<exists>d n rec. made ev g spec d n rec q"
      using list_all2_source [OF _ q] by (fastforce simp: put_made_def)
    have mr: "\<exists>d n rec. made ev g spec d n rec r"
      using list_all2_source [OF assms(7) r] by blast
    have "pk_of spec q \<noteq> pk_of spec r" "pk_of spec q \<noteq> PNone" "pk_of spec r \<noteq> PNone"
    proof -
      have "pk_of spec q \<in> pk_of spec ` set rs0" "pk_of spec r \<in> pk_of spec ` set rs" using q r by auto
      then show "pk_of spec q \<noteq> pk_of spec r" "pk_of spec q \<noteq> PNone" "pk_of spec r \<noteq> PNone"
        using k unfolding keyed_def map_append distinct_append set_append list.set_map by (metis IntI UnI1 UnI2 empty_iff)+
    qed
    then show ?thesis
      using mq mr made_pk_kind [OF assms(2,1)] pk_kind_inj
      by (fastforce simp: pk_text_def pk_of_def)
  qed
  have "apply_dels spec dels (rs0 @ rs) = rows @ rs"
    using parts new_text by (subst apply_dels_append) (fastforce simp: sync_parts_def)+
  then have "sync_parts ev g spec (evs @ map (\<lambda>d. (ds, PDict d)) ?new) (rows @ rs) (puts @ ?new) dels (rs0 @ rs)"
    using ev' made' k parts by (auto simp: sync_parts_def)
  then show ?thesis by (auto simp: sync_table_def)
qed

lemma sync_table_delete:
  assumes "sync_table ev g spec evs rows" and "set (map py_str keys) \<subseteq> pk_text spec ` set rows"
  shows "sync_table ev g spec (evs @ map (\<lambda>k. (ds, tombstone ts k)) keys)
    (map (mark_deleted spec (map py_str keys) (Some ds) (Some ts)) rows)"
proof -
  obtain puts dels rs0 where parts: "sync_parts ev g spec evs rows puts dels rs0"
    using assms(1) by (auto simp: sync_table_def)
  let ?new = "map (\<lambda>k. (py_str k, ds, PStr ts)) keys"
  have "split_events (evs @ map (\<lambda>k. (ds, tombstone ts k)) keys) = Inr (map PDict puts, dels @ ?new)"
    using split_events_append [OF _ split_events_dels, of evs "map PDict puts" dels] parts
    by (simp add: sync_parts_def)
  moreover have "pk_text spec ` set rows = pk_text spec ` set rs0"
    using parts by (metis apply_dels_pk(2) list.set_map sync_parts_def)
  then have "\<forall>(k, d, dat) \<in> set ?new. k \<in> pk_text spec ` set rs0 \<and> (\<exists>s. dat = PStr s)"
    using assms(2) by auto
  ultimately have "sync_parts ev g spec (evs @ map (\<lambda>k. (ds, tombstone ts k)) keys)
      (apply_dels spec ?new rows) puts (dels @ ?new) rs0"
    using parts by (auto simp: sync_parts_def)
  then show ?thesis unfolding mark_list by (auto simp: sync_table_def)
qed

text \<open>
  The rows of an operation have JSON values; its conditions on the schema: no column is called
  \<open>_deleted\<close>.
\<close>

definition op_json :: "wop \<Rightarrow> bool" where
  "op_json op \<longleftrightarrow> (case op of
       OpInsert table rws skip \<Rightarrow> list_all (list_all (\<lambda>(k, v). wf_json v)) rws
     | _ \<Rightarrow> True)"

definition no_tombstone_column :: "store_cfg \<Rightarrow> bool" where
  "no_tombstone_column cfg \<longleftrightarrow>
     (\<forall>spec \<in> set (sc_tables (cfg_schema cfg)). ''_deleted'' \<notin> set (column_names spec))"

definition env_ok :: "wenv \<Rightarrow> (string \<Rightarrow> real list) \<Rightarrow> bool" where
  "env_ok ev g \<longleftrightarrow> wf_schema (cfg_schema (e_cfg ev)) \<and> no_tombstone_column (e_cfg ev) \<and>
     conv_ok (e_duck ev) \<and> select_ok (e_cfg ev) (e_duck ev) \<and> emb_ok ev g"

lemma env_table:
  assumes "env_ok ev g" and "schema_table (cfg_schema (e_cfg ev)) t = Inr spec"
  shows "spec \<in> set (sc_tables (cfg_schema (e_cfg ev)))" "ts_name spec = t" "wf_table spec"
    "''_deleted'' \<notin> set (column_names spec)"
  using assms schema_table_Inr [OF assms(2)] wf_schema_table [OF _ assms(2)]
  by (auto simp: env_ok_def no_tombstone_column_def)

lemma table_unique:
  assumes "env_ok ev g" and "spec \<in> set (sc_tables (cfg_schema (e_cfg ev)))"
    and "spec' \<in> set (sc_tables (cfg_schema (e_cfg ev)))" and "ts_name spec = ts_name spec'"
  shows "spec = spec'"
  using assms unfolding env_ok_def wf_schema_def table_names_def
  by (auto intro: distinct_map_inj [of ts_name])

lemma index_search_rows_frame:
  "index_search_rows cfg spec recs vs ks d = (q, d') \<Longrightarrow> (\<forall>t. rows_of d' t = rows_of d t) \<and> db_fts d' = db_fts d"
  by (auto simp: index_search_rows_def lance_write_def rows_of_def split: if_splits)

lemma synced_keyed:
  assumes "synced ev g s" and "spec \<in> set (sc_tables (cfg_schema (e_cfg ev)))"
  shows "keyed spec (rows_of (w_db s) (ts_name spec))"
  using assms rows_keyed by (fastforce simp: synced_def sync_table_def)

lemma insert_synced:
  assumes env: "env_ok ev g" and ts: "ts \<noteq> []" and syn: "synced ev g s" and days: "days_upto ds (w_files s)"
    and js: "op_json (OpInsert table rws skip)"
    and run: "execute_one ev ds ts (OpInsert table rws skip) s = (Inr ex, s')"
  shows "synced ev g s' \<and> days_upto ds (w_files s')"
  using run
proof (cases rule: insert_Inr)
  case (none spec)
  then show ?thesis using syn days by simp
next
  case (some spec recs vs ks m d1 d2)
  note tab = env_table [OF env some(3)]
  have norm: "list_all (\<lambda>rec. \<exists>rw. rec = norm_record spec rw \<and> list_all (\<lambda>(k, v). wf_json v) rw) recs"
    using validate_Inr(3) [OF some(1,3)] js by (fastforce simp: list_all_iff op_json_def)
  have lok: "log_ok (w_files s)" using syn by (simp add: synced_def)
  note files = write_puts_Inr [OF tab(3) norm lok days some(5)]
  have al: "aligned ev g spec recs 0 vs ks" using embed_rows_aligned [OF _ some(4)] env by (simp add: env_ok_def)
  note key = synced_keyed [OF syn tab(1)]
  note com = commit_rows_made [OF al some(6) key]
  obtain rs where rs: "rows_of d1 table = rows_of (w_db s) table @ rs"
    "list_all2 (made ev g spec (PStr ds) (PStr ts)) recs rs" "keyed spec (rows_of (w_db s) table @ rs)"
    using com(1) tab(2) by auto
  note idx = index_search_rows_frame [OF some(7)]
  have "sync_table ev g sp (iter_events m (ts_name sp)) (rows_of d2 (ts_name sp))"
    if sp: "sp \<in> set (sc_tables (cfg_schema (e_cfg ev)))" for sp
  proof (cases "ts_name sp = table")
    case True
    then have "sp = spec" using table_unique [OF env sp tab(1)] tab(2) by simp
    moreover have "sync_table ev g spec (iter_events (w_files s) table) (rows_of (w_db s) table)"
      using syn tab(1,2) by (auto simp: synced_def)
    moreover have "list_all (\<lambda>rec. \<exists>rw. rec = norm_record spec rw) recs"
      using norm by (auto simp: list_all_iff)
    ultimately show ?thesis
      using sync_table_insert [OF tab(3) _ tab(4) ts _ _ rs(2,3)] env files idx rs(1) tab(2)
      by (simp add: env_ok_def)
  next
    case False
    then show ?thesis using syn sp files com(2) idx tab(2) by (auto simp: synced_def)
  qed
  then show ?thesis using files some(8) by (simp add: synced_def)
qed

lemma mark_deleted_none: "map (mark_deleted spec [] ds ts) rows = rows"
  by (rule map_idI) (simp add: mark_deleted_def)

lemma match_live_Inr:
  assumes "match_live cfg x d table wh params = Inr keys"
  shows "\<exists>spec stmt sql. schema_table (cfg_schema cfg) table = Inr spec \<and>
     match_live_sql spec table stmt = Inr sql \<and> x_select x d sql params = Inr keys"
proof -
  obtain spec stmt sql where "schema_table (cfg_schema cfg) table = Inr spec"
    "match_live_sql spec table stmt = Inr sql"
    and sel: "(case x_select x d sql params of
       Inl e \<Rightarrow> if exn_class e = DuckError then raise QueryError ''bad delete where'' else Inl e
     | Inr ks \<Rightarrow> Inr ks) = Inr keys"
    using assms unfolding match_live_def bindR_Inr_iff by blast
  moreover have "x_select x d sql params = Inr keys"
    using sel by (cases "x_select x d sql params") (simp_all split: if_splits)
  ultimately show ?thesis by blast
qed

lemma delete_synced:
  assumes env: "env_ok ev g" and syn: "synced ev g s" and days: "days_upto ds (w_files s)"
    and run: "execute_one ev ds ts (OpDelete table wh params) s = (Inr ex, s')"
  shows "synced ev g s' \<and> days_upto ds (w_files s')"
proof -
  obtain keys m d1 where keys: "match_live (e_cfg ev) (e_duck ev) (w_db s) table wh params = Inr keys"
    and m: "write_deletes table keys ds ts (w_files s) = (Inr (), m)"
    and d1: "soft_delete (e_cfg ev) (e_duck ev) table keys (PStr ds) (PStr ts) (w_db s) = (Inr (), d1)"
    and s': "s' = s\<lparr>w_files := m, w_db := d1\<rparr>"
    using run by (auto simp: sm_iff)
  obtain spec stmt sql where spec: "schema_table (cfg_schema (e_cfg ev)) table = Inr spec"
    and sql: "match_live_sql spec table stmt = Inr sql" "x_select (e_duck ev) (w_db s) sql params = Inr keys"
    using match_live_Inr [OF keys] by blast
  note tab = env_table [OF env spec]
  let ?rows = "rows_of (w_db s) table"
  have live: "set keys \<subseteq> pk_of spec ` set (visible_rows None None ?rows)"
    using env spec sql unfolding env_ok_def select_ok_def by blast
  then have in_rows: "set (map py_str keys) \<subseteq> pk_text spec ` set ?rows"
    by (auto simp: visible_rows_def pk_text_def pk_of_def)
  have old: "sync_table ev g spec (iter_events (w_files s) table) ?rows"
    using syn tab(1,2) by (auto simp: synced_def)
  have "record_ok (tombstone ts k)" if k: "k \<in> set keys" for k
  proof -
    obtain q where q: "q \<in> set ?rows" "k = pk_of spec q" using live k by (auto simp: visible_rows_def)
    obtain puts dels rs0 where parts: "sync_parts ev g spec (iter_events (w_files s) table) ?rows puts dels rs0"
      using old by (auto simp: sync_table_def)
    have "k \<in> set (map (pk_of spec) rs0)"
      using parts q unfolding sync_parts_def by (metis apply_dels_pk(1) imageI list.set_map)
    then obtain q0 where q0: "q0 \<in> set rs0" "k = pk_of spec q0" by auto
    have "list_all2 (put_made ev g spec) puts rs0" "pk_of spec q0 \<noteq> PNone"
      using parts q0(1) by (auto simp: sync_parts_def keyed_def) (metis image_eqI)
    then have "\<exists>d n rec. made ev g spec d n rec q0"
      using list_all2_source [OF _ q0(1)] by (fastforce simp: put_made_def)
    then have "pk_kind k k"
      using made_pk_kind [OF _ tab(3)] env \<open>pk_of spec q0 \<noteq> PNone\<close> q0(2) by (auto simp: env_ok_def)
    then show ?thesis by (auto simp: pk_kind_def record_ok_def tombstone_def)
  qed
  then have rec: "list_all record_ok (map (tombstone ts) keys)" by (simp add: list_all_iff)
  have "forM (mirror_append ds table) (map (tombstone ts) keys) (w_files s) = (Inr (), m)"
    using m unfolding write_deletes_def by (simp add: forM_map)
  from forM_mirror [OF _ rec days this] syn
  have files: "log_ok m" "days_upto ds m"
    "\<forall>t. iter_events m t = (if t = table then iter_events (w_files s) t @ map (\<lambda>k. (ds, tombstone ts k)) keys
       else iter_events (w_files s) t)"
    by (auto simp: synced_def comp_def)
  have rows: "rows_of d1 t = (if t = table then map (mark_deleted spec (map py_str keys) (Some ds) (Some ts)) ?rows
      else rows_of (w_db s) t)" for t
    using soft_delete_Inr [OF d1] spec env meta_cell_str mark_deleted_none
    by (auto simp: env_ok_def)
  have "sync_table ev g sp (iter_events m (ts_name sp)) (rows_of d1 (ts_name sp))"
    if sp: "sp \<in> set (sc_tables (cfg_schema (e_cfg ev)))" for sp
  proof (cases "ts_name sp = table")
    case True
    then have "sp = spec" using table_unique [OF env sp tab(1)] tab(2) by simp
    then show ?thesis using sync_table_delete [OF old in_rows] files(3) rows tab(2) by simp
  next
    case False
    then show ?thesis using syn sp files(3) rows by (simp add: synced_def)
  qed
  then show ?thesis using files s' by (simp add: synced_def)
qed

end
