(* ===== verification/Rebuild_Replay.thy ===== *)
theory Rebuild_Replay
  imports Rebuild_Sync
begin

text \<open>
  The rebuild of \<open>service/admin_service.py\<close>, run on any database, gives back the rows that the
  writes had produced, when the mirror and those rows agree (\<open>sync_table\<close>): the events of a
  table are read (\<open>read_table_sync\<close>), the puts reloaded (\<open>reload_rows\<close>), the tombstones applied
  again (\<open>reload_deletes\<close>) and the BM25 index rebuilt over the result.
\<close>

definition frame :: "string \<Rightarrow> db \<Rightarrow> db \<Rightarrow> bool" where
  "frame t d d' \<longleftrightarrow> (\<forall>u. u \<noteq> t \<longrightarrow> rows_of d' u = rows_of d u \<and> map_of (db_fts d') u = map_of (db_fts d) u)"

lemma frame_refl [simp]: "frame t d d"
  by (simp add: frame_def)

lemma frame_trans: "frame t d e \<Longrightarrow> frame t e f \<Longrightarrow> frame t d f"
  by (simp add: frame_def)

lemma frame_set_rows [simp]: "frame t d (set_rows d t rs)"
  by (simp add: frame_def)

section \<open>Reading\<close>

lemma as_object_puts: "mapR as_object (map PDict puts) = Inr puts"
  by (induction puts) (simp_all add: as_object_def)

lemma single_get: "map_of (single xs i) c = map_option (\<lambda>v. [v ! i]) (map_of xs c)"
  by (induction xs) (auto simp: single_def)

lemma single_col: "col_at (map_of (single xs i) c) 0 = col_at (map_of xs c) i"
  by (simp add: single_get col_at_def split: option.splits)

lemma single_aligned:
  assumes "aligned ev g spec recs 0 vs ks" and "i < length recs"
  shows "aligned ev g spec [recs ! i] 0 (single vs i) (single ks i)"
  using assms by (simp add: aligned_def single_col)

lemma read_table_sync:
  assumes "emb_ok ev g" and "sync_parts ev g spec (iter_events m (ts_name spec)) rows puts dels rs0"
  shows "\<exists>rt. read_table ev m spec = Inr rt \<and> rt_recs rt = map (norm_record spec) puts \<and> rt_dels rt = dels \<and>
     rt_ds rt = map (\<lambda>p. dict_get p ''ds'') puts \<and> rt_ca rt = map (\<lambda>p. dict_get p ''created_at'') puts \<and>
     aligned ev g spec (rt_recs rt) 0 (rt_vecs rt) (rt_toks rt)"
proof -
  obtain vs ks where e: "embed_rows ev spec (map (norm_record spec) puts) = Inr (vs, ks)"
    using embed_rows_total [OF assms(1)] by blast
  have "split_events (iter_events m (ts_name spec)) = Inr (map PDict puts, dels)"
    using assms(2) by (simp add: sync_parts_def)
  with e embed_rows_aligned [OF assms(1) e] show ?thesis
    by (simp add: read_table_def as_object_puts Let_def)
qed

section \<open>Reloading one table\<close>

lemma commit_frame:
  "commit_rows cfg x spec recs vs ks ds now False d = (q, d') \<Longrightarrow> frame (ts_name spec) d d'"
  by (auto simp: commit_rows_def insert_rows_def frame_def bindM_def liftM_def returnM_def
      dest!: forM_insert_frame split: sum.splits prod.splits)

text \<open>What one reload step may use of the replay record \<open>rt\<close>.\<close>

definition reload_ready ::
    "wenv \<Rightarrow> (string \<Rightarrow> real list) \<Rightarrow> tablespec \<Rightarrow> replay_table \<Rightarrow> pyrow list \<Rightarrow> bool" where
  "reload_ready ev g spec rt puts \<longleftrightarrow> rt_recs rt = map (norm_record spec) puts \<and>
     rt_ds rt = map (\<lambda>p. dict_get p ''ds'') puts \<and> rt_ca rt = map (\<lambda>p. dict_get p ''created_at'') puts \<and>
     aligned ev g spec (rt_recs rt) 0 (rt_vecs rt) (rt_toks rt)"

lemma reload_row_made:
  assumes "reload_ready ev g spec rt puts" and "i < length puts" and "put_made ev g spec (puts ! i) r"
    and "keyed spec (rows_of d (ts_name spec) @ [r])"
  shows "reload_row ev now spec rt (i, norm_record spec (puts ! i)) d =
     (Inr (), set_rows d (ts_name spec) (rows_of d (ts_name spec) @ [r]))"
proof -
  have "aligned ev g spec [norm_record spec (puts ! i)] 0 (single (rt_vecs rt) i) (single (rt_toks rt) i)"
    using assms(1,2) single_aligned [of ev g spec "map (norm_record spec) puts" "rt_vecs rt" "rt_toks rt" i]
    by (auto simp: reload_ready_def)
  from insert_made [OF this _ assms(4), of "rt_ds rt ! i" "or_now (rt_ca rt ! i) (now i)"]
  show ?thesis
    using assms(1-3) by (simp add: reload_row_def reload_ready_def put_made_def or_now_def)
qed

lemma keyed_prefix: "keyed spec (a @ b) \<Longrightarrow> keyed spec a"
  by (auto simp: keyed_def)

lemma reload_rows:
  assumes "reload_ready ev g spec rt puts" and "puts = pre @ post"
    and "list_all2 (put_made ev g spec) post rs" and "keyed spec (rows_of d (ts_name spec) @ rs)"
  shows "\<exists>d'. forM (reload_row ev now spec rt) (enumerate (length pre) (map (norm_record spec) post)) d = (Inr (), d') \<and>
     rows_of d' (ts_name spec) = rows_of d (ts_name spec) @ rs \<and> frame (ts_name spec) d d'"
  using assms(2-)
proof (induction post arbitrary: pre rs d)
  case Nil
  then show ?case by simp
next
  case (Cons p post)
  obtain r rs' where rs: "rs = r # rs'" "put_made ev g spec p r" "list_all2 (put_made ev g spec) post rs'"
    using Cons.prems(2) by (auto simp: list_all2_Cons1)
  let ?d = "set_rows d (ts_name spec) (rows_of d (ts_name spec) @ [r])"
  have "keyed spec (rows_of d (ts_name spec) @ [r])"
    using Cons.prems(3) rs(1) keyed_prefix [of spec "rows_of d (ts_name spec) @ [r]" rs'] by simp
  then have step: "reload_row ev now spec rt (length pre, norm_record spec p) d = (Inr (), ?d)"
    using reload_row_made [OF assms(1), of "length pre"] rs(2) Cons.prems(1) by simp
  obtain d' where "forM (reload_row ev now spec rt) (enumerate (length (pre @ [p])) (map (norm_record spec) post)) ?d = (Inr (), d')"
    "rows_of d' (ts_name spec) = rows_of ?d (ts_name spec) @ rs'" "frame (ts_name spec) ?d d'"
    using Cons.IH [of "pre @ [p]" rs' ?d] rs Cons.prems by auto
  then show ?case
    using step rs(1) frame_trans [OF frame_set_rows] by (auto simp: bindM_def)
qed

lemma reload_deletes:
  assumes "conv_ok (e_duck ev)" and "schema_table (cfg_schema (e_cfg ev)) (ts_name spec) = Inr spec"
    and "phys (ts_name spec) = Inr p" and "sql_ident (ts_primary spec) = Inr k"
    and "\<forall>(k, ds, dat) \<in> set dels. \<exists>s. dat = PStr s"
  shows "\<exists>d'. forM (reload_delete ev spec) dels d = (Inr (), d') \<and>
     rows_of d' (ts_name spec) = apply_dels spec dels (rows_of d (ts_name spec)) \<and> frame (ts_name spec) d d'"
  using assms(5)
proof (induction dels arbitrary: d)
  case (Cons e dels)
  obtain k0 ds s where e: "e = (k0, ds, PStr s)" using Cons.prems by auto
  let ?d = "set_rows d (ts_name spec) (apply_del spec e (rows_of d (ts_name spec)))"
  have step: "reload_delete ev spec e d = (Inr (), ?d)"
    using assms(1-4) meta_cell_str [OF assms(1)]
    by (simp add: reload_delete_def e soft_delete_def bindM_def liftM_def modifyM_def apply_del_def del_at_def)
  obtain d' where "forM (reload_delete ev spec) dels ?d = (Inr (), d')"
    "rows_of d' (ts_name spec) = apply_dels spec dels (rows_of ?d (ts_name spec))" "frame (ts_name spec) ?d d'"
    using Cons.IH [of ?d] Cons.prems by auto
  then show ?case using step frame_trans [OF frame_set_rows] by (auto simp: bindM_def)
qed simp

text \<open>The search index of a table with searchable columns is the snapshot of the rows.\<close>

definition fts_fresh :: "wenv \<Rightarrow> tablespec \<Rightarrow> db \<Rightarrow> bool" where
  "fts_fresh ev spec d \<longleftrightarrow> (is_vss (e_cfg ev) \<and> ts_searchable spec \<noteq> [] \<longrightarrow>
     map_of (db_fts d) (ts_name spec) = Some (fts_content spec (rows_of d (ts_name spec))))"

lemma rebuild_fts_fresh:
  assumes "schema_table (cfg_schema (e_cfg ev)) (ts_name spec) = Inr spec"
  shows "\<exists>d'. rebuild_fts (e_cfg ev) (ts_name spec) d = (Inr (), d') \<and> (\<forall>t. rows_of d' t = rows_of d t) \<and>
     frame (ts_name spec) d d' \<and> fts_fresh ev spec d'"
  using assms
  by (auto simp: rebuild_fts_def rebuild_fts_inline_def frame_def fts_fresh_def rows_of_def dict_get_set)

lemma search_index_frame:
  "\<exists>d'. rebuild_search_index cfg spec recs vs ks d = (Inr (), d') \<and> (\<forall>t. rows_of d' t = rows_of d t) \<and>
     db_fts d' = db_fts d"
  by (auto simp: rebuild_search_index_def lance_write_def rows_of_def)

lemma reload_table_sync:
  assumes ready: "reload_ready ev g spec rt puts" and dels: "rt_dels rt = dels"
    and parts: "sync_parts ev g spec evs rows puts dels rs0" and empty: "rows_of d (ts_name spec) = []"
    and conv: "conv_ok (e_duck ev)" and tab: "schema_table (cfg_schema (e_cfg ev)) (ts_name spec) = Inr spec"
    and names: "phys (ts_name spec) = Inr p" "sql_ident (ts_primary spec) = Inr k"
  shows "\<exists>d'. reload_table ev now (spec, rt) d = (Inr (), d') \<and> rows_of d' (ts_name spec) = rows \<and>
     frame (ts_name spec) d d' \<and> fts_fresh ev spec d'"
proof -
  have p: "list_all2 (put_made ev g spec) puts rs0" "keyed spec rs0" "rows = apply_dels spec dels rs0"
    "\<forall>(k, ds, dat) \<in> set dels. \<exists>s. dat = PStr s"
    using parts by (auto simp: sync_parts_def)
  obtain d1 where d1: "forM (reload_row ev now spec rt) (enumerate 0 (map (norm_record spec) puts)) d = (Inr (), d1)"
    "rows_of d1 (ts_name spec) = rs0" "frame (ts_name spec) d d1"
    using reload_rows [OF ready, of "[]" puts rs0 d now] p empty by auto
  obtain d2 where d2: "forM (reload_delete ev spec) dels d1 = (Inr (), d2)"
    "rows_of d2 (ts_name spec) = rows" "frame (ts_name spec) d1 d2"
    using reload_deletes [OF conv tab names p(4), of d1] d1(2) p(3) by auto
  obtain d3 where d3: "rebuild_fts (e_cfg ev) (ts_name spec) d2 = (Inr (), d3)"
    "\<forall>t. rows_of d3 t = rows_of d2 t" "frame (ts_name spec) d2 d3" "fts_fresh ev spec d3"
    using rebuild_fts_fresh [OF tab] by blast
  obtain d4 where d4: "rebuild_search_index (e_cfg ev) spec (rt_recs rt) (rt_vecs rt) (rt_toks rt) d3 = (Inr (), d4)"
    "\<forall>t. rows_of d4 t = rows_of d3 t" "db_fts d4 = db_fts d3"
    using search_index_frame by blast
  have "reload_table ev now (spec, rt) d = (Inr (), d4)"
    using d1(1) d2(1) d3(1) d4(1) ready dels by (simp add: reload_table_def reload_ready_def bindM_def)
  moreover have "frame (ts_name spec) d d4"
    using d1(3) d2(3) d3(3) d4(2,3) by (simp add: frame_def)
  ultimately show ?thesis using d2(2) d3(2,4) d4(2,3) by (simp add: fts_fresh_def)
qed

section \<open>The whole rebuild\<close>

definition restored :: "wenv \<Rightarrow> db \<Rightarrow> (string \<Rightarrow> row list) \<Rightarrow> tablespec \<Rightarrow> bool" where
  "restored ev d rows spec \<longleftrightarrow> rows_of d (ts_name spec) = rows (ts_name spec) \<and> fts_fresh ev spec d"

text \<open>A table's replay record, read from the mirror, leads back to its rows.\<close>

definition replayable :: "wenv \<Rightarrow> (string \<Rightarrow> real list) \<Rightarrow> (string \<Rightarrow> row list) \<Rightarrow> tablespec \<times> replay_table \<Rightarrow> bool" where
  "replayable ev g rows = (\<lambda>(spec, rt). \<exists>evs puts rs0. reload_ready ev g spec rt puts \<and>
     sync_parts ev g spec evs (rows (ts_name spec)) puts (rt_dels rt) rs0 \<and>
     schema_table (cfg_schema (e_cfg ev)) (ts_name spec) = Inr spec \<and>
     (\<exists>p k. phys (ts_name spec) = Inr p \<and> sql_ident (ts_primary spec) = Inr k))"

lemma reload_replayable:
  assumes "conv_ok (e_duck ev)" and "replayable ev g rows (spec, rt)" and "rows_of d (ts_name spec) = []"
  shows "\<exists>d'. reload_table ev now (spec, rt) d = (Inr (), d') \<and> rows_of d' (ts_name spec) = rows (ts_name spec) \<and>
     frame (ts_name spec) d d' \<and> fts_fresh ev spec d'"
proof -
  obtain evs puts rs0 p k where a: "reload_ready ev g spec rt puts"
    "sync_parts ev g spec evs (rows (ts_name spec)) puts (rt_dels rt) rs0"
    "schema_table (cfg_schema (e_cfg ev)) (ts_name spec) = Inr spec"
    "phys (ts_name spec) = Inr p" "sql_ident (ts_primary spec) = Inr k"
    using assms(2) unfolding replayable_def by auto
  show ?thesis by (rule reload_table_sync [OF a(1) refl a(2) assms(3,1) a(3-5)])
qed

lemma restored_frame: "frame t d d' \<Longrightarrow> ts_name spec \<noteq> t \<Longrightarrow> restored ev d' rows spec = restored ev d rows spec"
  by (simp add: restored_def fts_fresh_def frame_def)

lemma reload_all:
  assumes "conv_ok (e_duck ev)" and "list_all (replayable ev g rows) rts"
    and "distinct (map (ts_name \<circ> fst) rts)" and "\<forall>x \<in> set rts. rows_of d (ts_name (fst x)) = []"
  shows "\<exists>d'. forM (reload_table ev now) rts d = (Inr (), d') \<and>
     (\<forall>x \<in> set rts. restored ev d' rows (fst x)) \<and>
     (\<forall>spec. ts_name spec \<notin> (ts_name \<circ> fst) ` set rts \<longrightarrow> restored ev d' rows spec = restored ev d rows spec)"
  using assms(2-)
proof (induction rts arbitrary: d)
  case (Cons x rts)
  obtain spec rt where x: "x = (spec, rt)" by fastforce
  obtain d1 where d1: "reload_table ev now x d = (Inr (), d1)" "rows_of d1 (ts_name spec) = rows (ts_name spec)"
    "frame (ts_name spec) d d1" "fts_fresh ev spec d1"
  proof -
    have "replayable ev g rows (spec, rt)" and "rows_of d (ts_name spec) = []"
      using Cons.prems(1,3) x by simp_all
    from reload_replayable [OF assms(1) this, of now] that show thesis unfolding x by blast
  qed
  have "\<forall>y \<in> set rts. rows_of d1 (ts_name (fst y)) = []"
  proof
    fix y assume y: "y \<in> set rts"
    then have "ts_name (fst y) \<noteq> ts_name spec" using Cons.prems(2) x by (auto simp: image_iff dest!: bspec)
    with y Cons.prems(3) d1(3) show "rows_of d1 (ts_name (fst y)) = []" by (simp add: frame_def)
  qed
  then obtain d' where d': "forM (reload_table ev now) rts d1 = (Inr (), d')"
    "\<forall>y \<in> set rts. restored ev d' rows (fst y)"
    "\<forall>spec. ts_name spec \<notin> (ts_name \<circ> fst) ` set rts \<longrightarrow> restored ev d' rows spec = restored ev d1 rows spec"
    using Cons.IH [of d1] Cons.prems by auto
  have "restored ev d1 rows spec" using d1 by (simp add: restored_def)
  then have "restored ev d' rows spec" using d'(3) Cons.prems(2) x by auto
  with d' d1 x restored_frame [OF d1(3)] show ?case by (auto simp: bindM_def)
qed simp

lemma clear_all:
  assumes "\<forall>spec \<in> set specs. \<exists>p. phys (ts_name spec) = Inr p"
  shows "\<exists>d'. forM (\<lambda>spec. clear_table (ts_name spec)) specs d = (Inr (), d') \<and>
     (\<forall>t. rows_of d' t = (if t \<in> ts_name ` set specs then [] else rows_of d t))"
  using assms
proof (induction specs arbitrary: d)
  case (Cons spec specs)
  have "clear_table (ts_name spec) d = (Inr (), set_rows d (ts_name spec) [])"
    using Cons.prems by (auto simp: clear_table_def bindM_def)
  then show ?case using Cons.IH [of "set_rows d (ts_name spec) []"] Cons.prems by (auto simp: bindM_def)
qed simp

lemma create_tables_names:
  assumes "create_tables cfg = Inr ddl" and "spec \<in> set (sc_tables (cfg_schema cfg))"
  shows "\<exists>p k. phys (ts_name spec) = Inr p \<and> sql_ident (ts_primary spec) = Inr k"
proof -
  obtain t where "create_table_text cfg spec = Inr t"
    using assms unfolding create_tables_def by (blast dest: mapR_defined)
  then show ?thesis unfolding create_table_text_def by (elim bindR_InrE) blast
qed

lemma wf_schema_lookup:
  "wf_schema s \<Longrightarrow> spec \<in> set (sc_tables s) \<Longrightarrow> schema_table s (ts_name spec) = Inr spec"
  by (simp add: wf_schema_def table_names_def schema_table_def schema_table_distinct)

lemma replay_restores:
  assumes env: "env_ok ev g" and ddl: "create_tables (e_cfg ev) = Inr ddl" and syn: "synced ev g s"
  shows "\<exists>stats d'. replay ev (w_files s) now d = (Inr stats, d') \<and>
     (\<forall>spec \<in> set (sc_tables (cfg_schema (e_cfg ev))). restored ev d' (rows_of (w_db s)) spec)"
proof -
  let ?specs = "sc_tables (cfg_schema (e_cfg ev))"
  have wf: "wf_schema (cfg_schema (e_cfg ev))" and conv: "conv_ok (e_duck ev)" and emb: "emb_ok ev g"
    using env by (simp_all add: env_ok_def)
  have each: "\<exists>rt. read_table ev (w_files s) spec = Inr rt \<and> replayable ev g (rows_of (w_db s)) (spec, rt)"
    if sp: "spec \<in> set ?specs" for spec
  proof -
    obtain puts dels rs0 where parts:
      "sync_parts ev g spec (iter_events (w_files s) (ts_name spec)) (rows_of (w_db s) (ts_name spec)) puts dels rs0"
      using syn sp by (auto simp: synced_def sync_table_def)
    from read_table_sync [OF emb parts] parts create_tables_names [OF ddl sp] wf_schema_lookup [OF wf sp]
    show ?thesis by (fastforce simp: replayable_def reload_ready_def)
  qed
  then obtain f where f: "\<forall>spec \<in> set ?specs. read_table ev (w_files s) spec = Inr (f spec) \<and>
      replayable ev g (rows_of (w_db s)) (spec, f spec)" by metis
  let ?rts = "map (\<lambda>spec. (spec, f spec)) ?specs"
  have m: "mapR (\<lambda>spec. bindR (read_table ev (w_files s) spec) (\<lambda>rt. Inr (spec, rt))) ?specs = Inr ?rts"
    using f by (intro mapR_map_Inr) auto
  obtain d1 where d1: "forM (\<lambda>spec. clear_table (ts_name spec)) ?specs d = (Inr (), d1)"
    "\<forall>t. rows_of d1 t = (if t \<in> ts_name ` set ?specs then [] else rows_of d t)"
    using clear_all [of ?specs d] create_tables_names [OF ddl] by blast
  obtain d2 where d2: "forM (reload_table ev now) ?rts d1 = (Inr (), d2)"
    "\<forall>x \<in> set ?rts. restored ev d2 (rows_of (w_db s)) (fst x)"
  proof -
    have "list_all (replayable ev g (rows_of (w_db s))) ?rts" using f by (simp add: list_all_iff)
    moreover have "distinct (map (ts_name \<circ> fst) ?rts)"
      using wf by (simp add: wf_schema_def table_names_def comp_def)
    moreover have "\<forall>x \<in> set ?rts. rows_of d1 (ts_name (fst x)) = []"
      using d1(2) by simp
    ultimately show thesis
      using reload_all [OF conv, of g "rows_of (w_db s)" ?rts d1 now] that by blast
  qed
  have "replay ev (w_files s) now d = (Inr (replay_stats ?rts), d2)"
    using m d1(1) d2(1) by (simp add: replay_def Let_def bindM_def)
  with d2(2) show ?thesis by auto
qed

end
