(* ===== verification/Served_States.thy ===== *)
theory Served_States
  imports Rebuild_Replay
begin

text \<open>
  The states a running database goes through, as a step relation: writes that succeed or are
  refused before they touch anything, refreshes of a search index, rebuilds, the passing of
  days. Every such state agrees with its mirror, its tables keep their keys, and no row carries
  a day after today.
\<close>

definition fresh_state :: wstate where
  "fresh_state = \<lparr>w_files = [], w_db = \<lparr>db_rows = [], db_fts = [], db_lance = []\<rparr>\<rparr>"

inductive served :: "wenv \<Rightarrow> string \<Rightarrow> wstate \<Rightarrow> bool" for ev where
  fresh: "served ev ds fresh_state"
| later: "served ev ds s \<Longrightarrow> ds \<le> ds' \<Longrightarrow> served ev ds' s"
| refused: "served ev ds s \<Longrightarrow> execute_one ev ds ts op s = (Inl e, s) \<Longrightarrow> served ev ds s"
| done_write: "served ev ds s \<Longrightarrow> op_json op \<Longrightarrow> ts \<noteq> [] \<Longrightarrow> execute_one ev ds ts op s = (Inr ex, s') \<Longrightarrow>
    served ev ds s'"
| index: "served ev ds s \<Longrightarrow> served ev ds (rebuild_tables ev tables s)"
| rebuild: "served ev ds s \<Longrightarrow> replay ev (w_files s) now (w_db s) = (Inr stats, d) \<Longrightarrow>
    served ev ds (s\<lparr>w_db := d\<rparr>)"

inductive_cases served_elim: "served ev ds s"

section \<open>Index refreshes\<close>

lemma rebuild_fts_frame:
  assumes "rebuild_fts cfg t d = (q, d')"
  shows "rows_of d' u = rows_of d u \<and> db_lance d' = db_lance d \<and> (u \<noteq> t \<longrightarrow> map_of (db_fts d') u = map_of (db_fts d) u)"
  using assms
  by (auto simp: rebuild_fts_def rebuild_fts_inline_def rows_of_def dict_get_set split: if_splits sum.splits)

lemma on_db_frame:
  "rows_of (w_db (snd (on_db (rebuild_fts cfg t) s))) u = rows_of (w_db s) u"
  "w_files (snd (on_db (rebuild_fts cfg t) s)) = w_files s"
  "db_lance (w_db (snd (on_db (rebuild_fts cfg t) s))) = db_lance (w_db s)"
  "u \<noteq> t \<Longrightarrow> map_of (db_fts (w_db (snd (on_db (rebuild_fts cfg t) s)))) u = map_of (db_fts (w_db s)) u"
proof -
  obtain q d where r: "rebuild_fts cfg t (w_db s) = (q, d)" by fastforce
  from rebuild_fts_frame [OF r]
  show "rows_of (w_db (snd (on_db (rebuild_fts cfg t) s))) u = rows_of (w_db s) u"
    and "w_files (snd (on_db (rebuild_fts cfg t) s)) = w_files s"
    and "db_lance (w_db (snd (on_db (rebuild_fts cfg t) s))) = db_lance (w_db s)"
    and "u \<noteq> t \<Longrightarrow> map_of (db_fts (w_db (snd (on_db (rebuild_fts cfg t) s)))) u = map_of (db_fts (w_db s)) u"
    by (auto simp: on_db_def r)
qed

lemma rebuild_tables_frame [simp]:
  "rows_of (w_db (rebuild_tables ev ts s)) t = rows_of (w_db s) t"
  "w_files (rebuild_tables ev ts s) = w_files s"
  "db_lance (w_db (rebuild_tables ev ts s)) = db_lance (w_db s)"
  by (induction ts arbitrary: s) (simp_all add: on_db_frame)

lemma rebuild_tables_other:
  "t \<notin> set ts \<Longrightarrow> map_of (db_fts (w_db (rebuild_tables ev ts s))) t = map_of (db_fts (w_db s)) t"
  by (induction ts arbitrary: s) (simp_all add: on_db_frame)

lemma rebuild_tables_fresh:
  assumes "t \<in> set ts" and "distinct ts" and "schema_table (cfg_schema (e_cfg ev)) t = Inr spec"
  shows "fts_fresh ev spec (w_db (rebuild_tables ev ts s))"
  using assms
proof (induction ts arbitrary: s)
  case (Cons u ts)
  have n: "ts_name spec = t" using schema_table_Inr [OF Cons.prems(3)] by simp
  show ?case
  proof (cases "t = u")
    case True
    obtain d where d: "rebuild_fts (e_cfg ev) t (w_db s) = (Inr (), d)" "fts_fresh ev spec d"
      using rebuild_fts_fresh [of ev spec "w_db s"] Cons.prems(3) n by auto
    have "snd (on_db (rebuild_fts (e_cfg ev) t) s) = s\<lparr>w_db := d\<rparr>" by (simp add: on_db_def d(1))
    then show ?thesis
      using d(2) True Cons.prems(2) n rebuild_tables_other [of t ts ev "s\<lparr>w_db := d\<rparr>"]
      by (simp add: fts_fresh_def)
  next
    case False
    then show ?thesis using Cons by simp
  qed
qed simp

section \<open>Agreement in every served state\<close>

lemma synced_cong:
  assumes "synced ev g s" and "w_files s' = w_files s"
    and "\<forall>spec \<in> set (sc_tables (cfg_schema (e_cfg ev))). rows_of (w_db s') (ts_name spec) = rows_of (w_db s) (ts_name spec)"
  shows "synced ev g s'"
  using assms by (simp add: synced_def)

lemma fresh_synced: "synced ev g fresh_state"
proof -
  have "sync_parts ev g spec [] [] [] [] []" for spec by (simp add: sync_parts_def keyed_def)
  then show ?thesis
    by (auto simp: synced_def fresh_state_def log_ok_Nil iter_events_def mirror_days_def rows_of_def sync_table_def)
qed

lemma served_synced:
  assumes "served ev ds s" and env: "env_ok ev g" and ddl: "create_tables (e_cfg ev) = Inr ddl"
  shows "synced ev g s \<and> days_upto ds (w_files s)"
  using assms(1)
proof induction
  case (fresh ds)
  show ?case using fresh_synced by (simp add: days_upto_def fresh_state_def)
next
  case (later ds s ds')
  then show ?case by (auto simp: days_upto_def)
next
  case (done_write ds s op ts ex s')
  show ?case
  proof (cases op)
    case (OpInsert t rws skip)
    then show ?thesis using insert_synced [OF env done_write.hyps(3)] done_write by blast
  next
    case (OpDelete t wh ps)
    then show ?thesis using delete_synced [OF env] done_write by blast
  next
    case (OpUnknown k)
    then show ?thesis using done_write.hyps(4) by simp
  qed
next
  case (index ds s tables)
  then show ?case using synced_cong [of ev g s] by simp
next
  case (rebuild ds s now stats d)
  have "\<forall>spec \<in> set (sc_tables (cfg_schema (e_cfg ev))). restored ev d (rows_of (w_db s)) spec"
    using replay_restores [OF env ddl, of s now "w_db s"] rebuild by auto
  then show ?case using synced_cong [of ev g s "s\<lparr>w_db := d\<rparr>"] rebuild.IH by (simp add: restored_def)
qed

end
