(* ===== verification/Write_Facts.thy ===== *)
theory Write_Facts
  imports Served_States
begin

text \<open>
  What one write does to the rows, on every branch: what an insert appends, what a delete marks,
  what an operation that fails half-way may leave behind, and which days rows carry.
\<close>

section \<open>Rows after an operation, failed or not\<close>

text \<open>
  \<open>touched ds rows rows'\<close>: the rows of before, each possibly marked deleted on \<open>ds\<close> if it was
  live, followed by new live rows of the day \<open>ds\<close>.
\<close>

definition maybe_marked :: "string \<Rightarrow> row \<Rightarrow> row \<Rightarrow> bool" where
  "maybe_marked ds r r' \<longleftrightarrow> r' = r \<or>
     r_deleted_ds r = None \<and> (\<exists>ts. r' = r\<lparr>r_deleted_ds := Some ds, r_deleted_at := ts\<rparr>)"

definition new_row :: "string \<Rightarrow> row \<Rightarrow> bool" where
  "new_row ds r \<longleftrightarrow> r_ds r = Some ds \<and> r_deleted_ds r = None"

definition touched :: "string \<Rightarrow> row list \<Rightarrow> row list \<Rightarrow> bool" where
  "touched ds rows rows' \<longleftrightarrow>
     (\<exists>old new. rows' = old @ new \<and> list_all2 (maybe_marked ds) rows old \<and> list_all (new_row ds) new)"

lemma touched_refl [simp]: "touched ds rows rows"
  unfolding touched_def by (intro exI [of _ rows] exI [of _ "[]"]) (simp add: list_all2_same maybe_marked_def)

lemma touched_append: "list_all (new_row ds) new \<Longrightarrow> touched ds rows (rows @ new)"
  unfolding touched_def
  by (intro exI [of _ rows] exI [of _ new]) (simp add: list_all2_same maybe_marked_def)

lemma touched_mark: "touched ds rows (map (mark_deleted spec ks (Some ds) now) rows)"
  unfolding touched_def
  by (intro exI [of _ "map (mark_deleted spec ks (Some ds) now) rows"] exI [of _ "[]"])
    (auto simp: list_all2_map2 list_all2_same maybe_marked_def mark_deleted_def)

lemma stored_row_new: "conv_ok x \<Longrightarrow> ir_ds ir = PStr ds \<Longrightarrow> stored_row x spec ir = Inr r \<Longrightarrow> new_row ds r"
  by (auto simp: stored_row_def bindR_Inr_iff meta_cell_str new_row_def)

lemma insert_payload_ds:
  "insert_payload cfg spec i recs vs ks ds now = Inr irs \<Longrightarrow> list_all (\<lambda>ir. ir_ds ir = ds) irs"
  by (induction cfg spec i recs vs ks ds now arbitrary: irs rule: insert_payload.induct) (auto simp: bindR_Inr_iff)

lemma forM_insert_touched:
  assumes "forM (insert_one x spec) irs d = (q, d')" and "list_all (\<lambda>ir. ir_ds ir = PStr ds) irs" and "conv_ok x"
  shows "\<exists>new. rows_of d' (ts_name spec) = rows_of d (ts_name spec) @ new \<and> list_all (new_row ds) new"
  using assms(1,2)
proof (induction irs arbitrary: d)
  case (Cons ir irs)
  obtain q1 e where e: "insert_one x spec ir d = (q1, e)" by fastforce
  show ?case
  proof (cases q1)
    case (Inl er)
    then have "rows_of d' (ts_name spec) = rows_of d (ts_name spec)"
      using Cons.prems(1) e ins.put_err [of x spec ir d er e] by auto
    then show ?thesis by simp
  next
    case (Inr u)
    then have rest: "forM (insert_one x spec) irs e = (q, d')" using Cons.prems(1) e by simp
    obtain r where r: "stored_row x spec ir = Inr r" "rows_of e (ts_name spec) = rows_of d (ts_name spec) @ [r]"
      using ins.put_ok e Inr by blast
    have "new_row ds r" using stored_row_new [OF assms(3) _ r(1)] Cons.prems(2) by simp
    then show ?thesis using Cons.IH [OF rest] Cons.prems(2) r(2) by auto
  qed
qed simp

lemma commit_touched:
  assumes "commit_rows cfg x spec recs vs ks (PStr ds) now False d = (q, d')" and "conv_ok x"
  shows "touched ds (rows_of d t) (rows_of d' t)"
proof (cases "insert_payload cfg spec 0 recs vs ks (PStr ds) now")
  case (Inl e)
  then have "d' = d" using assms(1) by (simp add: commit_rows_def insert_rows_def bindM_def liftM_def)
  then show ?thesis by simp
next
  case (Inr irs)
  then obtain q' where f: "forM (insert_one x spec) irs d = (q', d')"
    using assms(1) by (auto simp: commit_rows_def insert_rows_def bindM_def liftM_def returnM_def
        split: prod.splits sum.splits)
  show ?thesis
  proof (cases "t = ts_name spec")
    case True
    then show ?thesis
      using forM_insert_touched [OF f insert_payload_ds [OF Inr] assms(2)] touched_append by auto
  next
    case False
    then show ?thesis using forM_insert_frame [OF f] by simp
  qed
qed

lemma soft_delete_touched:
  assumes "soft_delete cfg x table keys (PStr ds) now d = (q, d')" and "conv_ok x"
  shows "touched ds (rows_of d t) (rows_of d' t)"
proof (cases q)
  case (Inl e)
  then show ?thesis using assms(1) soft_delete_Inl by fastforce
next
  case (Inr u)
  then show ?thesis
    using soft_delete_Inr [of cfg x table keys "PStr ds" now d u d'] assms meta_cell_str [OF assms(2)] touched_mark
    by auto
qed

lemma on_db_rows: "on_db m s = (q, s') \<Longrightarrow> \<exists>d. m (w_db s) = (q, d) \<and> w_db s' = d"
  by (auto simp: on_db_Inr)

lemma on_files_rows: "on_files m s = (q, s') \<Longrightarrow> w_db s' = w_db s"
  by (auto simp: on_files_Inr)

lemma execute_touched:
  assumes "execute_one ev ds ts op s = (q, s')" and "conv_ok (e_duck ev)"
  shows "touched ds (rows_of (w_db s) t) (rows_of (w_db s') t)"
proof (cases op)
  case (OpInsert table rws skip)
  have "\<exists>d. (d = w_db s \<or> (\<exists>spec recs vs ks q'. commit_rows (e_cfg ev) (e_duck ev) spec recs vs ks (PStr ds) (PStr ts) False (w_db s) = (q', d)))
      \<and> (\<forall>t. rows_of (w_db s') t = rows_of d t)"
  proof -
    consider "w_db s' = w_db s"
      | spec recs vs ks q' d where
        "commit_rows (e_cfg ev) (e_duck ev) spec recs vs ks (PStr ds) (PStr ts) False (w_db s) = (q', d)"
        "\<forall>t. rows_of (w_db s') t = rows_of d t"
      using assms(1) unfolding OpInsert
      by (auto simp: bindM_def readM_def liftM_def returnM_def split: sum.splits prod.splits if_splits
          dest!: on_db_rows on_files_rows index_search_rows_frame)
    then show ?thesis by metis
  qed
  then show ?thesis using commit_touched assms(2) by (metis touched_refl)
next
  case (OpDelete table wh ps)
  then show ?thesis
    using assms soft_delete_touched
    by (auto simp: bindM_def readM_def returnM_def split: sum.splits prod.splits
        dest!: on_db_rows on_files_rows)
next
  case (OpUnknown k)
  then show ?thesis using assms(1) by simp
qed

lemma execute_batch_touched:
  assumes "execute_batch ev js s = (rs, s')" and "conv_ok (e_duck ev)" and "P (rows_of (w_db s) t)"
    and "\<And>j rows rows'. j \<in> set js \<Longrightarrow> P rows \<Longrightarrow> touched (j_ds j) rows rows' \<Longrightarrow> P rows'"
  shows "P (rows_of (w_db s') t)"
  using assms(1,3,4)
proof (induction js arbitrary: s rs)
  case (Cons j js)
  obtain q s1 where q: "execute_one ev (j_ds j) (j_ts j) (j_op j) s = (q, s1)" by fastforce
  have "P (rows_of (w_db s1) t)"
    using Cons.prems(3) [OF _ Cons.prems(2) execute_touched [OF q assms(2)]] by simp
  then show ?case using Cons.IH [of s1] Cons.prems q by (auto simp: Let_def split: prod.splits)
qed simp

section \<open>The past does not change\<close>

text \<open>The columns of a view that a later deletion cannot touch: the cells, the day, the time.\<close>

definition row_core :: "row \<Rightarrow> pyrow \<times> string option \<times> string option" where
  "row_core r = (r_cells r, r_ds r, r_created_at r)"

definition past_view :: "string option \<Rightarrow> string \<Rightarrow> row list \<Rightarrow> (pyrow \<times> string option \<times> string option) list" where
  "past_view st D rows = map row_core (visible_rows st (Some D) rows)"

lemma maybe_marked_core: "maybe_marked ds r r' \<Longrightarrow> row_core r' = row_core r"
  by (auto simp: maybe_marked_def row_core_def)

lemma maybe_marked_visible:
  "maybe_marked ds r r' \<Longrightarrow> D < ds \<Longrightarrow> visible st (Some D) r' = visible st (Some D) r"
  by (auto simp: maybe_marked_def visible_def asof_conds_def split: option.splits)

lemma new_row_hidden: "new_row ds r \<Longrightarrow> D < ds \<Longrightarrow> \<not> visible st (Some D) r"
  by (auto simp: new_row_def visible_def asof_conds_def split: option.splits)

lemma past_view_append: "past_view st D (a @ b) = past_view st D a @ past_view st D b"
  by (simp add: past_view_def visible_rows_def)

lemma touched_past_view:
  assumes "touched ds rows rows'" and "D < ds"
  shows "past_view st D rows' = past_view st D rows"
proof -
  obtain old new where t: "rows' = old @ new" "list_all2 (maybe_marked ds) rows old" "list_all (new_row ds) new"
    using assms(1) by (auto simp: touched_def)
  from t(2) have "past_view st D old = past_view st D rows"
    by (induction rule: list_all2_induct)
      (auto simp: past_view_def visible_rows_def maybe_marked_core maybe_marked_visible [OF _ assms(2)])
  moreover have "past_view st D new = []"
    using t(3) new_row_hidden [OF _ assms(2)] by (auto simp: past_view_def visible_rows_def list_all_iff filter_empty_conv)
  ultimately show ?thesis by (simp add: t(1) past_view_append)
qed

section \<open>Days never run ahead\<close>

definition day_ok :: "string \<Rightarrow> row \<Rightarrow> bool" where
  "day_ok ds r \<longleftrightarrow> (\<exists>d. r_ds r = Some d \<and> d \<le> ds) \<and> (\<forall>e. r_deleted_ds r = Some e \<longrightarrow> e \<le> ds)"

definition days_ok :: "string \<Rightarrow> row list \<Rightarrow> bool" where
  "days_ok ds rows \<longleftrightarrow> list_all (day_ok ds) rows"

lemma day_ok_mono: "day_ok ds r \<Longrightarrow> ds \<le> ds' \<Longrightarrow> day_ok ds' r"
  unfolding day_ok_def by (meson order_trans)

lemma days_ok_mono: "days_ok ds rows \<Longrightarrow> ds \<le> ds' \<Longrightarrow> days_ok ds' rows"
  unfolding days_ok_def by (erule list.pred_mono_strong) (rule day_ok_mono)

lemma maybe_marked_day: "maybe_marked ds r r' \<Longrightarrow> day_ok ds r \<Longrightarrow> day_ok ds r'"
  by (auto simp: maybe_marked_def day_ok_def)

lemma new_row_day: "new_row ds r \<Longrightarrow> day_ok ds r"
  by (simp add: new_row_def day_ok_def)

lemma touched_days:
  assumes "touched ds rows rows'" and "days_ok ds rows"
  shows "days_ok ds rows'"
proof -
  obtain old new where t: "rows' = old @ new" "list_all2 (maybe_marked ds) rows old" "list_all (new_row ds) new"
    using assms(1) by (auto simp: touched_def)
  from t(2) assms(2) have "days_ok ds old"
    unfolding days_ok_def by (induction rule: list_all2_induct) (auto intro: maybe_marked_day)
  moreover have "days_ok ds new"
    using t(3) unfolding days_ok_def by (rule list.pred_mono_strong) (rule new_row_day)
  ultimately show ?thesis using t(1) by (simp add: days_ok_def)
qed

lemma served_days:
  assumes "served ev ds s" and env: "env_ok ev g" and ddl: "create_tables (e_cfg ev) = Inr ddl"
    and "spec \<in> set (sc_tables (cfg_schema (e_cfg ev)))"
  shows "days_ok ds (rows_of (w_db s) (ts_name spec))"
  using assms(1)
proof induction
  case (fresh ds)
  then show ?case by (simp add: days_ok_def fresh_state_def rows_of_def)
next
  case (later ds s ds')
  then show ?case using days_ok_mono by blast
next
  case (done_write ds s op ts ex s')
  have "conv_ok (e_duck ev)" using env by (simp add: env_ok_def)
  from execute_touched [OF done_write.hyps(4) this] touched_days done_write.IH show ?case by blast
next
  case (rebuild ds s now stats d)
  have "synced ev g s" using served_synced [OF rebuild.hyps(1) env ddl] by simp
  from replay_restores [OF env ddl this, of now "w_db s"] rebuild.hyps(2) assms(4)
  have "rows_of d (ts_name spec) = rows_of (w_db s) (ts_name spec)" by (simp add: restored_def)
  then show ?case using rebuild.IH by simp
qed simp_all

lemma served_keyed:
  assumes "served ev ds s" and "env_ok ev g" and "create_tables (e_cfg ev) = Inr ddl"
    and "spec \<in> set (sc_tables (cfg_schema (e_cfg ev)))"
  shows "keyed spec (rows_of (w_db s) (ts_name spec))"
  using synced_keyed [OF _ assms(4)] served_synced [OF assms(1-3)] by blast

lemma today_view: "days_ok ds rows \<Longrightarrow> visible_rows st (Some ds) rows = visible_rows st None rows"
  unfolding visible_rows_def days_ok_def
  by (rule filter_cong [OF refl]) (auto simp: list_all_iff day_ok_def visible_def asof_conds_def split: option.splits)

end
