(* ===== verification/Storage_Facts.thy ===== *)
theory Storage_Facts
  imports Write_Facts
begin

text \<open>
  Facts about keys, batches and the worker that the storage properties rest on: the key of a
  stored row is the converted key of its record, the keys of a table are of one kind, what
  validation accepts, and what each job of a batch is answered.
\<close>

section \<open>The key of a stored row\<close>

lemma stored_key:
  assumes "mapR (\<lambda>c. bind_cell c rec) (ts_columns spec) = Inr (ir_cells ir)" and "stored_row x spec ir = Inr r" and "wf_table spec"
  shows "\<exists>c \<in> set (ts_columns spec). c_name c = ts_primary spec \<and>
     x_conv x (c_sql_type c) (dict_get rec (ts_primary spec)) = Inr (pk_of spec r)"
proof -
  obtain cells where cells: "mapR (\<lambda>(c, v). x_conv x (c_sql_type c) v) (zip (ts_columns spec) (ir_cells ir)) = Inr cells"
    and r: "r_cells r = zip (column_names spec) cells"
    using assms(2) by (auto simp: stored_row_def bindR_Inr_iff)
  obtain c where c: "c \<in> set (ts_columns spec)" "c_name c = ts_primary spec" "c_type c \<in> set PRIMARY_OK"
    using assms(3) by (auto simp: wf_table_def has_column_def list_ex_iff)
  obtain i where i: "i < length (ts_columns spec)" "ts_columns spec ! i = c"
    using c(1) by (auto simp: in_set_conv_nth)
  have len: "length (ir_cells ir) = length (ts_columns spec)" using mapR_length [OF assms(1)] .
  have len': "length cells = length (ts_columns spec)" using mapR_length [OF cells] len by simp
  have "bind_cell c rec = Inr (ir_cells ir ! i)"
    using assms(1) i unfolding mapR_Inr_iff list_all2_conv_all_nth by auto
  then have v: "ir_cells ir ! i = dict_get rec (ts_primary spec)"
    using c(2,3) by (auto simp: bind_cell_def PRIMARY_OK_def split: if_splits option.splits)
  have "x_conv x (c_sql_type c) (ir_cells ir ! i) = Inr (cells ! i)"
    using cells i len unfolding mapR_Inr_iff list_all2_conv_all_nth by auto
  moreover have "map_of (zip (column_names spec) cells) (column_names spec ! i) = Some (cells ! i)"
    using assms(3) i len' by (intro zip_map_of_nth) (auto simp: wf_table_def column_names_def)
  then have "pk_of spec r = cells ! i"
    using i c(2) by (simp add: pk_of_def r dict_get_def column_names_def)
  ultimately show ?thesis using c v by auto
qed

lemma made_key:
  assumes "made ev g spec ds now rec r" and "wf_table spec"
  shows "\<exists>c \<in> set (ts_columns spec). c_name c = ts_primary spec \<and>
     x_conv (e_duck ev) (c_sql_type c) (dict_get rec (ts_primary spec)) = Inr (pk_of spec r)"
proof -
  obtain ir where ir: "one_payload ev g spec ds now rec = Inr ir" "stored_row (e_duck ev) spec ir = Inr r"
    using assms(1) by (auto simp: made_def)
  then have "mapR (\<lambda>c. bind_cell c rec) (ts_columns spec) = Inr (ir_cells ir)"
    by (auto simp: one_payload_def bindR_Inr_iff)
  from stored_key [OF this ir(2) assms(2)] show ?thesis .
qed

lemma synced_row_made:
  assumes "synced ev g s" and "spec \<in> set (sc_tables (cfg_schema (e_cfg ev)))"
    and "r \<in> set (rows_of (w_db s) (ts_name spec))"
  shows "\<exists>ds now rec q. made ev g spec ds now rec q \<and> pk_of spec q = pk_of spec r \<and> pk_of spec q \<noteq> PNone"
proof -
  obtain puts dels rs0 where parts:
    "sync_parts ev g spec (iter_events (w_files s) (ts_name spec)) (rows_of (w_db s) (ts_name spec)) puts dels rs0"
    using assms(1,2) by (auto simp: synced_def sync_table_def)
  have "pk_of spec r \<in> set (map (pk_of spec) rs0)"
    using parts assms(3) unfolding sync_parts_def by (metis apply_dels_pk(1) imageI list.set_map)
  then obtain q where q: "q \<in> set rs0" "pk_of spec q = pk_of spec r" by auto
  have "pk_of spec q \<noteq> PNone" using parts q(1) by (auto simp: sync_parts_def keyed_def) (metis image_eqI)
  moreover have "list_all2 (put_made ev g spec) puts rs0" using parts by (simp add: sync_parts_def)
  from list_all2_source [OF this q(1)] have "\<exists>ds now rec. made ev g spec ds now rec q"
    by (auto simp: put_made_def)
  ultimately show ?thesis using q(2) by blast
qed

lemma synced_pk_kind:
  assumes "synced ev g s" and "env_ok ev g" and "spec \<in> set (sc_tables (cfg_schema (e_cfg ev)))" and "wf_table spec"
    and "r \<in> set (rows_of (w_db s) (ts_name spec))" and "q \<in> set (rows_of (w_db s) (ts_name spec))"
  shows "pk_kind (pk_of spec r) (pk_of spec q)"
proof -
  have conv: "conv_ok (e_duck ev)" using assms(2) by (simp add: env_ok_def)
  obtain d1 n1 rec1 r1 where r1: "made ev g spec d1 n1 rec1 r1" "pk_of spec r1 = pk_of spec r" "pk_of spec r1 \<noteq> PNone"
    using synced_row_made [OF assms(1,3,5)] by blast
  obtain d2 n2 rec2 r2 where r2: "made ev g spec d2 n2 rec2 r2" "pk_of spec r2 = pk_of spec q" "pk_of spec r2 \<noteq> PNone"
    using synced_row_made [OF assms(1,3,6)] by blast
  from made_pk_kind [OF conv assms(4) r1(1) r2(1) r1(3) r2(3)] r1(2) r2(2) show ?thesis by simp
qed

section \<open>What an insert does\<close>

lemma insert_effect:
  assumes "env_ok ev g" and "execute_one ev ds ts (OpInsert table rws skip) s = (Inr ex, s')"
    and "synced ev g s"
  shows "\<exists>spec recs rs. schema_table (cfg_schema (e_cfg ev)) table = Inr spec \<and>
     validate (e_cfg ev) (w_db s) table rws skip = Inr recs \<and>
     rows_of (w_db s') table = rows_of (w_db s) table @ rs \<and>
     list_all2 (made ev g spec (PStr ds) (PStr ts)) recs rs \<and> keyed spec (rows_of (w_db s') table) \<and>
     (\<forall>t. t \<noteq> table \<longrightarrow> rows_of (w_db s') t = rows_of (w_db s) t)"
  using assms(2)
proof (cases rule: insert_Inr)
  case (none spec)
  note tab = env_table [OF assms(1) none(2)]
  have "keyed spec (rows_of (w_db s) table)" using synced_keyed [OF assms(3) tab(1)] tab(2) by simp
  then show ?thesis using none
    by (intro exI [of _ spec] exI [of _ "[]"] exI [of _ "[]"]) simp
next
  case (some spec recs vs ks m d1 d2)
  note tab = env_table [OF assms(1) some(3)]
  have key: "keyed spec (rows_of (w_db s) (ts_name spec))" by (rule synced_keyed [OF assms(3) tab(1)])
  have al: "aligned ev g spec recs 0 vs ks" using embed_rows_aligned [OF _ some(4)] assms(1) by (simp add: env_ok_def)
  note com = commit_rows_made [OF al some(6) key]
  have idx: "rows_of d2 t = rows_of d1 t" for t using index_search_rows_frame [OF some(7)] by blast
  obtain rs where "rows_of d1 table = rows_of (w_db s) table @ rs"
    "list_all2 (made ev g spec (PStr ds) (PStr ts)) recs rs" "keyed spec (rows_of (w_db s) table @ rs)"
    using com(1) tab(2) by auto
  moreover have "\<forall>t. t \<noteq> table \<longrightarrow> rows_of d1 t = rows_of (w_db s) t" using com(2) tab(2) by simp
  ultimately show ?thesis using some(1,3,8) idx
    by (intro exI [of _ spec] exI [of _ recs] exI [of _ rs]) simp
qed

section \<open>The idempotent sink\<close>

text \<open>The key column keeps the text of the keys that are written (typed keys).\<close>

definition keys_kept :: "duck \<Rightarrow> tablespec \<Rightarrow> pyrow list \<Rightarrow> bool" where
  "keys_kept x spec rws \<longleftrightarrow> list_all (\<lambda>rw. list_all (\<lambda>c. c_name c = ts_primary spec \<longrightarrow>
     (case x_conv x (c_sql_type c) (dict_get rw (ts_primary spec)) of
        Inl e \<Rightarrow> True | Inr w \<Rightarrow> py_str w = py_str (dict_get rw (ts_primary spec)))) (ts_columns spec)) rws"

lemma kept_text:
  assumes "\<exists>c \<in> set (ts_columns spec). c_name c = ts_primary spec \<and>
      x_conv x (c_sql_type c) (dict_get (norm_record spec rw) (ts_primary spec)) = Inr (pk_of spec r)"
    and "wf_table spec" and "keys_kept x spec rws" and "rw \<in> set rws"
  shows "pk_text spec r = record_key spec (norm_record spec rw)"
proof -
  have "dict_get (norm_record spec rw) (ts_primary spec) = dict_get rw (ts_primary spec)"
    using norm_record_get [OF wf_table_primary [OF assms(2)]] .
  then show ?thesis
    using assms(1,3,4) by (fastforce simp: keys_kept_def list_all_iff pk_text_def record_key_def pk_of_def)
qed

lemma made_key_text:
  assumes "made ev g spec ds now (norm_record spec rw) r" and "wf_table spec"
    and "keys_kept (e_duck ev) spec rws" and "rw \<in> set rws"
  shows "pk_text spec r = record_key spec (norm_record spec rw)"
  by (rule kept_text [OF made_key [OF assms(1,2)] assms(2-4)])

lemma insert_payload_cells:
  "insert_payload cfg spec i recs vs ks ds now = Inr irs \<Longrightarrow>
     list_all2 (\<lambda>rec ir. mapR (\<lambda>c. bind_cell c rec) (ts_columns spec) = Inr (ir_cells ir)) recs irs"
  by (induction cfg spec i recs vs ks ds now arbitrary: irs rule: insert_payload.induct) (auto simp: bindR_Inr_iff)

lemma list_all2_target: "list_all2 P xs ys \<Longrightarrow> x \<in> set xs \<Longrightarrow> \<exists>y \<in> set ys. P x y"
  by (induction rule: list_all2_induct) auto

lemma existing_keys_total:
  assumes "schema_table (cfg_schema cfg) table = Inr spec" and "phys table = Inr p" and "sql_ident (ts_primary spec) = Inr k"
  shows "\<exists>ex. existing_keys cfg d table keys = Inr ex"
  using assms by (simp add: existing_keys_def)

lemma validate_skip_all_present:
  assumes "schema_table (cfg_schema cfg) table = Inr spec" and "phys table = Inr p" and "sql_ident (ts_primary spec) = Inr k"
    and "normalize_rows spec rws = Inr ns"
    and "record_key spec ` set ns \<subseteq> set (map (pk_text spec) (rows_of d table))"
  shows "validate cfg d table rws True = Inr []"
proof -
  let ?dd = "dedup_by (record_key spec) [] ns"
  obtain ex where ex: "existing_keys cfg d table (map (record_key spec) ?dd) = Inr ex"
    using existing_keys_total [OF assms(1-3)] by blast
  have "set ex = record_key spec ` set ?dd"
  proof -
    have "record_key spec ` set ?dd \<subseteq> set (map (pk_text spec) (rows_of d table))"
      using assms(5) dedup_by_subset [of "record_key spec" "[]" ns] by (meson image_mono order_trans)
    then show ?thesis using existing_keys_Inr [OF ex assms(1)] by (simp add: Int_absorb2)
  qed
  then have "filter (\<lambda>r. record_key spec r \<notin> set ex) ?dd = []" by (auto simp: filter_empty_conv)
  then show ?thesis using assms(1,4) ex by (simp add: validate_def Let_def)
qed

lemma validate_skip_keys:
  assumes "validate cfg d table rws True = Inr recs" and "schema_table (cfg_schema cfg) table = Inr spec" and "rw \<in> set rws"
  shows "record_key spec (norm_record spec rw) \<in> record_key spec ` set recs \<union> set (map (pk_text spec) (rows_of d table))"
proof -
  let ?ns = "map (norm_record spec) rws"
  let ?dd = "dedup_by (record_key spec) [] ?ns"
  have "normalize_rows spec rws = Inr ?ns"
    using assms(1,2) by (auto simp: validate_def bindR_Inr_iff normalize_rows_Inr)
  then obtain ex where ex: "existing_keys cfg d table (map (record_key spec) ?dd) = Inr ex"
    and recs: "recs = filter (\<lambda>r. record_key spec r \<notin> set ex) ?dd"
    using assms(1,2) by (auto simp: validate_def bindR_Inr_iff Let_def)
  have "record_key spec (norm_record spec rw) \<in> record_key spec ` set ?dd"
    using assms(3) dedup_by_keys [of "record_key spec" "[]" ?ns] by auto
  then obtain q where q: "q \<in> set ?dd" "record_key spec q = record_key spec (norm_record spec rw)" by auto
  show ?thesis
  proof (cases "record_key spec q \<in> set ex")
    case True
    then show ?thesis using existing_keys_Inr [OF ex assms(2)] q(2) by simp
  next
    case False
    then have "q \<in> set recs" using q(1) by (simp add: recs)
    then show ?thesis using q(2) by (metis UnI1 imageI)
  qed
qed

lemma replay_absorbed:
  assumes env: "env_ok ev g" and ddl: "create_tables (e_cfg ev) = Inr ddl" and syn: "synced ev g s"
    and tab: "schema_table (cfg_schema (e_cfg ev)) table = Inr spec" and kept: "keys_kept (e_duck ev) spec rws"
    and run: "execute_one ev ds ts (OpInsert table rws True) s = (Inr ex, s')" and sub: "set rws' \<subseteq> set rws"
  shows "execute_one ev ds' ts' (OpInsert table rws' True) s' = (Inr (Executed ''insert'' [] None), s')"
proof -
  note t = env_table [OF env tab]
  obtain recs rs where r: "validate (e_cfg ev) (w_db s) table rws True = Inr recs"
    "rows_of (w_db s') table = rows_of (w_db s) table @ rs" "list_all2 (made ev g spec (PStr ds) (PStr ts)) recs rs"
    using insert_effect [OF env run syn] tab by auto
  have norm: "list_all (\<lambda>rw. fst ` set rw \<subseteq> set (column_names spec)) rws"
    using r(1) tab by (auto simp: validate_def bindR_Inr_iff normalize_rows_Inr)
  have ns: "normalize_rows spec rws' = Inr (map (norm_record spec) rws')"
    using norm sub by (auto simp: normalize_rows_Inr list_all_iff)
  have "record_key spec (norm_record spec rw) \<in> set (map (pk_text spec) (rows_of (w_db s') table))"
    if rw: "rw \<in> set rws" for rw
    using validate_skip_keys [OF r(1) tab rw]
  proof
    assume "record_key spec (norm_record spec rw) \<in> record_key spec ` set recs"
    then obtain rec where rec: "rec \<in> set recs" "record_key spec rec = record_key spec (norm_record spec rw)" by auto
    obtain rw1 where rw1: "rw1 \<in> set rws" "rec = norm_record spec rw1"
      using validate_Inr(3) [OF r(1) tab] rec(1) by auto
    obtain q where q: "q \<in> set rs" "made ev g spec (PStr ds) (PStr ts) rec q"
      using list_all2_target [OF r(3) rec(1)] by blast
    have "pk_text spec q = record_key spec (norm_record spec rw)"
      using made_key_text [OF _ t(3) kept rw1(1)] q(2) rw1(2) rec(2) by simp
    then show ?thesis using q(1) r(2) by force
  qed (use r(2) in auto)
  then have "record_key spec ` set (map (norm_record spec) rws') \<subseteq> set (map (pk_text spec) (rows_of (w_db s') table))"
    using sub by auto
  from validate_skip_all_present [OF tab _ _ ns this] create_tables_names [OF ddl t(1)] t(2)
  have "validate (e_cfg ev) (w_db s') table rws' True = Inr []" by auto
  then show ?thesis using tab by (simp add: bindM_def readM_def liftM_def)
qed

section \<open>What a delete does\<close>

lemma delete_Inr:
  assumes "execute_one ev ds ts (OpDelete table wh ps) s = (Inr ex, s')" and "conv_ok (e_duck ev)"
  shows "\<exists>spec keys m. schema_table (cfg_schema (e_cfg ev)) table = Inr spec \<and>
     match_live (e_cfg ev) (e_duck ev) (w_db s) table wh ps = Inr keys \<and>
     ex = Executed ''delete'' [(''matched'', PInt (int (length keys)))] None \<and>
     write_deletes table keys ds ts (w_files s) = (Inr (), m) \<and> w_files s' = m \<and>
     (\<forall>t. rows_of (w_db s') t = (if t = table then map (mark_deleted spec (map py_str keys) (Some ds) (Some ts)) (rows_of (w_db s) table)
        else rows_of (w_db s) t))"
proof -
  obtain keys m d1 where keys: "match_live (e_cfg ev) (e_duck ev) (w_db s) table wh ps = Inr keys"
    and m: "write_deletes table keys ds ts (w_files s) = (Inr (), m)"
    and d1: "soft_delete (e_cfg ev) (e_duck ev) table keys (PStr ds) (PStr ts) (w_db s) = (Inr (), d1)"
    and s': "s' = s\<lparr>w_files := m, w_db := d1\<rparr>"
    and ex: "ex = Executed ''delete'' [(''matched'', PInt (int (length keys)))] None"
    using assms(1) by (auto simp: sm_iff)
  obtain spec where spec: "schema_table (cfg_schema (e_cfg ev)) table = Inr spec"
    using match_live_Inr [OF keys] by blast
  have "rows_of d1 t = (if t = table then map (mark_deleted spec (map py_str keys) (Some ds) (Some ts)) (rows_of (w_db s) table)
      else rows_of (w_db s) t)" for t
    using soft_delete_Inr [OF d1] spec meta_cell_str [OF assms(2)] mark_deleted_none by auto
  then show ?thesis using keys m s' ex spec by (intro exI [of _ spec] exI [of _ keys] exI [of _ m]) simp
qed

lemma match_live_keys:
  assumes "env_ok ev g" and "match_live (e_cfg ev) (e_duck ev) d table wh ps = Inr keys"
    and "schema_table (cfg_schema (e_cfg ev)) table = Inr spec"
  shows "set keys \<subseteq> pk_of spec ` set (visible_rows None None (rows_of d table))"
  using match_live_Inr [OF assms(2)] assms(1,3) unfolding env_ok_def select_ok_def by (metis sum.inject(2))

lemma delete_live_rows:
  assumes "set keys \<subseteq> pk_of spec ` set (visible_rows None None rows)"
    and "\<And>r q. r \<in> set rows \<Longrightarrow> q \<in> set rows \<Longrightarrow> pk_kind (pk_of spec r) (pk_of spec q)"
  shows "visible_rows None None (map (mark_deleted spec (map py_str keys) (Some ds) now) rows) =
     filter (\<lambda>r. pk_of spec r \<notin> set keys) (visible_rows None None rows)"
proof -
  have hit: "pk_text spec r \<in> set (map py_str keys) \<longleftrightarrow> pk_of spec r \<in> set keys" if "r \<in> set rows" for r
  proof -
    have "k = pk_of spec r" if k: "k \<in> set keys" "py_str k = pk_text spec r" for k
    proof -
      obtain q where "q \<in> set rows" "k = pk_of spec q" using assms(1) k(1) by (auto simp: visible_rows_def)
      then show ?thesis
        using k(2) pk_kind_inj [OF assms(2), of r q] \<open>r \<in> set rows\<close> by (simp add: pk_text_def pk_of_def)
    qed
    then show ?thesis by (force simp: pk_text_def pk_of_def)
  qed
  from hit have "visible_rows None None (map (mark_deleted spec (map py_str keys) (Some ds) now) qs) =
      filter (\<lambda>r. pk_of spec r \<notin> set keys) (visible_rows None None qs)" if "set qs \<subseteq> set rows" for qs
    using that
  proof (induction qs)
    case (Cons r qs)
    then show ?case
      by (cases "pk_of spec r \<in> set keys"; cases "r_deleted_ds r")
        (simp_all add: visible_rows_def visible_now mark_deleted_def)
  qed (simp add: visible_rows_def)
  then show ?thesis by blast
qed

section \<open>What validation accepts\<close>

lemma normalize_rows_cases:
  "normalize_rows spec rws = (if list_all (\<lambda>rw. fst ` set rw \<subseteq> set (column_names spec)) rws
     then Inr (map (norm_record spec) rws) else raise QueryError ''unknown column(s)'')"
  by (induction rws) (auto simp: list_ex_iff)

lemma validate_strict:
  assumes "phys table = Inr p" and "schema_table (cfg_schema cfg) table = Inr spec"
    and "sql_ident (ts_primary spec) = Inr k"
  shows "validate cfg d table rws False =
     (let ns = map (norm_record spec) rws; keys = map (record_key spec) ns in
      if \<not> list_all (\<lambda>rw. fst ` set rw \<subseteq> set (column_names spec)) rws then raise QueryError ''unknown column(s)''
      else if \<not> distinct keys then raise QueryError ''duplicate primary key within the insert batch''
      else if set keys \<inter> set (map (pk_text spec) (rows_of d table)) \<noteq> {} then raise QueryError ''primary key already exists''
      else Inr ns)"
proof -
  let ?ns = "map (norm_record spec) rws"
  obtain ex where ex: "existing_keys cfg d table (map (record_key spec) ?ns) = Inr ex"
    using existing_keys_total [OF assms(2,1,3)] by blast
  have "ex = [] \<longleftrightarrow> set (map (record_key spec) ?ns) \<inter> set (map (pk_text spec) (rows_of d table)) = {}"
    using existing_keys_Inr [OF ex assms(2)] by (metis set_empty2)
  then show ?thesis
    using assms(2) ex by (simp add: validate_def normalize_rows_cases Let_def)
qed

lemma refused_insert:
  "validate (e_cfg ev) (w_db s) table rws skip = Inl e \<Longrightarrow> execute_one ev ds ts (OpInsert table rws skip) s = (Inl e, s)"
  by (simp add: bindM_def readM_def)

lemma refused_delete:
  "match_live (e_cfg ev) (e_duck ev) (w_db s) table wh ps = Inl e \<Longrightarrow>
     execute_one ev ds ts (OpDelete table wh ps) s = (Inl e, s)"
  by (simp add: bindM_def readM_def)

section \<open>A batch\<close>

lemma execute_batch_length: "execute_batch ev js s = (rs, s') \<Longrightarrow> length rs = length js"
  by (induction js arbitrary: s rs) (auto split: prod.splits)

lemma fts_table_named:
  assumes "execute_one ev ds ts op s = (Inr (Executed k x (Some t)), s')"
  shows "\<exists>spec. schema_table (cfg_schema (e_cfg ev)) t = Inr spec"
proof (cases op)
  case (OpInsert table rws skip)
  show ?thesis using assms unfolding OpInsert
    by (cases rule: insert_Inr) (auto split: if_splits)
qed (use assms in \<open>auto simp: sm_iff\<close>)

lemma execute_batch_fts:
  assumes "execute_batch ev js s = (rs, s')" and "t \<in> set (concat (map fts_table rs))"
  shows "\<exists>spec. schema_table (cfg_schema (e_cfg ev)) t = Inr spec"
  using assms
proof (induction js arbitrary: s rs)
  case (Cons j js)
  obtain r s1 where r: "execute_one ev (j_ds j) (j_ts j) (j_op j) s = (r, s1)" by fastforce
  obtain rs2 s2 where rs2: "execute_batch ev js s1 = (rs2, s2)" by fastforce
  have rs: "rs = r # rs2" "s' = s2" using Cons.prems(1) r rs2 by simp_all
  show ?case
  proof (cases "t \<in> set (fts_table r)")
    case True
    then obtain k x where "r = Inr (Executed k x (Some t))" by (cases r rule: fts_table.cases) (auto split: if_splits)
    then show ?thesis using fts_table_named r by blast
  next
    case False
    then show ?thesis using Cons.IH [OF rs2 [unfolded rs(2) [symmetric]]] Cons.prems(2) rs(1) by auto
  qed
qed simp

text \<open>Appending the records of a batch: afterwards every one of them is found.\<close>

lemma find_distinct: "distinct (map f xs) \<Longrightarrow> x \<in> set xs \<Longrightarrow> find (\<lambda>y. f y = f x) xs = Some x"
  by (induction xs) (auto simp: rev_image_eqI)

definition good_tasks :: "task list \<Rightarrow> bool" where
  "good_tasks ts \<longleftrightarrow> list_all task_ok ts \<and> distinct (map t_id ts)"

lemma append_tasks_found:
  assumes "tlog_ok lg" and "good_tasks ts"
  shows "\<exists>lg'. append_tasks ts lg = (Inr (), lg') \<and> tlog_ok lg' \<and>
     (\<forall>i. task_status lg' i = (case find (\<lambda>t. t_id t = PStr i) ts of None \<Rightarrow> task_status lg i | Some t \<Rightarrow> Inr t))"
  using assms
proof (induction ts arbitrary: lg)
  case (Cons t ts)
  have tok: "task_ok t" "good_tasks ts" "t_id t \<notin> t_id ` set ts" using Cons.prems(2) by (auto simp: good_tasks_def)
  obtain lg1 where lg1: "task_append lg t = Inr lg1" using task_append_total [OF tok(1)] by blast
  obtain i where i: "t_id t = PStr i" using tok(1) by (auto simp: task_ok_iff)
  have ok1: "tlog_ok lg1" by (rule task_append_Inr(1) [OF Cons.prems(1) tok(1) lg1 i])
  note st = task_status_append [OF Cons.prems(1) tok(1) lg1]
  obtain lg' where lg': "append_tasks ts lg1 = (Inr (), lg')" "tlog_ok lg'"
    "\<forall>i. task_status lg' i = (case find (\<lambda>t. t_id t = PStr i) ts of None \<Rightarrow> task_status lg1 i | Some t \<Rightarrow> Inr t)"
    using Cons.IH [OF ok1 tok(2)] by blast
  have "find (\<lambda>u. t_id u = PStr j) ts = None" if "t_id t = PStr j" for j
    using tok(3) that by (auto simp: find_None_iff) (metis image_eqI)
  then have "task_status lg' j = (case find (\<lambda>u. t_id u = PStr j) (t # ts) of None \<Rightarrow> task_status lg j | Some u \<Rightarrow> Inr u)" for j
    using lg'(3) st [of j] by (auto split: option.splits)
  then show ?case using lg' lg1 by simp
qed simp

section \<open>The worker\<close>

lemma process_batch_length: "process_batch ev ts js b = (out, b') \<Longrightarrow> length out = length js"
  by (auto simp: process_batch_def Let_def split: prod.splits dest: execute_batch_length)

lemma process_batch_rows:
  assumes "process_batch ev ts js b = (out, b')"
  shows "w_files (b_w b') = w_files (snd (execute_batch ev js (b_w b)))"
    and "rows_of (w_db (b_w b')) t = rows_of (w_db (snd (execute_batch ev js (b_w b)))) t"
  using assms by (auto simp: process_batch_def Let_def split: prod.splits)

section \<open>Keys are never lost\<close>

lemma touched_keys:
  assumes "touched ds rows rows'"
  shows "pk_text spec ` set rows \<subseteq> pk_text spec ` set rows'"
proof -
  obtain old new where t: "rows' = old @ new" "list_all2 (maybe_marked ds) rows old"
    using assms by (auto simp: touched_def)
  from t(2) have "map (pk_text spec) old = map (pk_text spec) rows"
    by (induction rule: list_all2_induct) (auto simp: maybe_marked_def pk_text_def)
  then have "pk_text spec ` set old = pk_text spec ` set rows" by (metis list.set_map)
  then show ?thesis using t(1) by auto
qed

text \<open>A successful insert with typed keys leaves the key of every row it was given in the table.\<close>

lemma insert_lands:
  assumes "execute_one ev ds ts (OpInsert table rws True) s = (Inr ex, s')"
    and "schema_table (cfg_schema (e_cfg ev)) table = Inr spec" and "wf_table spec"
    and "keys_kept (e_duck ev) spec rws" and "conv_ok (e_duck ev)" and "rw \<in> set rws"
  shows "record_key spec (norm_record spec rw) \<in> pk_text spec ` set (rows_of (w_db s') table)"
proof -
  have mono: "pk_text spec ` set (rows_of (w_db s) table) \<subseteq> pk_text spec ` set (rows_of (w_db s') table)"
    by (rule touched_keys [OF execute_touched [OF assms(1,5)]])
  have n: "ts_name spec = table" using schema_table_Inr [OF assms(2)] by simp
  show ?thesis
    using assms(1)
  proof (cases rule: insert_Inr)
    case (none spec')
    then show ?thesis using validate_skip_keys [OF none(1) assms(2,6)] mono by auto
  next
    case (some spec' recs vs ks m d1 d2)
    have sp: "spec' = spec" using some(3) assms(2) by simp
    obtain irs where irs: "insert_payload (e_cfg ev) spec 0 recs vs ks (PStr ds) (PStr ts) = Inr irs"
      and ins: "forM (insert_one (e_duck ev) spec) irs (w_db s) = (Inr (), d1)"
      using some(6) by (auto simp: sp commit_rows_def insert_rows_def bindM_Inr)
    obtain rs where rs: "rows_of d1 table = rows_of (w_db s) table @ rs"
      "list_all2 (\<lambda>ir r. stored_row (e_duck ev) spec ir = Inr r \<and> pk_of spec r \<noteq> PNone) irs rs"
      using ins.forM_rows [OF ins] n by auto
    have "rows_of (w_db s') table = rows_of d1 table" using index_search_rows_frame [OF some(7)] some(8) by simp
    then have new: "set rs \<subseteq> set (rows_of (w_db s') table)" using rs(1) by simp
    show ?thesis
      using validate_skip_keys [OF some(1) assms(2,6)]
    proof
      assume "record_key spec (norm_record spec rw) \<in> record_key spec ` set recs"
      then obtain rec where rec: "rec \<in> set recs" "record_key spec rec = record_key spec (norm_record spec rw)" by auto
      obtain rw1 where rw1: "rw1 \<in> set rws" "rec = norm_record spec rw1"
        using validate_Inr(3) [OF some(1) assms(2)] rec(1) by auto
      obtain ir where ir: "ir \<in> set irs" "mapR (\<lambda>c. bind_cell c rec) (ts_columns spec) = Inr (ir_cells ir)"
        using list_all2_target [OF insert_payload_cells [OF irs] rec(1)] by blast
      obtain r where r: "r \<in> set rs" "stored_row (e_duck ev) spec ir = Inr r"
        using list_all2_target [OF rs(2) ir(1)] by blast
      have "pk_text spec r = record_key spec (norm_record spec rw)"
        using kept_text [OF _ assms(3,4) rw1(1)] stored_key [OF ir(2) r(2) assms(3)] rw1(2) rec(2) by simp
      then show ?thesis using r(1) new by force
    qed (use mono in auto)
  qed
qed

end
