(* ===== verification/Sample_Store.thy ===== *)
theory Sample_Store
  imports Write_Facts Sample_Data
begin

text \<open>
  A concrete store: conversions and a \<open>SELECT\<close> of the engine on the sample table, and a short
  history of writes over two days, at which the properties of the storage are instantiated.
\<close>

definition sample_conv :: "string \<Rightarrow> pyval \<Rightarrow> pyval res" where
  "sample_conv ty v = (if ty = ''VARCHAR'' then
       (case v of PNone \<Rightarrow> Inr PNone | PStr s \<Rightarrow> Inr (PStr s) | PInt i \<Rightarrow> Inr (PStr (show_int i))
        | _ \<Rightarrow> raise DuckError ''Conversion Error'')
     else if ty = ''BIGINT'' then
       (case v of PNone \<Rightarrow> Inr PNone
        | PInt i \<Rightarrow> if - (2 ^ 63) \<le> i \<and> i < 2 ^ 63 then Inr (PInt i) else raise DuckError ''Conversion Error''
        | _ \<Rightarrow> raise DuckError ''Conversion Error'')
     else Inr v)"

definition sample_select :: "db \<Rightarrow> string \<Rightarrow> pyval list \<Rightarrow> pyval list res" where
  "sample_select d sql ps =
     (if sql = ''SELECT '' @ qid ''id'' @ '' FROM '' @ qid ''docs'' @ '' WHERE (id = ?)''
      then Inr (filter (\<lambda>k. ps = [k]) (map (pk_of sample_table) (visible_rows None None (rows_of d ''docs''))))
      else raise DuckError ''Parser Error'')"

definition sample_env :: wenv where
  "sample_env = \<lparr>e_cfg = sample_cfg, e_duck = \<lparr>x_conv = sample_conv, x_select = sample_select\<rparr>,
     e_emb = Some sample_embedder\<rparr>"

definition sample_rows :: "pyrow list" where
  "sample_rows = [[(''id'', PStr ''a''), (''body'', PStr ''first note'')],
     [(''body'', PStr ''second note''), (''id'', PStr ''b'')]]"

definition sample_insert :: wop where
  "sample_insert = OpInsert ''docs'' sample_rows False"

definition sample_delete :: wop where
  "sample_delete = OpDelete ''docs'' ''id = ?'' [PStr ''a'']"

definition day1 :: string where "day1 = ''20260101''"
definition day2 :: string where "day2 = ''20260102''"

definition sample_jobs :: "job list" where
  "sample_jobs = [\<lparr>j_op = sample_insert, j_ds = day1, j_ts = ''t1'', j_id = ''tk_20260101_aa''\<rparr>,
     \<lparr>j_op = sample_delete, j_ds = day2, j_ts = ''t2'', j_id = ''tk_20260102_bb''\<rparr>]"

definition state1 :: wstate where
  "state1 = snd (execute_one sample_env day1 ''t1'' sample_insert fresh_state)"

definition state2 :: wstate where
  "state2 = snd (execute_one sample_env day2 ''t2'' sample_delete state1)"

lemma sample_select_ok: "select_ok sample_cfg \<lparr>x_conv = sample_conv, x_select = sample_select\<rparr>"
proof -
  have sql: "table = ''docs''" if "schema_table sample_schema table = Inr spec" for table spec
    using that schema_table_Inr [OF that] by (auto simp: sample_schema_def sample_table_def)
  have spec: "spec = sample_table" if "schema_table sample_schema table = Inr spec" for table spec
    using schema_table_Inr [OF that] by (auto simp: sample_schema_def)
  show ?thesis
    using sql spec
    by (fastforce simp: select_ok_def sample_cfg_def sample_select_def split: if_splits)
qed

lemma sample_conv_ok: "conv_ok \<lparr>x_conv = sample_conv, x_select = sample_select\<rparr>"
  by (auto simp: conv_ok_def sample_conv_def split: pyval.splits if_splits)

lemma sample_env_ok: "env_ok sample_env sample_vec"
  using sample_select_ok sample_conv_ok sample_wf sample_pointwise
  by (auto simp: env_ok_def sample_env_def emb_ok_def sample_cfg_def no_tombstone_column_def sample_schema_def
      sample_table_def column_names_def)

lemma sample_tables: "\<exists>ddl. create_tables (e_cfg sample_env) = Inr ddl"
proof -
  have "case create_tables (e_cfg sample_env) of Inr ddl \<Rightarrow> True | _ \<Rightarrow> False" by code_simp
  then show ?thesis by (auto split: sum.splits)
qed

lemma sample_step1: "\<exists>ex. execute_one sample_env day1 ''t1'' sample_insert fresh_state = (Inr ex, state1)"
proof -
  have "case execute_one sample_env day1 ''t1'' sample_insert fresh_state of (Inr ex, s) \<Rightarrow> True | _ \<Rightarrow> False"
    by code_simp
  then show ?thesis by (auto simp: state1_def split: prod.splits sum.splits)
qed

lemma sample_step2: "\<exists>ex. execute_one sample_env day2 ''t2'' sample_delete state1 = (Inr ex, state2)"
proof -
  have "case execute_one sample_env day2 ''t2'' sample_delete state1 of (Inr ex, s) \<Rightarrow> True | _ \<Rightarrow> False"
    by code_simp
  then show ?thesis by (auto simp: state2_def split: prod.splits sum.splits)
qed

lemma sample_served1: "served sample_env day1 state1"
proof -
  obtain ex where e: "execute_one sample_env day1 ''t1'' sample_insert fresh_state = (Inr ex, state1)"
    using sample_step1 by blast
  have "op_json sample_insert" by code_simp
  from served.done_write [OF served.fresh this _ e] show ?thesis by simp
qed

lemma sample_served2: "served sample_env day2 state2"
proof -
  obtain ex where e: "execute_one sample_env day2 ''t2'' sample_delete state1 = (Inr ex, state2)"
    using sample_step2 by blast
  have "op_json sample_delete" by code_simp
  moreover have "day1 \<le> day2" by code_simp
  ultimately show ?thesis using served.done_write [OF served.later [OF sample_served1] _ _ e] by simp
qed

end
