(* ===== verification/Storage_Props.thy ===== *)
theory Storage_Props
  imports Storage_Facts Sample_Store
begin

text \<open>
  The properties of the storage: the mirror rebuilds the database, keys are written once, the
  past does not change, a batch answers every job and leaves the search index fresh.
\<close>

section \<open>Rebuild\<close>





section \<open>Writing\<close>



text \<open>C14: An insert is accepted exactly when every column is declared, the batch repeats no key and no
  key is in the table (deleted rows included); otherwise it is refused with the first of these
  errors.\<close>

theorem validate_decides:
  assumes "create_tables cfg = Inr ddl" and "schema_table (cfg_schema cfg) table = Inr spec"
  shows "validate cfg d table rws False =
     (let ns = map (norm_record spec) rws; keys = map (record_key spec) ns in
      if \<not> list_all (\<lambda>rw. fst ` set rw \<subseteq> set (column_names spec)) rws then raise QueryError ''unknown column(s)''
      else if \<not> distinct keys then raise QueryError ''duplicate primary key within the insert batch''
      else if set keys \<inter> set (map (pk_text spec) (rows_of d table)) \<noteq> {} then raise QueryError ''primary key already exists''
      else Inr ns)"
proof -
  have "spec \<in> set (sc_tables (cfg_schema cfg))" "ts_name spec = table"
    using schema_table_Inr [OF assms(2)] by auto
  then show ?thesis using create_tables_names [OF assms(1)] validate_strict [OF _ assms(2)] by blast
qed

theorem validate_decides_witness:
  "validate sample_cfg (w_db state2) ''docs'' [[(''id'', PStr ''a'')]] False =
     raise QueryError ''primary key already exists''"
proof -
  obtain ddl where ddl: "create_tables sample_cfg = Inr ddl"
    using sample_tables by (auto simp: sample_env_def)
  have "schema_table (cfg_schema sample_cfg) ''docs'' = Inr sample_table" by code_simp
  note v = validate_decides [OF ddl this, of "w_db state2" "[[(''id'', PStr ''a'')]]"]
  have "record_key sample_table (norm_record sample_table [(''id'', PStr ''a'')]) \<in>
      set (map (pk_text sample_table) (rows_of (w_db state2) ''docs''))" by code_simp
  moreover have "fst ` set [(''id'', PStr ''a'')] \<subseteq> set (column_names sample_table)" by code_simp
  ultimately show ?thesis by (simp add: v Let_def)
qed

text \<open>An operation that is refused before the files are written leaves the whole state as it was,
  and its error is what the caller gets.\<close>

lemma refused_write_changes_nothing:
  assumes "validate (e_cfg ev) (w_db s) table rws skip = Inl e"
    and "match_live (e_cfg ev) (e_duck ev) (w_db s) table' wh params = Inl e'"
  shows "execute_one ev ds ts (OpInsert table rws skip) s = (Inl e, s) \<and>
     execute_one ev ds ts (OpDelete table' wh params) s = (Inl e', s) \<and>
     execute_one ev ds ts (OpUnknown k) s = (Inl (Exn QueryError ''unknown write op''), s)"
  using refused_insert [OF assms(1)] refused_delete [OF assms(2)] by simp


definition state_sink :: wstate where
  "state_sink = snd (execute_one sample_env day1 ''t1'' (OpInsert ''docs'' sample_rows True) fresh_state)"




section \<open>The time machine\<close>



text \<open>The view as of the current day is the current view: the two branches of the visibility
  predicate agree on today.\<close>

lemma today_is_now:
  assumes "env_ok ev g" and "create_tables (e_cfg ev) = Inr ddl" and "served ev ds s"
    and "spec \<in> set (sc_tables (cfg_schema (e_cfg ev)))"
  shows "visible_rows st (Some ds) (rows_of (w_db s) (ts_name spec)) = visible_rows st None (rows_of (w_db s) (ts_name spec))"
  by (rule today_view [OF served_days [OF assms(3,1,2,4)]])

section \<open>Batches and the worker\<close>


definition sample_bstate :: bstate where
  "sample_bstate = \<lparr>b_w = fresh_state, b_log = []\<rparr>"


text \<open>C18: A batch answers its jobs one by one: a failed job with its own exception, a successful one with
  its born-done task, and that task is then what the log returns for its id.\<close>

theorem batch_answers_jobs:
  assumes "tlog_ok (b_log b)" and "good_tasks (batch_tasks ts js (fst (execute_batch ev js (b_w b))))"
    and "process_batch ev ts js b = (out, b')"
  shows "length out = length js \<and>
     (\<forall>i < length js. case fst (execute_batch ev js (b_w b)) ! i of
        Inl e \<Rightarrow> out ! i = Inl e
      | Inr ex \<Rightarrow> out ! i = Inr (born_done (j_id (js ! i)) ts ex) \<and>
          task_status (b_log b') (j_id (js ! i)) = Inr (born_done (j_id (js ! i)) ts ex))"
proof -
  obtain rs w1 where rs: "execute_batch ev js (b_w b) = (rs, w1)" by fastforce
  have len: "length rs = length js" by (rule execute_batch_length [OF rs])
  obtain lg where lg: "append_tasks (batch_tasks ts js rs) (b_log b) = (Inr (), lg)"
    "\<forall>i. task_status lg i = (case find (\<lambda>t. t_id t = PStr i) (batch_tasks ts js rs) of
        None \<Rightarrow> task_status (b_log b) i | Some t \<Rightarrow> Inr t)"
    using append_tasks_found [OF assms(1)] assms(2) rs by auto
  have out: "out = map (\<lambda>(j, r). case r of Inl e \<Rightarrow> Inl e | Inr ex \<Rightarrow> Inr (born_done (j_id j) ts ex)) (zip js rs)"
    and b': "b_log b' = lg"
    using assms(3) rs lg(1) by (auto simp: process_batch_def Let_def split: prod.splits)
  have found: "task_status lg (j_id (js ! i)) = Inr (born_done (j_id (js ! i)) ts ex)"
    if i: "i < length js" "rs ! i = Inr ex" for i ex
  proof -
    let ?t = "born_done (j_id (js ! i)) ts ex" and ?ts = "batch_tasks ts js rs"
    have "(js ! i, rs ! i) \<in> set (zip js rs)" using i len by (metis length_zip min.idem nth_mem nth_zip)
    then have mem: "?t \<in> set ?ts" using i(2) by (force simp: batch_tasks_def)
    have id: "t_id ?t = PStr (j_id (js ! i))" by (simp add: born_done_def mk_task_def split: executed.splits)
    have "distinct (map t_id ?ts)" using assms(2) rs by (simp add: good_tasks_def)
    from find_distinct [OF this mem] have "find (\<lambda>t. t_id t = PStr (j_id (js ! i))) ?ts = Some ?t"
      unfolding id .
    then show ?thesis using lg(2) by simp
  qed
  show ?thesis
    using found len by (auto simp: out b' rs split: sum.splits)
qed

theorem batch_answers_jobs_witness:
  "task_status (b_log (snd (process_batch sample_env ''t3'' sample_jobs sample_bstate))) ''tk_20260102_bb'' =
     Inr (born_done ''tk_20260102_bb'' ''t3'' (Executed ''delete'' [(''matched'', PInt 1)] None))"
proof -
  obtain out b' where p: "process_batch sample_env ''t3'' sample_jobs sample_bstate = (out, b')" by fastforce
  have "good_tasks (batch_tasks ''t3'' sample_jobs (fst (execute_batch sample_env sample_jobs (b_w sample_bstate))))"
    by code_simp
  moreover have "tlog_ok (b_log sample_bstate)" using tlog_ok_Nil by (simp add: sample_bstate_def)
  ultimately have a: "\<forall>i < length sample_jobs. case fst (execute_batch sample_env sample_jobs (b_w sample_bstate)) ! i of
        Inl e \<Rightarrow> out ! i = Inl e
      | Inr ex \<Rightarrow> out ! i = Inr (born_done (j_id (sample_jobs ! i)) ''t3'' ex) \<and>
          task_status (b_log b') (j_id (sample_jobs ! i)) = Inr (born_done (j_id (sample_jobs ! i)) ''t3'' ex)"
    using batch_answers_jobs [OF _ _ p] by blast
  have "case fst (execute_batch sample_env sample_jobs (b_w sample_bstate)) ! 1 of
      Inr ex \<Rightarrow> ex = Executed ''delete'' [(''matched'', PInt 1)] None | _ \<Rightarrow> False" by code_simp
  moreover have "length sample_jobs = 2" "j_id (sample_jobs ! 1) = ''tk_20260102_bb''" by code_simp+
  ultimately show ?thesis using a [rule_format, of 1] p by (auto split: sum.splits)
qed

section \<open>A torn line\<close>

text \<open>After a crash of the machine that leaves half a line, the next record is written behind it on the same line and
  is lost with it.\<close>

lemma torn_line_swallows_next:
  "case append_line (take 7 (json_text json_char_raw (PDict [(''id'', PStr ''a'')]))) (PDict [(''id'', PStr ''b'')]) of
     Inr t \<Rightarrow> read_tolerant t = [] | Inl e \<Rightarrow> False"
  by code_simp

end
