(* ===== verification/Component_Props.thy ===== *)
theory Component_Props
  imports Errors_Wire Json_Roundtrip Task_Log File_Mirror Pipeline_Split Sample_Data
begin

text \<open>
  Properties of single components: the wire formats and text formats read back what was
  written, the schema parser accepts exactly the well-formed schemas, the logs keep their last
  line, the vectors of a batch belong to their records.
\<close>

section \<open>Formats\<close>



text \<open>A record whose last line was cut short is skipped on reading; every record before it is read.\<close>

lemma torn_tail_tolerated:
  assumes "clean_text txt" and "wf_json (PDict d)" and "0 < k" and "k < length (json_text json_char_raw (PDict d))"
  shows "read_tolerant (txt @ take k (json_text json_char_raw (PDict d))) = read_tolerant txt"
  using line_values_torn [OF assms] by (simp add: read_tolerant_def)

text \<open>An exception that crosses the wire arrives with the same class and message when it is one of
  seekbase's own, and as the base error otherwise; its status is one of the documented codes and is 500
  exactly for foreign exceptions.\<close>

lemma error_wire_roundtrip:
  "exception_from (error_body e) =
     Inr (Exn (if is_seekbase (exn_class e) then exn_class e else SeekbaseError) (exn_msg e)) \<and>
   status_for e \<in> {400, 403, 404, 500, 503} \<and> (status_for e = 500 \<longleftrightarrow> \<not> is_seekbase (exn_class e))"
  using exception_from_error_body status_for_range status_for_500_iff by blast

section \<open>Schemas\<close>

text \<open>C35: The parser yields exactly the well-formed schemas: tables and columns named once, no reserved
  column, known types, a key column of a key type, searchable columns of type str; and it reads the
  declaration of such a schema back as the schema.\<close>

theorem schema_parse_exact:
  "((\<exists>raw. parse_schema raw = Inr s) \<longleftrightarrow> wf_schema s) \<and>
   (wf_schema s \<longrightarrow> parse_schema (raw_schema s) = Inr s)"
  using parse_schema_wf parse_raw_schema by blast

theorem schema_parse_exact_witness:
  "parse_schema (raw_schema sample_schema) = Inr sample_schema"
  using schema_parse_exact [of sample_schema] sample_wf by blast

section \<open>Pipelines as text\<close>

text \<open>C40: Segments joined by bars are split back into themselves, when none is empty, padded, unclosed or
  holds a bar outside a literal.\<close>

theorem split_roundtrip:
  assumes "list_all clean_segment segs" and "segs \<noteq> []"
  shows "split_pipeline (join_with '' | '' segs) = Inr segs"
  by (rule split_written [OF assms])

theorem split_roundtrip_witness:
  "split_pipeline (join_with '' | '' [''scan docs'', ''select a || b from _in'']) = Inr [''scan docs'', ''select a || b from _in'']"
proof -
  have "list_all clean_segment [''scan docs'', ''select a || b from _in'']" by code_simp
  from split_roundtrip [OF this] show ?thesis by simp
qed

text \<open>Splitting loses and invents no placeholder, and every segment but the last is closed: the
  parameters of a pipeline can be handed to its segments in order.\<close>

lemma split_conserves:
  assumes "split_pipeline inp = Inr segs"
  shows "sum_list (map count_placeholders segs) = count_placeholders inp \<and> segs \<noteq> [] \<and>
     list_all closed_text (butlast segs) \<and> list_all (\<lambda>s. s \<noteq> [] \<and> py_strip s = s) segs"
  using split_pipeline_counts [OF assms] split_pipeline_segments [OF assms] by blast

section \<open>Embedding\<close>

text \<open>With an embedder that works text by text, the vectors and tokens of every searchable column are
  those of the record at the same position, and empty texts have none.\<close>

lemma embedding_aligned:
  assumes "pointwise em g"
  shows "\<exists>vs ks. embed_records em spec records = Inr (vs, ks) \<and>
     (\<forall>c. map_of vs c = (if c \<in> set (ts_searchable spec)
        then Some (map (\<lambda>rec. vec_of g (dict_get rec c)) records) else None)) \<and>
     (\<forall>c. map_of ks c = (if c \<in> set (ts_searchable spec)
        then Some (map (\<lambda>rec. tok_of em (dict_get rec c)) records) else None))"
  by (rule embed_records_pointwise [OF assms])

text \<open>The batched client returns the vectors of all texts in order when every batch is answered within
  the allowed attempts, transport errors and error statuses before the answer included.\<close>

lemma api_embed_batches:
  assumes "0 < n" and "\<And>b. b \<noteq> [] \<Longrightarrow> length b \<le> n \<Longrightarrow> set b \<subseteq> set ts \<Longrightarrow>
      \<exists>i < tries. post b i = Vectors (map g b) \<and> (\<forall>j < i. post b j \<in> {TransportError, HTTPStatusError})"
    and "\<And>t. t \<in> set ts \<Longrightarrow> length (g t) = d"
  shows "api_embed post d (int n) tries ts = Inr (map g ts)"
proof -
  have "embed_batch post d tries b = Inr (map g b)" if b: "b \<noteq> []" "length b \<le> n" "set b \<subseteq> set ts" for b
  proof -
    obtain i where i: "i < tries" "post b i = Vectors (map g b)" "\<forall>j < i. post b j \<in> {TransportError, HTTPStatusError}"
      using assms(2) [OF b] by blast
    have "list_all (\<lambda>v. length v = d) (map g b)" using assms(3) b(3) by (auto simp: list_all_iff)
    from embed_attempts_first [of i "post b" 0, OF _ _ i(1) this] i(2,3) show ?thesis
      by (simp add: embed_batch_def)
  qed
  then show ?thesis using assms(1) embed_chunks_map [of n ts "embed_batch post d tries" g] by (simp add: api_embed_def)
qed

section \<open>Logs\<close>

text \<open>After a task record is appended its id is answered with that record, and every other id as
  before: the last line of a task wins.\<close>

lemma task_log_last_wins:
  assumes "tlog_ok lg" and "task_ok t"
  shows "\<exists>lg'. task_append lg t = Inr lg' \<and> tlog_ok lg' \<and>
     (\<forall>i. task_status lg' i = (if t_id t = PStr i then Inr t else task_status lg i))"
proof -
  obtain lg' where a: "task_append lg t = Inr lg'" using task_append_total [OF assms(2)] by blast
  obtain i where "t_id t = PStr i" using assms(2) by (auto simp: task_ok_iff)
  with task_append_Inr(1) [OF assms a] task_status_append [OF assms a] a show ?thesis by blast
qed

end
