(* ===== verification/Task_Service.thy ===== *)
theory Task_Service
  imports Task_Log
begin

text \<open>
  The background runner of \<open>service/task_service.py\<close>: \<open>submit\<close> and \<open>adopt\<close> give birth to a
  record, \<open>_drive\<close> takes it from pending over running to done, failed or cancelled,
  \<open>_persist_result\<close> and \<open>result\<close> keep the rows of a query in a file, \<open>gc\<close> drops old files.

  \<open>_drive\<close> is a coroutine; \<open>drive_next\<close> moves it from one \<open>await\<close> to the next. A cancellation can
  arrive at every \<open>await\<close>; the job that was handed to the bridge thread may or may not have run
  by then, so a cancellation says whether its effect has landed. I/O errors of the log itself are
  not modelled.
\<close>

section \<open>State\<close>

record tstate =
  ts_log :: tlog
  ts_results :: "(string, string) dict"

definition TASK_TIMEOUT :: nat where "TASK_TIMEOUT = 300"
definition LOG_RETENTION_DAYS :: int where "LOG_RETENTION_DAYS = 30"
definition RESULT_RETENTION_DAYS :: int where "RESULT_RETENTION_DAYS = 7"

text \<open>Where the coroutine stands: not started (\<open>running=True\<close> when adopted), or at an \<open>await\<close>.\<close>

datatype pc =
    Fresh bool
  | Marking
  | Working
  | Persisting "pyval list"
  | Finishing task
  | Closing task
  | Ended

record drive =
  d_id :: string
  d_task :: task
  d_pc :: pc
  d_st :: tstate

section \<open>The records written\<close>

definition running_task :: "task \<Rightarrow> task" where
  "running_task t = t\<lparr>t_state := PStr ''running''\<rparr>"

definition done_rows :: "task \<Rightarrow> nat \<Rightarrow> string \<Rightarrow> task" where
  "done_rows t n at = t\<lparr>t_state := PStr ''done'', t_rows := PInt (int n), t_finished_at := PStr at\<rparr>"

definition done_stats :: "task \<Rightarrow> pyval \<Rightarrow> string \<Rightarrow> task" where
  "done_stats t v at = t\<lparr>t_state := PStr ''done'', t_stats := v, t_finished_at := PStr at\<rparr>"

definition cancelled_task :: "task \<Rightarrow> string \<Rightarrow> task" where
  "cancelled_task t at = t\<lparr>t_state := PStr ''cancelled'', t_finished_at := PStr at\<rparr>"

definition failed_task :: "task \<Rightarrow> string \<Rightarrow> string \<Rightarrow> task" where
  "failed_task t msg at = t\<lparr>t_state := PStr ''failed'', t_error := PStr msg, t_finished_at := PStr at\<rparr>"

definition timeout_text :: "nat \<Rightarrow> string" where
  "timeout_text tmo = ''exceeded max task runtime ('' @ show_nat tmo @ ''s)''"

definition exn_text :: "exn \<Rightarrow> string" where
  "exn_text e = take 500 (class_name (exn_class e) @ '': '' @ exn_msg e)"

section \<open>Result files\<close>

text \<open>One line per row, written to a temporary file that then replaces the result file.\<close>

definition result_text :: "pyval list \<Rightarrow> string" where
  "result_text rows = concat (map (\<lambda>r. json_text json_char_raw (json_default_str r) @ [newline]) rows)"

definition persist_result :: "string \<Rightarrow> pyval list \<Rightarrow> tstate \<Rightarrow> tstate" where
  "persist_result i rows st = st\<lparr>ts_results := dict_set (ts_results st) i (result_text rows)\<rparr>"

text \<open>\<open>result["rows"] if isinstance(result, dict) else result\<close>, then iterated and counted.\<close>

definition iterate :: "pyval \<Rightarrow> pyval list res" where
  "iterate v = (case v of
       PList xs \<Rightarrow> Inr xs
     | PStr s \<Rightarrow> Inr (map (\<lambda>c. PStr [c]) s)
     | PDict d \<Rightarrow> Inr (map (\<lambda>(k, _). PStr k) d)
     | _ \<Rightarrow> raise PyTypeError ''object is not iterable'')"

definition query_rows :: "pyval \<Rightarrow> pyval list res" where
  "query_rows v = (case v of
       PDict d \<Rightarrow> (case map_of d ''rows'' of None \<Rightarrow> raise PyKeyError ''rows'' | Some r \<Rightarrow> iterate r)
     | _ \<Rightarrow> iterate v)"

definition result_lines :: "string \<Rightarrow> pyval list res" where
  "result_lines s = mapR (\<lambda>l. case json_loads l of
       None \<Rightarrow> raise PyValueError ''JSONDecodeError'' | Some v \<Rightarrow> Inr v)
     (filter (\<lambda>l. py_strip l \<noteq> []) (py_lines s))"

definition task_result :: "tstate \<Rightarrow> string \<Rightarrow> pyval list res" where
  "task_result st i = bindR (task_status (ts_log st) i) (\<lambda>t.
     if t_state t \<in> {PStr ''pending'', PStr ''running''} then raise QueryError ''task is still running''
     else if t_state t = PStr ''cancelled'' then raise QueryError ''task was cancelled''
     else if t_state t = PStr ''failed'' then raise QueryError ''task failed''
     else if t_op t \<noteq> PStr ''query'' then raise QueryError ''task has no result rows''
     else (case map_of (ts_results st) i of
         None \<Rightarrow> raise QueryError ''task result expired (retention GC)''
       | Some s \<Rightarrow> result_lines s))"

section \<open>Birth\<close>

definition born :: "string \<Rightarrow> string \<Rightarrow> string \<Rightarrow> pyval \<Rightarrow> string \<Rightarrow> task" where
  "born i opn state query at =
     (mk_task i opn)\<lparr>t_state := PStr state, t_query := query, t_submitted_at := PStr at\<rparr>"

definition launch :: "bool \<Rightarrow> string \<Rightarrow> string \<Rightarrow> pyval \<Rightarrow> string \<Rightarrow> tstate \<Rightarrow> drive res" where
  "launch adopted i opn query at st =
     (let t = born i opn (if adopted then ''running'' else ''pending'') query at in
      bindR (task_append (ts_log st) t) (\<lambda>lg.
      Inr \<lparr>d_id = i, d_task = t, d_pc = Fresh adopted, d_st = st\<lparr>ts_log := lg\<rparr>\<rparr>))"

definition submit :: "string \<Rightarrow> string \<Rightarrow> pyval \<Rightarrow> string \<Rightarrow> tstate \<Rightarrow> drive res" where
  "submit = launch False"

definition adopt :: "string \<Rightarrow> string \<Rightarrow> pyval \<Rightarrow> string \<Rightarrow> tstate \<Rightarrow> drive res" where
  "adopt = launch True"

section \<open>The coroutine\<close>

text \<open>
  What happens to it: it goes on (\<open>Proceed\<close>, with what \<open>wait_for(coro)\<close> gave when that is what it
  waits for, and the clock), it is cancelled (with whether the job in flight has landed), or
  another task writes to the log and the results.
\<close>

datatype outcome = Returned pyval | TimedOut | Failed exn

datatype stimulus =
    Proceed outcome string
  | CancelIt bool string
  | Elsewhere task "pyval list"

definition drive_log :: "drive \<Rightarrow> tlog" where
  "drive_log d = ts_log (d_st d)"

definition with_log :: "drive \<Rightarrow> tlog \<Rightarrow> drive" where
  "with_log d lg = d\<lparr>d_st := (d_st d)\<lparr>ts_log := lg\<rparr>\<rparr>"

text \<open>An \<open>await self.append(t)\<close> that returns, or raises into the given handler.\<close>

definition appended :: "drive \<Rightarrow> task \<Rightarrow> pc \<Rightarrow> (exn \<Rightarrow> pc) \<Rightarrow> drive" where
  "appended d t next_pc handler = (case task_append (drive_log d) t of
       Inr lg \<Rightarrow> (with_log d lg)\<lparr>d_pc := next_pc\<rparr>
     | Inl e \<Rightarrow> d\<lparr>d_pc := handler e\<rparr>)"

definition maybe_appended :: "bool \<Rightarrow> drive \<Rightarrow> task \<Rightarrow> drive" where
  "maybe_appended landed d t = (case task_append (drive_log d) t of
       Inr lg \<Rightarrow> if landed then with_log d lg else d
     | Inl e \<Rightarrow> d)"

definition fail_with :: "drive \<Rightarrow> string \<Rightarrow> exn \<Rightarrow> pc" where
  "fail_with d at e = Closing (failed_task (d_task d) (exn_text e) at)"

definition work_done :: "nat \<Rightarrow> drive \<Rightarrow> outcome \<Rightarrow> string \<Rightarrow> pc" where
  "work_done tmo d w at = (case w of
       Returned v \<Rightarrow>
         if t_op (d_task d) = PStr ''query''
         then (case query_rows v of Inl e \<Rightarrow> fail_with d at e | Inr rows \<Rightarrow> Persisting rows)
         else Finishing (done_stats (d_task d) v at)
     | TimedOut \<Rightarrow> Closing (failed_task (d_task d) (timeout_text tmo) at)
     | Failed e \<Rightarrow> fail_with d at e)"

fun drive_next :: "nat \<Rightarrow> stimulus \<Rightarrow> drive \<Rightarrow> drive" where
  "drive_next tmo (Proceed w at) d = (case d_pc d of
       Fresh False \<Rightarrow> d\<lparr>d_task := running_task (d_task d), d_pc := Marking\<rparr>
     | Fresh True \<Rightarrow> d\<lparr>d_pc := Working\<rparr>
     | Marking \<Rightarrow> appended d (d_task d) Working (fail_with d at)
     | Working \<Rightarrow> d\<lparr>d_pc := work_done tmo d w at\<rparr>
     | Persisting rows \<Rightarrow> d\<lparr>d_st := persist_result (d_id d) rows (d_st d),
         d_pc := Finishing (done_rows (d_task d) (length rows) at)\<rparr>
     | Finishing t \<Rightarrow> appended d t Ended (fail_with d at)
     | Closing t \<Rightarrow> appended d t Ended (\<lambda>e. Ended)
     | Ended \<Rightarrow> d)"
| "drive_next tmo (CancelIt landed at) d =
     (let closing = Closing (cancelled_task (d_task d) at) in case d_pc d of
       Fresh r \<Rightarrow> d\<lparr>d_pc := Ended\<rparr>
     | Marking \<Rightarrow> (maybe_appended landed d (d_task d))\<lparr>d_pc := closing\<rparr>
     | Working \<Rightarrow> d\<lparr>d_pc := closing\<rparr>
     | Persisting rows \<Rightarrow>
         (if landed then d\<lparr>d_st := persist_result (d_id d) rows (d_st d)\<rparr> else d)\<lparr>d_pc := closing\<rparr>
     | Finishing t \<Rightarrow> (maybe_appended landed d t)\<lparr>d_pc := closing\<rparr>
     | Closing t \<Rightarrow> (maybe_appended landed d t)\<lparr>d_pc := Ended\<rparr>
     | Ended \<Rightarrow> d)"
| "drive_next tmo (Elsewhere t rows) d = (case t_id t of
       PStr j \<Rightarrow> if j = d_id d then d
         else (let d' = maybe_appended True d t in d'\<lparr>d_st := persist_result j rows (d_st d')\<rparr>)
     | _ \<Rightarrow> d)"

definition drive_run :: "nat \<Rightarrow> stimulus list \<Rightarrow> drive \<Rightarrow> drive" where
  "drive_run tmo ss d = foldl (\<lambda>d s. drive_next tmo s d) d ss"

text \<open>\<open>cancel\<close>: the live wrapper is cancelled and awaited (the handler's append runs), then the
  record is read.\<close>

definition cancel_task :: "nat \<Rightarrow> bool \<Rightarrow> string \<Rightarrow> drive \<Rightarrow> drive \<times> task res" where
  "cancel_task tmo landed at d =
     (let d' = drive_next tmo (Proceed TimedOut at) (drive_next tmo (CancelIt landed at) d)
      in (d', task_status (drive_log d') (d_id d')))"

section \<open>Retention\<close>

text \<open>\<open>gc\<close>: \<open>mt\<close> is the modification time of a file, in seconds.\<close>

definition gc :: "int \<Rightarrow> (string \<Rightarrow> int) \<Rightarrow> (string \<Rightarrow> int) \<Rightarrow> tstate \<Rightarrow> tstate" where
  "gc t mt_log mt_res st = st\<lparr>
     ts_log := filter (\<lambda>(k, _). \<not> mt_log k < t - LOG_RETENTION_DAYS * 86400) (ts_log st),
     ts_results := filter (\<lambda>(k, _). \<not> mt_res k < t - RESULT_RETENTION_DAYS * 86400) (ts_results st)\<rparr>"

end
