(* ===== verification/Task_Runs.thy ===== *)
theory Task_Runs
  imports Task_Service
begin

text \<open>
  Invariants of the background runner: what the log says of a task at every point of its
  coroutine, which changes of state are possible, and that a finished query has its rows.
\<close>

section \<open>Records that can be written\<close>

definition fields_ok :: "task \<Rightarrow> bool" where
  "fields_ok t \<longleftrightarrow> list_all wf_json [t_id t, t_op t, t_state t, t_error t, t_matched t, t_stats t, t_query t,
     t_rows t, t_submitted_at t, t_finished_at t]"

lemma fields_ok_wire: "fields_ok t \<Longrightarrow> wf_json (PDict (to_wire t))"
proof -
  assume "fields_ok t"
  moreover have "distinct (map fst (opt_fields t))" by (simp add: opt_fields_def)
  ultimately show ?thesis
    by (auto simp: fields_ok_def to_wire_def opt_fields_def)
qed

lemma fields_ok_updates [simp]:
  "fields_ok t \<Longrightarrow> fields_ok (running_task t)"
  "fields_ok t \<Longrightarrow> fields_ok (done_rows t n at)"
  "fields_ok t \<Longrightarrow> wf_json v \<Longrightarrow> fields_ok (done_stats t v at)"
  "fields_ok t \<Longrightarrow> fields_ok (cancelled_task t at)"
  "fields_ok t \<Longrightarrow> fields_ok (failed_task t m at)"
  "wf_json q \<Longrightarrow> fields_ok (born i opn st q at)"
  by (auto simp: fields_ok_def running_task_def done_rows_def done_stats_def cancelled_task_def failed_task_def
      born_def mk_task_def)

lemma record_updates [simp]:
  "t_id (running_task t) = t_id t" "t_id (done_rows t n at) = t_id t" "t_id (done_stats t v at) = t_id t"
  "t_id (cancelled_task t at) = t_id t" "t_id (failed_task t m at) = t_id t" "t_id (born i opn s q at) = PStr i"
  "t_op (running_task t) = t_op t" "t_op (done_rows t n at) = t_op t" "t_op (done_stats t v at) = t_op t"
  "t_op (cancelled_task t at) = t_op t" "t_op (failed_task t m at) = t_op t" "t_op (born i opn s q at) = PStr opn"
  "t_state (running_task t) = PStr ''running''" "t_state (done_rows t n at) = PStr ''done''"
  "t_state (done_stats t v at) = PStr ''done''" "t_state (cancelled_task t at) = PStr ''cancelled''"
  "t_state (failed_task t m at) = PStr ''failed''" "t_state (born i opn s q at) = PStr s"
  "t_rows (done_rows t n at) = PInt (int n)"
  by (simp_all add: running_task_def done_rows_def done_stats_def cancelled_task_def failed_task_def
      born_def mk_task_def)

definition id_ok :: "string \<Rightarrow> bool" where
  "id_ok i \<longleftrightarrow> i \<noteq> [] \<and> ds_of i \<noteq> None"

lemma fields_task_ok: "fields_ok t \<Longrightarrow> t_id t = PStr i \<Longrightarrow> id_ok i \<Longrightarrow> task_ok t"
  using fields_ok_wire by (simp add: task_ok_def id_ok_def del: wf_json.simps)

section \<open>Result files\<close>

definition rows_ok :: "pyval list \<Rightarrow> bool" where
  "rows_ok rows \<longleftrightarrow> list_all (\<lambda>r. wf_json (json_default_str r) \<and> (\<exists>d. r = PDict d)) rows"

lemma rows_ok_simps [simp]: "rows_ok []"
  "rows_ok (r # rows) \<longleftrightarrow> wf_json (json_default_str r) \<and> (\<exists>d. r = PDict d) \<and> rows_ok rows"
  by (simp_all add: rows_ok_def)

lemma py_lines_result: "rows_ok rows \<Longrightarrow> py_lines (result_text rows) = map (\<lambda>r. json_text json_char_raw (json_default_str r)) rows"
proof (induction rows)
  case Nil
  then show ?case by (simp add: result_text_def py_lines_def drop_last_empty_def)
next
  case (Cons r rows)
  let ?l = "json_text json_char_raw (json_default_str r)"
  have "wf_json (json_default_str r)" using Cons.prems by simp
  then have "py_lines (?l @ [newline]) = [?l]" by (intro py_lines_one printable_text)
  moreover have "clean_text (?l @ [newline])" using clean_append [of ?l "[]"] by simp
  ultimately show ?case
    using Cons py_lines_clean [of "?l @ [newline]" "result_text rows"] by (simp add: result_text_def)
qed

lemma result_lines_text:
  assumes "rows_ok rows"
  shows "result_lines (result_text rows) = Inr (map json_default_str rows)"
proof -
  have keep: "filter (\<lambda>l. py_strip l \<noteq> []) (map (\<lambda>r. json_text json_char_raw (json_default_str r)) rows) =
      map (\<lambda>r. json_text json_char_raw (json_default_str r)) rows"
    using assms
  proof (induction rows)
    case (Cons r rows)
    then obtain d where "r = PDict d" by auto
    then show ?case using Cons strip_object [of json_char_raw "map (\<lambda>(k, v). (k, json_default_str v)) d"] by simp
  qed simp
  have "mapR (\<lambda>l. case json_loads l of None \<Rightarrow> raise PyValueError ''JSONDecodeError'' | Some v \<Rightarrow> Inr v)
      (map (\<lambda>r. json_text json_char_raw (json_default_str r)) rows) = Inr (map json_default_str rows)"
    using assms by (induction rows) (simp_all add: json_loads_text [OF esc_ok_raw])
  then show ?thesis unfolding result_lines_def py_lines_result [OF assms] keep .
qed

section \<open>What the log says at each point\<close>

definition has_rows :: "drive \<Rightarrow> task \<Rightarrow> bool" where
  "has_rows d r \<longleftrightarrow> (t_op r = PStr ''query'' \<longrightarrow>
     (\<exists>rows. rows_ok rows \<and> map_of (ts_results (d_st d)) (d_id d) = Some (result_text rows) \<and> t_rows r = PInt (int (length rows))))"

fun pc_ok :: "drive \<Rightarrow> task \<Rightarrow> pc \<Rightarrow> bool" where
  "pc_ok d r (Fresh False) = (r = d_task d \<and> t_state r = PStr ''pending'')"
| "pc_ok d r (Fresh True) = (r = d_task d \<and> t_state r = PStr ''running'')"
| "pc_ok d r Marking = (t_state (d_task d) = PStr ''running'' \<and> t_state r = PStr ''pending'')"
| "pc_ok d r Working = (r = d_task d \<and> t_state r = PStr ''running'')"
| "pc_ok d r (Persisting rows) = (r = d_task d \<and> t_state r = PStr ''running'' \<and> rows_ok rows)"
| "pc_ok d r (Finishing t) = (r = d_task d \<and> t_state r = PStr ''running'' \<and> t_id t = PStr (d_id d) \<and>
     t_op t = t_op (d_task d) \<and> t_state t = PStr ''done'' \<and> has_rows d t \<and>
     (fields_ok t \<or> (\<exists>e. \<forall>lg. task_append lg t = Inl e)))"
| "pc_ok d r (Closing t) = (t_id t = PStr (d_id d) \<and> t_op t = t_op (d_task d) \<and>
     fields_ok t \<and>
     (t_state t = PStr ''failed'' \<and> t_state r = PStr ''running'' \<or>
      t_state t = PStr ''cancelled'' \<and> t_state r \<in> {PStr ''pending'', PStr ''running'', PStr ''done''}))"
| "pc_ok d r Ended = True"

definition drive_inv :: "drive \<Rightarrow> bool" where
  "drive_inv d \<longleftrightarrow> tlog_ok (drive_log d) \<and> id_ok (d_id d) \<and> t_id (d_task d) = PStr (d_id d) \<and> fields_ok (d_task d) \<and>
     (\<exists>r. task_status (drive_log d) (d_id d) = Inr r \<and> t_op r = t_op (d_task d) \<and> pc_ok d r (d_pc d) \<and>
        (t_state r = PStr ''done'' \<longrightarrow> has_rows d r))"

lemma pc_ok_cong:
  assumes "d_task d' = d_task d" and "d_id d' = d_id d" and "\<And>t. has_rows d' t = has_rows d t"
  shows "pc_ok d' r q = pc_ok d r q"
proof (cases q)
  case (Fresh b)
  then show ?thesis using assms by (cases b) simp_all
qed (use assms in simp_all)

text \<open>What comes in from outside: results that are rows or JSON (or that JSON refuses), records of
  other tasks.\<close>

definition stim_ok :: "task \<Rightarrow> stimulus \<Rightarrow> bool" where
  "stim_ok t s \<longleftrightarrow> (case s of
       Proceed (Returned v) at \<Rightarrow>
         if t_op t = PStr ''query'' then (\<forall>rows. query_rows v = Inr rows \<longrightarrow> rows_ok rows) else wf_json v \<or> \<not> json_ok v
     | Elsewhere u rows \<Rightarrow> task_ok u
     | _ \<Rightarrow> True)"

lemma drive_log_simps [simp]:
  "drive_log (with_log d lg) = lg" "drive_log (d\<lparr>d_pc := p\<rparr>) = drive_log d" "drive_log (d\<lparr>d_task := t\<rparr>) = drive_log d"
  "d_id (with_log d lg) = d_id d" "d_task (with_log d lg) = d_task d" "d_pc (with_log d lg) = d_pc d"
  "ts_results (d_st (with_log d lg)) = ts_results (d_st d)"
  "has_rows (with_log d lg) r = has_rows d r" "has_rows (d\<lparr>d_pc := p\<rparr>) r = has_rows d r"
  "has_rows (d\<lparr>d_task := t\<rparr>) r = has_rows d r"
  by (simp_all add: drive_log_def with_log_def has_rows_def)

lemma append_own:
  assumes "drive_inv d" and "fields_ok t" and "t_id t = PStr (d_id d)"
  obtains lg where "task_append (drive_log d) t = Inr lg" "tlog_ok lg" "task_status lg (d_id d) = Inr t"
proof -
  have ok: "task_ok t" "tlog_ok (drive_log d)"
    using assms fields_task_ok by (auto simp: drive_inv_def)
  obtain lg where lg: "task_append (drive_log d) t = Inr lg" using task_append_total [OF ok(1)] by blast
  show thesis
    using that [OF lg] task_append_Inr(1) [OF ok(2,1) lg assms(3)] task_status_append [OF ok(2,1) lg] assms(3) by simp
qed

lemma task_append_refused: "\<not> json_ok (t_stats t) \<Longrightarrow> t_stats t \<noteq> PNone \<Longrightarrow> t_id t = PStr i \<Longrightarrow>
    \<exists>e. \<forall>lg. task_append lg t = Inl e"
  by (auto simp: task_append_def log_append_def append_line_def json_line_def to_wire_def opt_fields_def)

section \<open>Preservation\<close>

text \<open>Moving on without writing: the record in the log stays.\<close>

lemma inv_move:
  assumes "drive_inv d" and "t_id t = PStr (d_id d)" and "fields_ok t" and "t_op t = t_op (d_task d)"
    and "\<And>r. task_status (drive_log d) (d_id d) = Inr r \<Longrightarrow> pc_ok d r (d_pc d) \<Longrightarrow> pc_ok (d\<lparr>d_task := t, d_pc := p\<rparr>) r p"
  shows "drive_inv (d\<lparr>d_task := t, d_pc := p\<rparr>)"
  using assms unfolding drive_inv_def by (auto simp: has_rows_def drive_log_def)

lemma inv_pc:
  assumes "drive_inv d"
    and "\<And>r. task_status (drive_log d) (d_id d) = Inr r \<Longrightarrow> pc_ok d r (d_pc d) \<Longrightarrow> t_op r = t_op (d_task d) \<Longrightarrow> pc_ok (d\<lparr>d_pc := p\<rparr>) r p"
  shows "drive_inv (d\<lparr>d_pc := p\<rparr>)"
  using assms unfolding drive_inv_def by (auto simp: has_rows_def drive_log_def)

text \<open>Writing the task's own record \<open>t\<close>.\<close>

lemma inv_write:
  assumes "drive_inv d" and "fields_ok t" and "t_id t = PStr (d_id d)" and "t_op t = t_op (d_task d)"
    and "task_append (drive_log d) t = Inr lg"
    and "pc_ok ((with_log d lg)\<lparr>d_pc := p\<rparr>) t p" and "t_state t = PStr ''done'' \<Longrightarrow> has_rows d t"
  shows "drive_inv ((with_log d lg)\<lparr>d_pc := p\<rparr>)"
proof -
  obtain lg' where "task_append (drive_log d) t = Inr lg'" "tlog_ok lg'" "task_status lg' (d_id d) = Inr t"
    by (rule append_own [OF assms(1-3)])
  with assms show ?thesis unfolding drive_inv_def by auto
qed

text \<open>A write of the own record that may not have landed, followed by the closing record.\<close>

lemma inv_maybe:
  assumes "drive_inv d" and "fields_ok t \<or> (\<exists>e. \<forall>lg. task_append lg t = Inl e)" and "t_id t = PStr (d_id d)" and "t_op t = t_op (d_task d)"
    and "t_state t = PStr ''done'' \<Longrightarrow> has_rows d t"
    and "\<And>d' r. d' \<in> {d\<lparr>d_pc := p\<rparr>, (maybe_appended landed d t)\<lparr>d_pc := p\<rparr>} \<Longrightarrow> r = t \<or> pc_ok d r (d_pc d) \<Longrightarrow> pc_ok d' r p"
  shows "drive_inv ((maybe_appended landed d t)\<lparr>d_pc := p\<rparr>)"
proof (cases "task_append (drive_log d) t")
  case (Inl e)
  then have "maybe_appended landed d t = d" by (simp add: maybe_appended_def)
  moreover have "drive_inv (d\<lparr>d_pc := p\<rparr>)" using assms(6) by (intro inv_pc [OF assms(1)]) blast
  ultimately show ?thesis by simp
next
  case (Inr lg)
  then have fo: "fields_ok t" using assms(2) by auto
  show ?thesis
  proof (cases landed)
    case True
    then have m: "maybe_appended landed d t = with_log d lg" using Inr by (simp add: maybe_appended_def)
    have "pc_ok ((with_log d lg)\<lparr>d_pc := p\<rparr>) t p" using assms(6) m by simp
    from inv_write [OF assms(1) fo assms(3,4) Inr this assms(5)] m show ?thesis by simp
  next
    case False
    then have "maybe_appended landed d t = d" using Inr by (simp add: maybe_appended_def)
    moreover have "drive_inv (d\<lparr>d_pc := p\<rparr>)" using assms(6) by (intro inv_pc [OF assms(1)]) blast
    ultimately show ?thesis by simp
  qed
qed

lemma inv_persist:
  assumes "drive_inv d" and "d_pc d = Persisting rows"
  shows "drive_inv (d\<lparr>d_st := persist_result (d_id d) rows (d_st d), d_pc := Finishing (done_rows (d_task d) (length rows) at)\<rparr>)"
    and "drive_inv (d\<lparr>d_st := persist_result (d_id d) rows (d_st d), d_pc := Closing (cancelled_task (d_task d) at)\<rparr>)"
  using assms by (auto simp: drive_inv_def drive_log_def persist_result_def has_rows_def dict_get_set)

lemma inv_elsewhere:
  assumes "drive_inv d" and "task_ok u" and "t_id u = PStr j" and "j \<noteq> d_id d"
  shows "drive_inv ((maybe_appended True d u)\<lparr>d_st := persist_result j rows (d_st (maybe_appended True d u))\<rparr>)"
proof -
  obtain lg where lg: "task_append (drive_log d) u = Inr lg" using task_append_total [OF assms(2)] by blast
  have ok: "tlog_ok (drive_log d)" using assms(1) by (simp add: drive_inv_def)
  have t: "tlog_ok lg" by (rule task_append_Inr(1) [OF ok assms(2) lg assms(3)])
  have st: "task_status lg (d_id d) = task_status (drive_log d) (d_id d)"
    using task_status_append [OF ok assms(2) lg] assms(3,4) by simp
  let ?d = "(with_log d lg)\<lparr>d_st := persist_result j rows (d_st (with_log d lg))\<rparr>"
  have h: "has_rows ?d r = has_rows d r" for r
    using assms(4) by (simp add: has_rows_def persist_result_def dict_get_set with_log_def)
  have same: "d_task ?d = d_task d" "d_id ?d = d_id d" by (simp_all add: with_log_def)
  have p: "pc_ok ?d r q = pc_ok d r q" for r q
    by (rule pc_ok_cong [OF same h])
  have l: "drive_log ?d = lg" by (simp add: drive_log_def persist_result_def with_log_def)
  have pc: "d_pc ?d = d_pc d" by (simp add: with_log_def)
  have "drive_inv ?d"
    unfolding drive_inv_def l same pc p h using assms(1) t st unfolding drive_inv_def by auto
  then show ?thesis by (simp add: maybe_appended_def lg)
qed

lemma work_done_ok:
  assumes "drive_inv d" and "d_pc d = Working" and "stim_ok (d_task d) (Proceed w at)"
  shows "drive_inv (d\<lparr>d_pc := work_done tmo d w at\<rparr>)"
proof (rule inv_pc [OF assms(1)])
  fix r assume r: "task_status (drive_log d) (d_id d) = Inr r" "pc_ok d r (d_pc d)" "t_op r = t_op (d_task d)"
  have f: "fields_ok (d_task d)" "t_id (d_task d) = PStr (d_id d)" using assms(1) by (simp_all add: drive_inv_def)
  show "pc_ok (d\<lparr>d_pc := work_done tmo d w at\<rparr>) r (work_done tmo d w at)"
  proof (cases w)
    case (Returned v)
    show ?thesis
    proof (cases "t_op (d_task d) = PStr ''query''")
      case True
      then show ?thesis using r f assms(2,3) Returned
        by (cases "query_rows v") (auto simp: work_done_def stim_ok_def fail_with_def)
    next
      case False
      have "fields_ok (done_stats (d_task d) v at) \<or> (\<exists>e. \<forall>lg. task_append lg (done_stats (d_task d) v at) = Inl e)"
      proof (cases "wf_json v")
        case False
        then have "\<not> json_ok v" using assms(3) Returned \<open>t_op (d_task d) \<noteq> PStr ''query''\<close> by (simp add: stim_ok_def)
        moreover have "v \<noteq> PNone" using calculation by auto
        ultimately show ?thesis
          using task_append_refused [of "done_stats (d_task d) v at"] f(2) by (auto simp: done_stats_def)
      qed (use f(1) in simp)
      then show ?thesis using False r f assms(2) Returned by (auto simp: work_done_def has_rows_def)
    qed
  qed (use r f assms(2) in \<open>auto simp: work_done_def fail_with_def\<close>)
qed

lemma appended_ok:
  assumes "drive_inv d" and "fields_ok t \<or> (\<exists>e. \<forall>lg. task_append lg t = Inl e)" and "t_id t = PStr (d_id d)" and "t_op t = t_op (d_task d)"
    and "t_state t = PStr ''done'' \<Longrightarrow> has_rows d t"
    and "\<And>lg. pc_ok ((with_log d lg)\<lparr>d_pc := p\<rparr>) t p"
    and "\<And>e r. pc_ok d r (d_pc d) \<Longrightarrow> pc_ok (d\<lparr>d_pc := handler e\<rparr>) r (handler e)"
  shows "drive_inv (appended d t p handler)"
proof (cases "task_append (drive_log d) t")
  case (Inl e)
  have "drive_inv (d\<lparr>d_pc := handler e\<rparr>)" using assms(7) by (intro inv_pc [OF assms(1)]) blast
  then show ?thesis by (simp add: appended_def Inl)
next
  case (Inr lg)
  then have "fields_ok t" using assms(2) by auto
  from inv_write [OF assms(1) this assms(3,4) Inr assms(6) assms(5)] show ?thesis by (simp add: appended_def Inr)
qed

lemma fail_with_ok:
  "drive_inv d \<Longrightarrow> t_state r = PStr ''running'' \<Longrightarrow> pc_ok (d\<lparr>d_pc := fail_with d at e\<rparr>) r (fail_with d at e)"
  by (simp add: fail_with_def drive_inv_def)

lemma proceed_inv:
  assumes inv: "drive_inv d" and stim: "stim_ok (d_task d) (Proceed w at)"
  shows "drive_inv (drive_next tmo (Proceed w at) d)"
proof -
  have f: "fields_ok (d_task d)" "t_id (d_task d) = PStr (d_id d)" using inv by (simp_all add: drive_inv_def)
  show ?thesis
  proof (cases "d_pc d")
    case (Fresh adopted)
    show ?thesis
    proof (cases adopted)
      case True
      have "drive_inv (d\<lparr>d_pc := Working\<rparr>)" by (rule inv_pc [OF inv]) (simp add: Fresh True)
      then show ?thesis by (simp add: Fresh True)
    next
      case False
      have "drive_inv (d\<lparr>d_task := running_task (d_task d), d_pc := Marking\<rparr>)"
        by (rule inv_move [OF inv]) (use f in \<open>simp_all add: Fresh False\<close>)
      then show ?thesis by (simp add: Fresh False)
    qed
  next
    case Marking
    obtain r where r: "pc_ok d r Marking" using inv Marking by (auto simp: drive_inv_def)
    obtain lg where lg: "task_append (drive_log d) (d_task d) = Inr lg" by (rule append_own [OF inv f])
    have "drive_inv ((with_log d lg)\<lparr>d_pc := Working\<rparr>)"
      by (rule inv_write [OF inv f(1,2) refl lg]) (use r in auto)
    then show ?thesis by (simp add: Marking appended_def lg)
  next
    case Working
    then show ?thesis using work_done_ok [OF inv Working stim] by simp
  next
    case (Persisting rows)
    then show ?thesis using inv_persist(1) [OF inv Persisting] by simp
  next
    case (Finishing t)
    obtain r where r: "pc_ok d r (Finishing t)" using inv Finishing by (auto simp: drive_inv_def)
    have "drive_inv (appended d t Ended (fail_with d at))"
      by (rule appended_ok [OF inv]) (use r fail_with_ok [OF inv] in \<open>auto simp: Finishing\<close>)
    then show ?thesis by (simp add: Finishing)
  next
    case (Closing t)
    obtain r where r: "pc_ok d r (Closing t)" using inv Closing by (auto simp: drive_inv_def)
    have "drive_inv (appended d t Ended (\<lambda>e. Ended))"
      by (rule appended_ok [OF inv]) (use r in auto)
    then show ?thesis by (simp add: Closing)
  next
    case Ended
    then show ?thesis using inv by simp
  qed
qed

lemma cancelled_ok:
  "drive_inv d \<Longrightarrow> t_state r \<in> {PStr ''pending'', PStr ''running'', PStr ''done''} \<Longrightarrow> d_id d' = d_id d \<Longrightarrow> d_task d' = d_task d \<Longrightarrow>
     pc_ok d' r (Closing (cancelled_task (d_task d) at))"
  by (simp add: drive_inv_def)

lemma maybe_appended_simps [simp]:
  "d_id (maybe_appended b d t) = d_id d" "d_task (maybe_appended b d t) = d_task d"
  by (auto simp: maybe_appended_def split: sum.splits)

lemma cancel_inv:
  assumes inv: "drive_inv d"
  shows "drive_inv (drive_next tmo (CancelIt landed at) d)"
proof -
  have f: "fields_ok (d_task d)" "t_id (d_task d) = PStr (d_id d)" using inv by (simp_all add: drive_inv_def)
  let ?c = "Closing (cancelled_task (d_task d) at)"
  show ?thesis
  proof (cases "d_pc d")
    case (Fresh adopted)
    have "drive_inv (d\<lparr>d_pc := Ended\<rparr>)" by (rule inv_pc [OF inv]) simp
    then show ?thesis by (simp add: Fresh)
  next
    case Marking
    obtain r where r: "pc_ok d r Marking" using inv Marking by (auto simp: drive_inv_def)
    have "drive_inv ((maybe_appended landed d (d_task d))\<lparr>d_pc := ?c\<rparr>)"
      by (rule inv_maybe [OF inv]) (use f r cancelled_ok [OF inv] in \<open>auto simp: Marking\<close>)
    then show ?thesis by (simp add: Marking)
  next
    case Working
    have "drive_inv (d\<lparr>d_pc := ?c\<rparr>)"
      by (rule inv_pc [OF inv]) (use cancelled_ok [OF inv] in \<open>auto simp: Working\<close>)
    then show ?thesis by (simp add: Working)
  next
    case (Persisting rows)
    have "drive_inv (d\<lparr>d_pc := ?c\<rparr>)"
      by (rule inv_pc [OF inv]) (use cancelled_ok [OF inv] in \<open>auto simp: Persisting\<close>)
    then show ?thesis using inv_persist(2) [OF inv Persisting] by (simp add: Persisting)
  next
    case (Finishing t)
    obtain r where r: "pc_ok d r (Finishing t)" using inv Finishing by (auto simp: drive_inv_def)
    have "drive_inv ((maybe_appended landed d t)\<lparr>d_pc := ?c\<rparr>)"
      by (rule inv_maybe [OF inv]) (use r f cancelled_ok [OF inv] in \<open>auto simp: Finishing\<close>)
    then show ?thesis by (simp add: Finishing)
  next
    case (Closing t)
    obtain r where r: "pc_ok d r (Closing t)" using inv Closing by (auto simp: drive_inv_def)
    have "drive_inv ((maybe_appended landed d t)\<lparr>d_pc := Ended\<rparr>)"
      by (rule inv_maybe [OF inv]) (use r in auto)
    then show ?thesis by (simp add: Closing)
  next
    case Ended
    then show ?thesis using inv by simp
  qed
qed

lemma drive_next_inv:
  assumes "drive_inv d" and "stim_ok (d_task d) s"
  shows "drive_inv (drive_next tmo s d)"
proof (cases s)
  case (Elsewhere u rows)
  then have u: "task_ok u" using assms(2) by (simp add: stim_ok_def)
  then obtain j where j: "t_id u = PStr j" by (auto simp: task_ok_iff)
  show ?thesis
    using inv_elsewhere [OF assms(1) u j] assms(1) by (simp add: Elsewhere j Let_def)
qed (use proceed_inv [OF assms(1)] cancel_inv [OF assms(1)] assms(2) in auto)

end
