(* ===== verification/Task_Props.thy ===== *)
theory Task_Props
  imports Task_Runs
begin

text \<open>
  The promises of a background task: a finished query has its rows, states only move forward,
  an undisturbed task settles, a cancelled one says so, and the one case where it does not.
\<close>

section \<open>Runs\<close>

lemma drive_run_simps [simp]:
  "drive_run tmo [] d = d"
  "drive_run tmo (s # ss) d = drive_run tmo ss (drive_next tmo s d)"
  by (simp_all add: drive_run_def)

lemma work_done_same [simp]: "d_task (d\<lparr>d_pc := p\<rparr>) = d_task d" "d_id (d\<lparr>d_pc := p\<rparr>) = d_id d"
  by simp_all

lemma drive_next_same: "t_op (d_task (drive_next tmo s d)) = t_op (d_task d)" "d_id (drive_next tmo s d) = d_id d"
proof -
  have a: "d_task (appended d t p handler) = d_task d" "d_id (appended d t p handler) = d_id d" for t p handler
    by (simp_all add: appended_def split: sum.splits)
  show "t_op (d_task (drive_next tmo s d)) = t_op (d_task d)" "d_id (drive_next tmo s d) = d_id d"
    by (cases s; auto simp: a Let_def split: pc.splits bool.splits pyval.splits)+
qed

lemma stim_ok_op: "t_op t = t_op t' \<Longrightarrow> stim_ok t s = stim_ok t' s"
  by (simp only: stim_ok_def)

lemma drive_run_inv:
  assumes "drive_inv d" and "list_all (stim_ok (d_task d)) ss"
  shows "drive_inv (drive_run tmo ss d)"
  using assms
proof (induction ss arbitrary: d)
  case (Cons s ss)
  have "stim_ok (d_task (drive_next tmo s d)) = stim_ok (d_task d)"
    using stim_ok_op [OF drive_next_same(1)] by blast
  then show ?case using Cons drive_next_inv by simp
qed simp

lemma drive_run_same: "t_op (d_task (drive_run tmo ss d)) = t_op (d_task d)" "d_id (drive_run tmo ss d) = d_id d"
  by (induction ss arbitrary: d) (simp_all add: drive_next_same)

lemma launch_inv:
  assumes "launch adopted i opn q at st = Inr d" and "tlog_ok (ts_log st)" and "id_ok i" and "wf_json q"
  shows "drive_inv d \<and> d_pc d = Fresh adopted \<and> d_id d = i \<and> t_op (d_task d) = PStr opn"
proof -
  let ?t = "born i opn (if adopted then ''running'' else ''pending'') q at"
  obtain lg where lg: "task_append (ts_log st) ?t = Inr lg"
    and d: "d = \<lparr>d_id = i, d_task = ?t, d_pc = Fresh adopted, d_st = st\<lparr>ts_log := lg\<rparr>\<rparr>"
    using assms(1) by (auto simp: launch_def Let_def bindR_Inr_iff)
  have f: "fields_ok ?t" using assms(4) by simp
  have ok: "task_ok ?t" by (rule fields_task_ok [OF f _ assms(3)]) simp
  have "tlog_ok lg" using task_append_Inr(1) [OF assms(2) ok lg] by simp
  moreover have "task_status lg i = Inr ?t" using task_status_append [OF assms(2) ok lg] by simp
  ultimately show ?thesis
    using assms(3) f by (cases adopted) (simp_all add: d drive_inv_def drive_log_def)
qed

text \<open>Whenever the log says that a query is done, its result is there: fetching it gives the rows that
  the query returned, as JSON, and as many as the record says; whatever cancellations, timeouts and
  writes of other tasks came in between.\<close>

lemma finished_query_has_rows:
  assumes "launch adopted i ''query'' q at st = Inr d0" and "tlog_ok (ts_log st)" and "id_ok i" and "wf_json q"
    and "list_all (stim_ok (d_task d0)) ss" and "d = drive_run tmo ss d0"
    and "task_status (drive_log d) i = Inr r" and "t_state r = PStr ''done''"
  shows "\<exists>rows. task_result (d_st d) i = Inr (map json_default_str rows) \<and> t_rows r = PInt (int (length rows))"
proof -
  note l = launch_inv [OF assms(1-4)]
  have inv: "drive_inv d" using drive_run_inv l assms(5,6) by simp
  have same: "d_id d = i" "t_op (d_task d) = PStr ''query''" using l by (simp_all add: assms(6) drive_run_same)
  have "t_op r = PStr ''query''" "has_rows d r" using inv same assms(7,8) by (auto simp: drive_inv_def)
  then obtain rows where rows: "rows_ok rows" "map_of (ts_results (d_st d)) i = Some (result_text rows)"
    "t_rows r = PInt (int (length rows))"
    using same by (auto simp: has_rows_def)
  then show ?thesis
    using assms(7,8) \<open>t_op r = PStr ''query''\<close> result_lines_text [OF rows(1)]
    by (auto simp: task_result_def drive_log_def)
qed

definition sample_drive :: "drive res" where
  "sample_drive = launch False ''tk_20260101_ab'' ''query'' (PStr ''select 1'') ''t0'' \<lparr>ts_log = [], ts_results = []\<rparr>"

definition sample_stimuli :: "stimulus list" where
  "sample_stimuli = (let go = Proceed (Returned (PDict [(''rows'', PList [PDict [(''a'', PInt 1)]])])) ''t1''
     in [go, go, Elsewhere (mk_task ''tk_20260101_zz'' ''insert'') [], go, go, go])"

lemma sample_launch: "\<exists>d. sample_drive = Inr d"
proof -
  have "case sample_drive of Inr d \<Rightarrow> True | _ \<Rightarrow> False" by code_simp
  then show ?thesis by (auto split: sum.splits)
qed

lemma sample_stim_ok:
  assumes "sample_drive = Inr d"
  shows "list_all (stim_ok (d_task d)) sample_stimuli"
proof -
  have o: "t_op (d_task d) = PStr ''query''"
    using assms by (auto simp: sample_drive_def launch_def Let_def bindR_Inr_iff)
  have t: "task_ok (mk_task ''tk_20260101_zz'' ''insert'')" by code_simp
  show ?thesis
    by (simp add: sample_stimuli_def Let_def stim_ok_def o t query_rows_def iterate_def)
qed

section \<open>States only move forward\<close>

definition STATE_EDGES :: "(string \<times> string) list" where
  "STATE_EDGES = [(''pending'', ''running''), (''pending'', ''cancelled''),
     (''running'', ''done''), (''running'', ''failed''), (''running'', ''cancelled''), (''done'', ''cancelled'')]"

lemma status_with_log:
  assumes "drive_inv d" and "task_append (drive_log d) t = Inr lg" and "fields_ok t" and "t_id t = PStr (d_id d)"
  shows "task_status lg (d_id d) = Inr t"
proof -
  obtain lg' where "task_append (drive_log d) t = Inr lg'" "task_status lg' (d_id d) = Inr t"
    by (rule append_own [OF assms(1,3,4)])
  then show ?thesis using assms(2) by simp
qed

text \<open>What one event does to the task's record.\<close>

definition status_moves :: "drive \<Rightarrow> drive \<Rightarrow> bool" where
  "status_moves d d' \<longleftrightarrow> (\<forall>r r'. task_status (drive_log d) (d_id d) = Inr r \<longrightarrow> task_status (drive_log d') (d_id d) = Inr r' \<longrightarrow>
     t_state r' = t_state r \<or> (\<exists>a b. t_state r = PStr a \<and> t_state r' = PStr b \<and> (a, b) \<in> set STATE_EDGES))"

lemma status_same: "drive_log d' = drive_log d \<Longrightarrow> status_moves d d'"
  by (simp add: status_moves_def)

lemma status_own:
  assumes "drive_inv d" and "fields_ok t \<or> (\<exists>e. \<forall>lg. task_append lg t = Inl e)" and "t_id t = PStr (d_id d)"
    and "drive_log d' = drive_log d \<or> task_append (drive_log d) t = Inr (drive_log d')"
    and "\<And>r. pc_ok d r (d_pc d) \<Longrightarrow> t_state t = t_state r \<or> (\<exists>a b. t_state r = PStr a \<and> t_state t = PStr b \<and> (a, b) \<in> set STATE_EDGES)"
  shows "status_moves d d'"
  using assms(4)
proof
  assume a: "task_append (drive_log d) t = Inr (drive_log d')"
  then have "fields_ok t" using assms(2) by auto
  note st = status_with_log [OF assms(1) a this assms(3)]
  obtain r where "task_status (drive_log d) (d_id d) = Inr r" "pc_ok d r (d_pc d)"
    using assms(1) by (auto simp: drive_inv_def)
  with assms(5) [OF this(2)] show ?thesis by (simp add: status_moves_def st)
qed (rule status_same)

lemma appended_log: "drive_log (appended d t p handler) = drive_log d \<or> task_append (drive_log d) t = Inr (drive_log (appended d t p handler))"
  by (auto simp: appended_def split: sum.splits)

lemma maybe_appended_log: "drive_log (maybe_appended b d t) = drive_log d \<or> task_append (drive_log d) t = Inr (drive_log (maybe_appended b d t))"
  by (auto simp: maybe_appended_def split: sum.splits)

lemma drive_next_moves:
  assumes inv: "drive_inv d" and "stim_ok (d_task d) s"
  shows "status_moves d (drive_next tmo s d)"
proof -
  have f: "fields_ok (d_task d)" "t_id (d_task d) = PStr (d_id d)" using inv by (simp_all add: drive_inv_def)
  obtain r where r: "pc_ok d r (d_pc d)" using inv by (auto simp: drive_inv_def)
  note own = status_own [OF inv]
  show ?thesis
  proof (cases s)
    case (Proceed w at)
    show ?thesis
    proof (cases "d_pc d")
      case (Fresh b)
      then show ?thesis by (cases b) (simp_all add: Proceed status_same)
    next
      case Marking
      show ?thesis
        by (rule own [where t = "d_task d"]) (use f appended_log in \<open>auto simp: Proceed Marking STATE_EDGES_def\<close>)
    next
      case (Finishing t)
      show ?thesis
        by (rule own [where t = t]) (use r appended_log in \<open>auto simp: Proceed Finishing STATE_EDGES_def\<close>)
    next
      case (Closing t)
      show ?thesis
        by (rule own [where t = t]) (use r appended_log in \<open>auto simp: Proceed Closing STATE_EDGES_def\<close>)
    next
      case (Persisting rows)
      show ?thesis by (rule status_same) (simp add: Proceed Persisting drive_log_def persist_result_def)
    qed (simp_all add: Proceed status_same)
  next
    case (CancelIt landed at)
    show ?thesis
    proof (cases "d_pc d")
      case Marking
      show ?thesis
        by (rule own [where t = "d_task d"]) (use f maybe_appended_log in \<open>auto simp: CancelIt Marking STATE_EDGES_def\<close>)
    next
      case (Finishing t)
      show ?thesis
        by (rule own [where t = t]) (use r maybe_appended_log in \<open>auto simp: CancelIt Finishing STATE_EDGES_def\<close>)
    next
      case (Closing t)
      show ?thesis
        by (rule own [where t = t]) (use r maybe_appended_log in \<open>auto simp: CancelIt Closing STATE_EDGES_def\<close>)
    next
      case (Persisting rows)
      show ?thesis
        by (rule status_same) (simp add: CancelIt Persisting drive_log_def persist_result_def Let_def)
    qed (simp_all add: CancelIt status_same)
  next
    case (Elsewhere u rows)
    then have u: "task_ok u" using assms(2) by (simp add: stim_ok_def)
    obtain j where j: "t_id u = PStr j" using u by (auto simp: task_ok_iff)
    obtain lg where lg: "task_append (drive_log d) u = Inr lg" using task_append_total [OF u] by blast
    have "tlog_ok (drive_log d)" using inv by (simp add: drive_inv_def)
    note st = task_status_append [OF this u lg, of "d_id d"]
    have "drive_log (drive_next tmo s d) = (if j = d_id d then drive_log d else lg)"
      by (simp add: Elsewhere j maybe_appended_def lg Let_def) (simp add: drive_log_def persist_result_def with_log_def)
    then show ?thesis using st j by (cases "j = d_id d") (auto simp: status_moves_def)
  qed
qed

text \<open>One event changes a task's recorded state only along pending, running, done, failed or cancelled:
  failed and cancelled are final, and done can only be followed by cancelled.\<close>

lemma task_states_move_forward:
  assumes "launch adopted i opn q at st = Inr d0" and "tlog_ok (ts_log st)" and "id_ok i" and "wf_json q"
    and "list_all (stim_ok (d_task d0)) (ss @ [s])" and "d = drive_run tmo ss d0"
    and "task_status (drive_log d) i = Inr r" and "task_status (drive_log (drive_next tmo s d)) i = Inr r'"
  shows "t_state r' = t_state r \<or> (\<exists>a b. t_state r = PStr a \<and> t_state r' = PStr b \<and> (a, b) \<in> set STATE_EDGES)"
proof -
  note l = launch_inv [OF assms(1-4)]
  have inv: "drive_inv d" using drive_run_inv l assms(5,6) by simp
  have "stim_ok (d_task d) s"
    using assms(5) stim_ok_op [of "d_task d" "d_task d0"] by (simp add: assms(6) drive_run_same)
  from drive_next_moves [OF inv this] have "status_moves d (drive_next tmo s d)" .
  moreover have "d_id d = i" using l by (simp add: assms(6) drive_run_same)
  ultimately show ?thesis using assms(7,8) by (auto simp: status_moves_def)
qed

section \<open>Settling\<close>

definition is_cancel :: "stimulus \<Rightarrow> bool" where
  "is_cancel s \<longleftrightarrow> (case s of CancelIt landed at \<Rightarrow> True | _ \<Rightarrow> False)"

definition is_proceed :: "stimulus \<Rightarrow> bool" where
  "is_proceed s \<longleftrightarrow> (case s of Proceed w at \<Rightarrow> True | _ \<Rightarrow> False)"

lemma stimulus_kinds [simp]:
  "is_cancel (CancelIt landed at)" "\<not> is_cancel (Proceed w at)" "\<not> is_cancel (Elsewhere u rows)"
  "is_proceed (Proceed w at)" "\<not> is_proceed (CancelIt landed at)" "\<not> is_proceed (Elsewhere u rows)"
  by (simp_all add: is_cancel_def is_proceed_def)

fun pc_rank :: "pc \<Rightarrow> nat" where
  "pc_rank (Fresh adopted) = (if adopted then 5 else 6)"
| "pc_rank Marking = 5"
| "pc_rank Working = 4"
| "pc_rank (Persisting rows) = 3"
| "pc_rank (Finishing t) = 2"
| "pc_rank (Closing t) = 1"
| "pc_rank Ended = 0"

lemma proceed_rank: "d_pc d \<noteq> Ended \<Longrightarrow> pc_rank (d_pc (drive_next tmo (Proceed w at) d)) < pc_rank (d_pc d)"
  by (cases "d_pc d") (auto simp: appended_def fail_with_def work_done_def split: bool.splits sum.splits outcome.splits)

lemma elsewhere_pc: "d_pc (drive_next tmo (Elsewhere u rows) d) = d_pc d"
  by (auto simp: Let_def maybe_appended_def split: pyval.splits sum.splits)

definition settling :: "drive \<Rightarrow> bool" where
  "settling d \<longleftrightarrow> (case d_pc d of
       Closing t \<Rightarrow> t_state t = PStr ''failed''
     | Ended \<Rightarrow> \<exists>r. task_status (drive_log d) (d_id d) = Inr r \<and> t_state r \<in> {PStr ''done'', PStr ''failed''}
     | _ \<Rightarrow> True)"

lemma append_own_pc:
  assumes "drive_inv d" and "fields_ok t" and "t_id t = PStr (d_id d)" and "t_state t \<in> {PStr ''done'', PStr ''failed''}"
  shows "settling (appended d t Ended handler)"
proof -
  obtain lg where "task_append (drive_log d) t = Inr lg" "task_status lg (d_id d) = Inr t"
    by (rule append_own [OF assms(1-3)])
  then show ?thesis using assms(4) by (auto simp: appended_def settling_def)
qed

lemma settling_next:
  assumes inv: "drive_inv d" and "stim_ok (d_task d) s" and "\<not> is_cancel s" and "settling d"
  shows "settling (drive_next tmo s d)"
proof (cases s)
  case (Proceed w at)
  obtain r where r: "pc_ok d r (d_pc d)" using inv by (auto simp: drive_inv_def)
  show ?thesis
  proof (cases "d_pc d")
    case (Fresh b)
    then show ?thesis by (cases b) (simp_all add: Proceed settling_def)
  next
    case Marking
    obtain lg where "task_append (drive_log d) (d_task d) = Inr lg"
      using append_own [OF inv, of "d_task d"] inv by (auto simp: drive_inv_def)
    then show ?thesis by (simp add: Proceed Marking appended_def settling_def)
  next
    case Working
    then show ?thesis
      by (auto simp: Proceed settling_def work_done_def fail_with_def split: outcome.splits sum.splits)
  next
    case (Persisting rows)
    then show ?thesis by (simp add: Proceed settling_def)
  next
    case (Finishing t)
    show ?thesis
    proof (cases "fields_ok t")
      case True
      then show ?thesis using append_own_pc [OF inv True] r by (simp add: Proceed Finishing)
    next
      case False
      then obtain e where "task_append (drive_log d) t = Inl e" using r Finishing by auto
      then show ?thesis by (simp add: Proceed Finishing appended_def settling_def fail_with_def)
    qed
  next
    case (Closing t)
    then have "t_state t = PStr ''failed''" using assms(4) by (simp add: settling_def)
    then show ?thesis using append_own_pc [OF inv, of t] r by (simp add: Proceed Closing)
  next
    case Ended
    then show ?thesis using assms(4) by (simp add: Proceed)
  qed
next
  case (Elsewhere u rows)
  have u: "task_ok u" using assms(2) by (simp add: Elsewhere stim_ok_def)
  obtain j where j: "t_id u = PStr j" using u by (auto simp: task_ok_iff)
  obtain lg where lg: "task_append (drive_log d) u = Inr lg" using task_append_total [OF u] by blast
  have "tlog_ok (drive_log d)" using inv by (simp add: drive_inv_def)
  note st = task_status_append [OF this u lg, of "d_id d"]
  have "drive_log (drive_next tmo s d) = (if j = d_id d then drive_log d else lg)"
    by (simp add: Elsewhere j maybe_appended_def lg Let_def) (simp add: drive_log_def persist_result_def with_log_def)
  then have "task_status (drive_log (drive_next tmo s d)) (d_id d) = task_status (drive_log d) (d_id d)"
    using st j by simp
  then show ?thesis
    using assms(4) elsewhere_pc [of tmo u rows d, folded Elsewhere] drive_next_same(2) [of tmo s d]
    by (cases "d_pc d") (simp_all add: settling_def del: drive_next.simps)
next
  case (CancelIt landed at)
  then show ?thesis using assms(3) by (simp add: is_cancel_def)
qed

lemma settled_run:
  assumes "drive_inv d" and "list_all (stim_ok (d_task d)) ss" and "list_all (\<lambda>s. \<not> is_cancel s) ss" and "settling d"
    and "pc_rank (d_pc d) \<le> length (filter is_proceed ss)"
  shows "settling (drive_run tmo ss d) \<and> d_pc (drive_run tmo ss d) = Ended"
  using assms
proof (induction ss arbitrary: d)
  case Nil
  then show ?case by (cases "d_pc d") (auto split: if_splits)
next
  case (Cons s ss)
  let ?d = "drive_next tmo s d"
  have inv: "drive_inv ?d" using drive_next_inv Cons.prems by simp
  have set: "settling ?d" using settling_next Cons.prems by simp
  have ok: "list_all (stim_ok (d_task ?d)) ss"
    using Cons.prems(2) stim_ok_op [OF drive_next_same(1), of tmo s d] by (simp add: list_all_iff)
  have "pc_rank (d_pc ?d) \<le> length (filter is_proceed ss)"
  proof (cases s)
    case (Proceed w at)
    show ?thesis
    proof (cases "d_pc d = Ended")
      case True
      then show ?thesis by (simp add: Proceed)
    next
      case False
      have "is_proceed s" by (simp add: Proceed is_proceed_def)
      then show ?thesis
        using proceed_rank [OF False, of tmo w at, folded Proceed] Cons.prems(5) by (simp del: drive_next.simps)
    qed
  next
    case (Elsewhere u rows)
    then show ?thesis
      using Cons.prems(5) elsewhere_pc [of tmo u rows d] by (simp del: drive_next.simps)
  qed (use Cons.prems(3) in simp)
  then show ?case using Cons.IH [OF inv ok _ set] Cons.prems(3) by simp
qed

text \<open>C25: A task that nobody cancels ends after at most six steps of its coroutine, whatever other tasks
  write meanwhile, and its record then says done or failed; results that are not JSON, exceptions and
  the timeout included.\<close>

theorem undisturbed_task_settles:
  assumes "launch adopted i opn q at st = Inr d0" and "tlog_ok (ts_log st)" and "id_ok i" and "wf_json q"
    and "list_all (stim_ok (d_task d0)) ss" and "list_all (\<lambda>s. \<not> is_cancel s) ss" and "6 \<le> length (filter is_proceed ss)"
  shows "\<exists>r. d_pc (drive_run tmo ss d0) = Ended \<and> task_status (drive_log (drive_run tmo ss d0)) i = Inr r \<and>
     t_state r \<in> {PStr ''done'', PStr ''failed''}"
proof -
  note l = launch_inv [OF assms(1-4)]
  have "settling d0" using l by (simp add: settling_def)
  moreover have "pc_rank (d_pc d0) \<le> length (filter is_proceed ss)" using l assms(7) by (simp add: le_trans)
  ultimately have "settling (drive_run tmo ss d0) \<and> d_pc (drive_run tmo ss d0) = Ended"
    using settled_run l assms(5,6) by blast
  moreover have "d_id (drive_run tmo ss d0) = i" using l by (simp add: drive_run_same)
  ultimately show ?thesis by (auto simp: settling_def)
qed

theorem undisturbed_task_settles_witness:
  "\<exists>d r. sample_drive = Inr d \<and>
     task_status (drive_log (drive_run 300 (replicate 6 (Proceed TimedOut ''t2'')) d)) ''tk_20260101_ab'' = Inr r \<and>
     t_state r \<in> {PStr ''done'', PStr ''failed''}"
proof -
  obtain d where d: "sample_drive = Inr d" using sample_launch by blast
  have i: "id_ok ''tk_20260101_ab''" by code_simp
  let ?ss = "replicate 6 (Proceed TimedOut ''t2'')"
  have "list_all (stim_ok (d_task d)) ?ss" by (simp add: list_all_iff stim_ok_def)
  moreover have "list_all (\<lambda>s. \<not> is_cancel s) ?ss" by (simp add: list_all_iff is_cancel_def)
  moreover have "6 \<le> length (filter is_proceed ?ss)" by (simp add: is_proceed_def)
  ultimately show ?thesis
    using undisturbed_task_settles [OF d [unfolded sample_drive_def] _ i _, of ?ss 300] tlog_ok_Nil d by auto
qed



text \<open>C27: A task cancelled before its coroutine took its first step is never recorded as cancelled: the
  cancel call returns its record as it was born, pending or running, and no later event changes it.\<close>

theorem cancel_before_start_is_lost:
  assumes "launch adopted i opn q at st = Inr d0" and "tlog_ok (ts_log st)" and "id_ok i" and "wf_json q"
    and "list_all is_proceed ss"
  shows "\<exists>d' r. cancel_task tmo landed now d0 = (d', Inr r) \<and>
     t_state r = PStr (if adopted then ''running'' else ''pending'') \<and> drive_run tmo ss d' = d'"
proof -
  note l = launch_inv [OF assms(1-4)]
  have "cancel_task tmo landed now d0 = (d0\<lparr>d_pc := Ended\<rparr>, task_status (drive_log d0) (d_id d0))"
    using l by (simp add: cancel_task_def)
  moreover obtain r where "task_status (drive_log d0) (d_id d0) = Inr r" "pc_ok d0 r (Fresh adopted)"
    using l by (auto simp: drive_inv_def)
  moreover have "drive_run tmo ss (d0\<lparr>d_pc := Ended\<rparr>) = d0\<lparr>d_pc := Ended\<rparr>"
    using assms(5) by (induction ss) (auto simp: is_proceed_def split: stimulus.splits)
  ultimately show ?thesis by (cases adopted) auto
qed

theorem cancel_before_start_is_lost_witness:
  "\<exists>d d' r. sample_drive = Inr d \<and> cancel_task 300 True ''t4'' d = (d', Inr r) \<and> t_state r = PStr ''pending''"
proof -
  obtain d where d: "sample_drive = Inr d" using sample_launch by blast
  have i: "id_ok ''tk_20260101_ab''" by code_simp
  have "list_all is_proceed []" by simp
  from cancel_before_start_is_lost [OF d [unfolded sample_drive_def] _ i _ this, of 300 True "''t4''"] tlog_ok_Nil d
  show ?thesis by auto
qed

end
