(* ===== verification/Bytes_Text.thy ===== *)
theory Bytes_Text
  imports Jsonl
begin

text \<open>
  Bytes at the seams of a pipeline: \<open>_rows_to_jsonl\<close> and \<open>_jsonl_to_rows\<close> of
  \<open>service/store_service.py\<close>, which also read what a stream collected. A byte is a \<open>char\<close>, and so
  is a code point of a text (the model's texts have code points below 256); \<open>utf8_encode\<close> and
  \<open>utf8_decode\<close> go between the two, and bytes that encode a larger code point are refused as
  malformed ones are.
\<close>

section \<open>UTF-8\<close>

definition utf8_char :: "char \<Rightarrow> string" where
  "utf8_char c = (if ord c < 128 then [c]
     else [char_of (192 + ord c div 64), char_of (128 + ord c mod 64)])"

definition utf8_encode :: "string \<Rightarrow> string" where
  "utf8_encode s = concat (map utf8_char s)"

fun utf8_decode :: "string \<Rightarrow> string option" where
  "utf8_decode [] = Some []"
| "utf8_decode (c # cs) =
     (if ord c < 128 then map_option ((#) c) (utf8_decode cs)
      else if ord c = 194 \<or> ord c = 195 then
        (case cs of
           [] \<Rightarrow> None
         | d # ds \<Rightarrow> if 128 \<le> ord d \<and> ord d < 192
             then map_option ((#) (char_of ((ord c - 192) * 64 + (ord d - 128)))) (utf8_decode ds) else None)
      else None)"

section \<open>Lines of bytes\<close>

definition is_bspace :: "char \<Rightarrow> bool" where
  "is_bspace c \<longleftrightarrow> (9 \<le> ord c \<and> ord c \<le> 13) \<or> ord c = 32"

definition byte_strip :: "string \<Rightarrow> string" where
  "byte_strip = strip_by is_bspace"

text \<open>\<open>bytes.splitlines\<close>: every line with its end, which is \<open>\n\<close>, \<open>\r\n\<close>, \<open>\r\<close> or nothing.\<close>

fun bsplit :: "string \<Rightarrow> string \<Rightarrow> (string \<times> string) list" where
  "bsplit acc [] = (if acc = [] then [] else [(acc, [])])"
| "bsplit acc (c # cs) =
     (if c = newline then (acc, [c]) # bsplit [] cs
      else if c = CHR 0x0D then
        (case cs of
           [] \<Rightarrow> [(acc, [c])]
         | d # ds \<Rightarrow> if d = newline then (acc, [c, d]) # bsplit [] ds else (acc, [c]) # bsplit [] cs)
      else bsplit (acc @ [c]) cs)"

definition byte_lines :: "string \<Rightarrow> string list" where
  "byte_lines s = map fst (bsplit [] s)"

definition byte_lines_keep :: "string \<Rightarrow> string list" where
  "byte_lines_keep s = map (\<lambda>(l, e). l @ e) (bsplit [] s)"

section \<open>Rows\<close>

definition rows_to_jsonl :: "pyval list \<Rightarrow> string" where
  "rows_to_jsonl rows = concat (map (\<lambda>r. utf8_encode (json_text json_char_raw (json_default_str r)) @ [newline]) rows)"

definition json_loads_bytes :: "string \<Rightarrow> pyval option" where
  "json_loads_bytes b = (case utf8_decode b of None \<Rightarrow> None | Some s \<Rightarrow> json_loads s)"

definition row_of_line :: "string \<Rightarrow> pyrow res" where
  "row_of_line line = (case json_loads_bytes line of
       None \<Rightarrow> raise QueryError ''bash stage output is not valid JSONL''
     | Some (PDict d) \<Rightarrow> Inr d
     | Some _ \<Rightarrow> raise QueryError ''bash stage output lines must be JSON objects'')"

definition jsonl_to_rows :: "string \<Rightarrow> pyrow list res" where
  "jsonl_to_rows b = mapR row_of_line (filter (\<lambda>l. l \<noteq> []) (map byte_strip (byte_lines b)))"

section \<open>Facts\<close>

lemma ord_bound: "ord c < 256"
  by (simp add: ord_def)

lemma utf8_decode_char: "utf8_decode (utf8_char c @ s) = map_option ((#) c) (utf8_decode s)"
proof (cases "ord c < 128")
  case False
  have b: "ord c < 256" by (rule ord_bound)
  have "2 \<le> ord c div 64" using False by (simp add: div_le_mono [of 128 "ord c" 64, simplified])
  moreover have "ord c div 64 < 4" using b by (simp add: less_mult_imp_div_less)
  ultimately have h: "ord c div 64 \<in> {2, 3}" by auto
  have e: "(192 + ord c div 64 - 192) * 64 + (128 + ord c mod 64 - 128) = ord c" by simp
  have o1: "ord (char_of (192 + ord c div 64)) = 192 + ord c div 64" using h by (intro ord_char_of) auto
  have o2: "ord (char_of (128 + ord c mod 64)) = 128 + ord c mod 64"
    by (intro ord_char_of) (use mod_less_divisor [of 64 "ord c"] in linarith)
  have c: "char_of (ord c) = c" by (simp add: ord_def)
  show ?thesis
    using False h e c by (auto simp: utf8_char_def o1 o2)
qed (simp add: utf8_char_def)

lemma utf8_roundtrip: "utf8_decode (utf8_encode s) = Some s"
  by (induction s) (simp_all add: utf8_encode_def utf8_decode_char)

text \<open>Text without control characters keeps its lines under encoding.\<close>

lemma utf8_no_nl: "printable s \<Longrightarrow> newline \<notin> set (utf8_encode s) \<and> CHR 0x0D \<notin> set (utf8_encode s)"
proof (induction s)
  case (Cons c s)
  have "32 \<le> ord d" if "d \<in> set (utf8_char c)" for d
  proof (cases "ord c < 128")
    case True
    then show ?thesis using that Cons.prems by (simp add: utf8_char_def)
  next
    case False
    have "ord c div 64 < 4" using ord_bound [of c] by (simp add: less_mult_imp_div_less)
    moreover have "ord c mod 64 < 64" by simp
    ultimately show ?thesis using that False by (auto simp: utf8_char_def ord_char_of)
  qed
  then have "newline \<notin> set (utf8_char c)" "CHR 0x0D \<notin> set (utf8_char c)"
    using ord_newline by force+
  then show ?case using Cons by (simp add: utf8_encode_def)
qed (simp add: utf8_encode_def)

lemma bsplit_line: "newline \<notin> set l \<Longrightarrow> CHR 0x0D \<notin> set l \<Longrightarrow> bsplit acc (l @ newline # s) = (acc @ l, [newline]) # bsplit [] s"
  by (induction l arbitrary: acc) auto

lemma bsplit_concat: "concat (map (\<lambda>(l, e). l @ e) (bsplit acc s)) = acc @ s"
proof (induction acc s rule: bsplit.induct)
  case (2 acc c cs)
  then show ?case by (cases cs) auto
qed auto

lemma byte_lines_keep_concat: "concat (byte_lines_keep s) = s"
  using bsplit_concat [of "[]" s] by (simp add: byte_lines_keep_def)

lemma utf8_encode_ends:
  "utf8_encode (CHR ''{'' # u @ [CHR ''}'']) = CHR ''{'' # utf8_encode u @ [CHR ''}'']"
  by (simp add: utf8_encode_def utf8_char_def ord_def)

lemma byte_strip_object: "byte_strip (CHR ''{'' # u @ [CHR ''}'']) = CHR ''{'' # u @ [CHR ''}'']"
proof -
  have "\<not> is_bspace (CHR ''{'')" "\<not> is_bspace (CHR ''}'')" by (simp_all add: is_bspace_def ord_def)
  then show ?thesis unfolding byte_strip_def by (intro strip_by_id) simp
qed

lemma row_of_written:
  assumes "wf_json (PDict d)"
  shows "row_of_line (byte_strip (utf8_encode (json_text json_char_raw (PDict d)))) = Inr d"
    and "byte_strip (utf8_encode (json_text json_char_raw (PDict d))) \<noteq> []"
proof -
  obtain u where u: "json_text json_char_raw (PDict d) = CHR ''{'' # u @ [CHR ''}'']" using object_text_ends by blast
  have "byte_strip (utf8_encode (json_text json_char_raw (PDict d))) = utf8_encode (json_text json_char_raw (PDict d))"
    unfolding u utf8_encode_ends by (rule byte_strip_object)
  moreover have "json_loads_bytes (utf8_encode (json_text json_char_raw (PDict d))) = Some (PDict d)"
    by (simp add: json_loads_bytes_def utf8_roundtrip json_loads_text [OF esc_ok_raw assms] del: json_text.simps)
  moreover have "utf8_encode (json_text json_char_raw (PDict d)) \<noteq> []" unfolding u utf8_encode_ends by simp
  ultimately show "row_of_line (byte_strip (utf8_encode (json_text json_char_raw (PDict d)))) = Inr d"
    and "byte_strip (utf8_encode (json_text json_char_raw (PDict d))) \<noteq> []"
    by (simp_all add: row_of_line_def del: json_text.simps)
qed

end
