(* ===== verification/Stream_Service.thy ===== *)
theory Stream_Service
  imports Bytes_Text Pipeline_Compile Write_Service
begin

text \<open>
  \<open>service/stream_service.py\<close>: the compilation of \<open>watch | \<dots> | ingest\<close>, the reader that follows
  files past their checkpointed offsets, and the loop that lands a micro-batch and only then
  commits the offsets. The files are what a poll sees: the sorted matches of the pattern with
  their bytes, \<open>None\<close> for a file that cannot be opened. The subprocess chain of the middles is a
  parameter.
\<close>

section \<open>Compilation\<close>

definition stream_segment :: "policy \<Rightarrow> registry \<Rightarrow> string \<Rightarrow> (operator \<times> op_args) res" where
  "stream_segment pol reg seg = (case classify reg seg of
       None \<Rightarrow> raise QueryError ''a stream pipeline holds only operators''
     | Some (op, rest) \<Rightarrow>
         bindR (policy_check pol op) (\<lambda>_.
         bindR (split_args rest) (\<lambda>ts.
         bindR (op_parse_args op ts) (\<lambda>args. Inr (op, args)))))"

definition ingest_table :: "op_args \<Rightarrow> string res" where
  "ingest_table args = (case args of AIngest t b f \<Rightarrow> Inr t | _ \<Rightarrow> raise PyAttributeError ''table'')"

definition stream_middle :: "operator \<times> op_args \<Rightarrow> string list res" where
  "stream_middle = (\<lambda>(op, args). if \<not> op_has_bash op then raise QueryError ''stream middles must be bash-native''
     else op_bash op args)"

definition stream_compile :: "policy \<Rightarrow> registry \<Rightarrow> schema \<Rightarrow> string \<Rightarrow> (op_args \<times> string list list \<times> op_args) res" where
  "stream_compile pol reg sch pipeline =
     bindR (split_pipeline pipeline) (\<lambda>segments.
     if length segments < 2 then raise QueryError ''a stream needs at least watch and ingest''
     else
       bindR (mapR (stream_segment pol reg) segments) (\<lambda>parsed.
       if op_bounded (fst (hd parsed)) then raise QueryError ''a stream's source must be unbounded''
       else if op_name (fst (last parsed)) \<noteq> ''ingest'' then raise QueryError ''a stream must end in ingest''
       else
         bindR (ingest_table (snd (last parsed))) (\<lambda>table.
         bindR (schema_table sch table) (\<lambda>_.
         bindR (mapR stream_middle (butlast (tl parsed))) (\<lambda>middles.
         Inr (snd (hd parsed), middles, snd (last parsed)))))))"

section \<open>Reading new lines\<close>

type_synonym files = "(string \<times> string option) list"

fun take_lines :: "nat \<Rightarrow> string list \<Rightarrow> nat \<Rightarrow> string list \<Rightarrow> string list \<times> nat" where
  "take_lines mx ls pos [] = (ls, pos)"
| "take_lines mx ls pos (raw # rest) =
     (if raw = [] \<or> last raw \<noteq> newline \<or> mx \<le> length ls then (ls, pos)
      else take_lines mx (if byte_strip raw \<noteq> [] then ls @ [raw] else ls) (pos + length raw) rest)"

definition start_of :: "(string, nat) dict \<Rightarrow> string \<Rightarrow> nat" where
  "start_of offsets path = (case map_of offsets path of None \<Rightarrow> 0 | Some n \<Rightarrow> n)"

fun read_new_lines ::
    "nat \<Rightarrow> (string, nat) dict \<Rightarrow> string list \<Rightarrow> (string, nat) dict \<Rightarrow> files \<Rightarrow> string list \<times> (string, nat) dict" where
  "read_new_lines mx offsets ls new [] = (ls, new)"
| "read_new_lines mx offsets ls new ((path, content) # rest) =
     (if mx \<le> length ls then (ls, new)
      else (case content of
          None \<Rightarrow> read_new_lines mx offsets ls new rest
        | Some bytes \<Rightarrow>
            (let start = start_of offsets path;
                 (ls', pos) = take_lines mx ls start (byte_lines_keep (drop start bytes))
             in read_new_lines mx offsets ls' (if start < pos then dict_set new path pos else new) rest)))"

section \<open>Landing\<close>

text \<open>
  \<open>_land\<close>: the micro-batch through the chain of the middles, as rows, into the write service (here
  the only job of its batch).
\<close>

record stream_env =
  se_env :: wenv
  se_chain :: "string list list \<Rightarrow> string \<Rightarrow> string res"

definition insert_job :: "string \<Rightarrow> pyrow list \<Rightarrow> string \<Rightarrow> string \<Rightarrow> string \<Rightarrow> job" where
  "insert_job table rows ds ts i = \<lparr>j_op = OpInsert table rows True, j_ds = ds, j_ts = ts, j_id = i\<rparr>"

definition write_insert :: "wenv \<Rightarrow> string \<Rightarrow> pyrow list \<Rightarrow> string \<Rightarrow> string \<Rightarrow> string \<Rightarrow> (bstate, exn, task) sm" where
  "write_insert ev table rows ds ts i b =
     (let (out, b') = process_batch ev ts [insert_job table rows ds ts i] b in (hd out, b'))"

definition land ::
    "stream_env \<Rightarrow> string list list \<Rightarrow> string \<Rightarrow> string list \<Rightarrow> string \<Rightarrow> string \<Rightarrow> string \<Rightarrow> (bstate, exn, nat) sm" where
  "land se middles table ls ds ts i =
     bindM (liftM (if middles = [] then Inr (concat ls) else se_chain se middles (concat ls))) (\<lambda>bytes.
     bindM (liftM (jsonl_to_rows bytes)) (\<lambda>rows.
     if rows = [] then returnM 0
     else bindM (write_insert (se_env se) table rows ds ts i) (\<lambda>_. returnM (length rows))))"

section \<open>Checkpoints\<close>

text \<open>
  The text of a checkpoint file and what \<open>_run\<close> makes of one: no file and a text that is no JSON count
  as no offsets, other shapes raise. Offsets are the lengths that \<open>_checkpoint\<close> writes; a negative or a
  fractional number in the file is outside the model.
\<close>

definition ckpt_value :: "(string, nat) dict \<Rightarrow> pyval" where
  "ckpt_value offsets = PDict (map (\<lambda>(p, n). (p, PInt (int n))) offsets)"

definition ckpt_text :: "(string, nat) dict \<Rightarrow> string" where
  "ckpt_text offsets = json_text json_char (ckpt_value offsets)"

definition offset_value :: "pyval \<Rightarrow> nat res" where
  "offset_value v = (case v of
       PInt i \<Rightarrow> Inr (nat i)
     | PBool b \<Rightarrow> Inr (if b then 1 else 0)
     | PStr s \<Rightarrow> (case py_int s of None \<Rightarrow> raise PyValueError ''invalid literal for int()'' | Some i \<Rightarrow> Inr (nat i))
     | _ \<Rightarrow> raise PyTypeError ''int() argument'')"

definition parse_ckpt :: "string \<Rightarrow> (string, nat) dict res" where
  "parse_ckpt txt = (case json_loads txt of
       None \<Rightarrow> raise PyValueError ''JSONDecodeError''
     | Some (PDict d) \<Rightarrow> mapR (\<lambda>(k, v). bindR (offset_value v) (\<lambda>n. Inr (k, n))) d
     | Some v \<Rightarrow> raise PyAttributeError ''items'')"

definition load_offsets :: "string option \<Rightarrow> (string, nat) dict res" where
  "load_offsets ckpt = (case ckpt of
       None \<Rightarrow> Inr []
     | Some txt \<Rightarrow> (case parse_ckpt txt of
           Inl e \<Rightarrow> if exn_class e \<in> {PyValueError, OSErr} then Inr [] else Inl e
         | Inr d \<Rightarrow> Inr d))"

section \<open>The loop\<close>

text \<open>
  One stream: its memory (the offsets), its checkpoint file and the database. \<open>begin_stream\<close> is the
  head of \<open>_run\<close>. \<open>poll\<close> is one turn of the loop, which is also the last sweep of a graceful stop. An
  exception ends the stream with its offsets uncommitted. \<open>crash_poll\<close> is a process that dies after
  landing and before the checkpoint.
\<close>

record stream =
  st_offsets :: "(string, nat) dict"
  st_ckpt :: "string option"
  st_b :: bstate

definition begin_stream :: "(stream, exn, unit) sm" where
  "begin_stream s = (case load_offsets (st_ckpt s) of
       Inl e \<Rightarrow> (Inl e, s) | Inr off \<Rightarrow> (Inr (), s\<lparr>st_offsets := off\<rparr>))"

definition update_offsets :: "(string, nat) dict \<Rightarrow> (string, nat) dict \<Rightarrow> (string, nat) dict" where
  "update_offsets offsets new = foldl (\<lambda>d (k, v). dict_set d k v) offsets new"

definition poll ::
    "stream_env \<Rightarrow> string list list \<Rightarrow> string \<Rightarrow> nat \<Rightarrow> files \<Rightarrow> string \<Rightarrow> string \<Rightarrow> string \<Rightarrow> (stream, exn, unit) sm" where
  "poll se middles table mx fs ds ts i s =
     (let (ls, new) = read_new_lines mx (st_offsets s) [] [] fs in
      if ls = [] then (Inr (), s)
      else (case land se middles table ls ds ts i (st_b s) of
          (Inl e, b) \<Rightarrow> (Inl e, s\<lparr>st_b := b\<rparr>)
        | (Inr n, b) \<Rightarrow>
            (let off = update_offsets (st_offsets s) new
             in (Inr (), s\<lparr>st_offsets := off, st_ckpt := Some (ckpt_text off), st_b := b\<rparr>))))"

definition crash_poll ::
    "stream_env \<Rightarrow> string list list \<Rightarrow> string \<Rightarrow> nat \<Rightarrow> files \<Rightarrow> string \<Rightarrow> string \<Rightarrow> string \<Rightarrow> stream \<Rightarrow> stream" where
  "crash_poll se middles table mx fs ds ts i s =
     (let (ls, new) = read_new_lines mx (st_offsets s) [] [] fs in
      if ls = [] then s else s\<lparr>st_b := snd (land se middles table ls ds ts i (st_b s))\<rparr>)"

text \<open>
  One turn and what it sees. Between two turns the loop sleeps or, after a batch that landed rows,
  does not; that only decides when the next turn comes.
\<close>

record turn =
  tn_files :: files
  tn_ds :: string
  tn_ts :: string
  tn_id :: string

definition poll_turn :: "stream_env \<Rightarrow> string list list \<Rightarrow> string \<Rightarrow> nat \<Rightarrow> turn \<Rightarrow> (stream, exn, unit) sm" where
  "poll_turn se middles table mx t = poll se middles table mx (tn_files t) (tn_ds t) (tn_ts t) (tn_id t)"

section \<open>The streams of a database\<close>

text \<open>
  A handle: what the stream was compiled to, its offsets, how far its task is. Each stream has its own
  checkpoint file under its name; they share the write path. A task that was started takes its first
  step (the head of \<open>_run\<close>) later.
\<close>

datatype stream_state = Created | Polling | Over "unit res"

record stream_handle =
  hd_source :: op_args
  hd_middles :: "string list list"
  hd_sink :: op_args
  hd_offsets :: "(string, nat) dict"
  hd_state :: stream_state

record streams =
  sr_handles :: "(string, stream_handle) dict"
  sr_ckpts :: "(string, string) dict"
  sr_b :: bstate

definition h_running :: "stream_handle \<Rightarrow> bool" where
  "h_running h = (case hd_state h of Over q \<Rightarrow> False | _ \<Rightarrow> True)"

text \<open>\<open>StreamHandle.exception\<close>.\<close>

definition h_exception :: "stream_handle \<Rightarrow> exn option" where
  "h_exception h = (case hd_state h of Over (Inl e) \<Rightarrow> Some e | _ \<Rightarrow> None)"

definition start_stream ::
    "policy \<Rightarrow> registry \<Rightarrow> schema \<Rightarrow> string \<Rightarrow> string \<Rightarrow> (streams, exn, unit) sm" where
  "start_stream pol reg sch pipeline name S =
     (if (case map_of (sr_handles S) name of None \<Rightarrow> False | Some h \<Rightarrow> h_running h)
      then (raise QueryError ''stream is already running'', S)
      else (case stream_compile pol reg sch pipeline of
          Inl e \<Rightarrow> (Inl e, S)
        | Inr (src, middles, sink) \<Rightarrow>
            (Inr (), S\<lparr>sr_handles := dict_set (sr_handles S) name
               \<lparr>hd_source = src, hd_middles = middles, hd_sink = sink, hd_offsets = [], hd_state = Created\<rparr>\<rparr>)))"

definition sink_of :: "op_args \<Rightarrow> (string \<times> nat) res" where
  "sink_of args = (case args of AIngest t b f \<Rightarrow> Inr (t, nat b) | _ \<Rightarrow> raise PyAttributeError ''flush_ms'')"

text \<open>\<open>watch_args.poll_ms\<close>: the arguments of another unbounded source have none.\<close>

definition source_ok :: "op_args \<Rightarrow> unit res" where
  "source_ok args = (case args of AWatch g p \<Rightarrow> Inr () | _ \<Rightarrow> raise PyAttributeError ''poll_ms'')"

definition view_stream :: "streams \<Rightarrow> string \<Rightarrow> stream_handle \<Rightarrow> stream" where
  "view_stream S name h = \<lparr>st_offsets = hd_offsets h, st_ckpt = map_of (sr_ckpts S) name, st_b = sr_b S\<rparr>"

definition put_stream :: "streams \<Rightarrow> string \<Rightarrow> stream_handle \<Rightarrow> stream_state \<Rightarrow> stream \<Rightarrow> streams" where
  "put_stream S name h state s = S\<lparr>sr_handles := dict_set (sr_handles S) name (h\<lparr>hd_offsets := st_offsets s, hd_state := state\<rparr>),
     sr_ckpts := (case st_ckpt s of None \<Rightarrow> sr_ckpts S | Some txt \<Rightarrow> dict_set (sr_ckpts S) name txt), sr_b := st_b s\<rparr>"

text \<open>A step of the task: its head, or a turn; \<open>last_turn\<close> says that the stop event is set.\<close>

definition stream_head :: "stream_handle \<Rightarrow> (stream, exn, unit) sm" where
  "stream_head h = bindM begin_stream (\<lambda>_. bindM (liftM (sink_of (hd_sink h))) (\<lambda>_. liftM (source_ok (hd_source h))))"

definition stream_turn :: "stream_env \<Rightarrow> stream_handle \<Rightarrow> turn \<Rightarrow> (stream, exn, unit) sm" where
  "stream_turn se h t = bindM (liftM (sink_of (hd_sink h))) (\<lambda>(table, mx). poll_turn se (hd_middles h) table mx t)"

definition stream_step :: "stream_env \<Rightarrow> string \<Rightarrow> turn \<Rightarrow> bool \<Rightarrow> streams \<Rightarrow> streams" where
  "stream_step se name t last_turn S = (case map_of (sr_handles S) name of
       None \<Rightarrow> S
     | Some h \<Rightarrow> (case hd_state h of
           Over q \<Rightarrow> S
         | Created \<Rightarrow> (case stream_head h (view_stream S name h) of
               (Inl e, s) \<Rightarrow> put_stream S name h (Over (Inl e)) s
             | (Inr u, s) \<Rightarrow> put_stream S name h Polling s)
         | Polling \<Rightarrow> (case stream_turn se h t (view_stream S name h) of
               (Inl e, s) \<Rightarrow> put_stream S name h (Over (Inl e)) s
             | (Inr u, s) \<Rightarrow> put_stream S name h (if last_turn then Over (Inr ()) else Polling) s)))"

text \<open>\<open>stop\<close>: the task sees the event, sweeps once more and is awaited, with its exception.\<close>

definition handle_result :: "streams \<Rightarrow> string \<Rightarrow> unit res" where
  "handle_result S name = (case map_of (sr_handles S) name of
       None \<Rightarrow> Inr () | Some h \<Rightarrow> (case hd_state h of Over q \<Rightarrow> q | _ \<Rightarrow> Inr ()))"

definition stop_stream :: "stream_env \<Rightarrow> (string \<Rightarrow> turn) \<Rightarrow> string \<Rightarrow> (streams, exn, unit) sm" where
  "stop_stream se sweep name S =
     (let S' = stream_step se name (sweep name) True (stream_step se name (sweep name) True S)
      in (handle_result S' name, S'))"

definition stop_running :: "stream_env \<Rightarrow> (string \<Rightarrow> turn) \<Rightarrow> string \<Rightarrow> (streams, exn, unit) sm" where
  "stop_running se sweep name S = (case map_of (sr_handles S) name of
       None \<Rightarrow> (Inr (), S)
     | Some h \<Rightarrow> if h_running h then stop_stream se sweep name S else (Inr (), S))"

definition close_streams :: "stream_env \<Rightarrow> (string \<Rightarrow> turn) \<Rightarrow> (streams, exn, unit) sm" where
  "close_streams se sweep S = forM (stop_running se sweep) (dict_keys (sr_handles S)) S"

end
