(* ===== verification/Stream_Facts.thy ===== *)
theory Stream_Facts
  imports Stream_Service Storage_Facts
begin

text \<open>
  The facts behind the promises of a stream: the reader stops at line ends, splitting bytes into
  lines commutes with appending at a line end, and the states of a stream under growth of its
  files, polls, crashes, restarts and writes of others.
\<close>

section \<open>The reader\<close>

lemma bsplit_append_nl: "bsplit acc (a @ newline # b) = bsplit acc (a @ [newline]) @ bsplit [] b"
proof (induction acc a rule: bsplit.induct)
  case (2 acc c cs)
  show ?case
  proof (cases "c = newline")
    case True
    then show ?thesis using 2 by simp
  next
    case False
    show ?thesis
    proof (cases "c = CHR 0x0D")
      case cr: True
      show ?thesis
      proof (cases cs)
        case (Cons d ds)
        then show ?thesis using 2 False cr by (cases "d = newline") auto
      qed (use False cr in simp)
    next
      case f: False
      then show ?thesis using 2 False by simp
    qed
  qed
qed simp

lemma bsplit_ends: "(l, e) \<in> set (bsplit acc s) \<Longrightarrow> l @ e \<noteq> []"
proof (induction acc s rule: bsplit.induct)
  case (2 acc c cs)
  show ?case
  proof (cases "c = newline")
    case True
    then show ?thesis using 2 by auto
  next
    case False
    then show ?thesis using 2 by (cases cs; cases "c = CHR 0x0D"; cases "hd cs = newline") auto
  qed
qed (auto split: if_splits)

lemma take_lines_spec:
  "take_lines mx ls pos raws = (ls', pos') \<Longrightarrow>
     \<exists>k. k \<le> length raws \<and> ls' = ls @ filter (\<lambda>r. byte_strip r \<noteq> []) (take k raws) \<and>
       pos' = pos + length (concat (take k raws)) \<and> list_all (\<lambda>r. r \<noteq> [] \<and> last r = newline) (take k raws) \<and>
       (length ls \<le> mx \<longrightarrow> length ls' \<le> mx)"
proof (induction mx ls pos raws rule: take_lines.induct)
  case (1 mx ls pos)
  then show ?case by simp
next
  case (2 mx ls pos raw rest)
  show ?case
  proof (cases "raw = [] \<or> last raw \<noteq> newline \<or> mx \<le> length ls")
    case True
    then show ?thesis using "2.prems" by (intro exI [of _ 0]) auto
  next
    case False
    let ?ls = "if byte_strip raw \<noteq> [] then ls @ [raw] else ls"
    have "take_lines mx ?ls (pos + length raw) rest = (ls', pos')" using "2.prems" False by simp
    from "2.IH" [OF False this] obtain k where k: "k \<le> length rest"
      "ls' = ?ls @ filter (\<lambda>r. byte_strip r \<noteq> []) (take k rest)" "pos' = pos + length raw + length (concat (take k rest))"
      "list_all (\<lambda>r. r \<noteq> [] \<and> last r = newline) (take k rest)" "length ?ls \<le> mx \<longrightarrow> length ls' \<le> mx" by blast
    then show ?thesis using False by (intro exI [of _ "Suc k"]) auto
  qed
qed

lemma take_concat_prefix: "take (length (concat (take k xs))) (concat xs) = concat (take k xs)"
proof -
  have "concat xs = concat (take k xs) @ concat (drop k xs)" by (metis append_take_drop_id concat_append)
  then show ?thesis by simp
qed


text \<open>An offset at the start of a line.\<close>

definition at_line :: "string \<Rightarrow> nat \<Rightarrow> bool" where
  "at_line bytes n \<longleftrightarrow> n \<le> length bytes \<and> (take n bytes = [] \<or> last (take n bytes) = newline)"

lemma last_concat:
  "list_all (\<lambda>r. r \<noteq> [] \<and> last r = c) rs \<Longrightarrow> concat rs \<noteq> [] \<Longrightarrow> last (concat rs) = c"
  by (induction rs rule: rev_induct) auto

lemma read_step:
  assumes "take_lines mx ls start (byte_lines_keep (drop start bytes)) = (ls', pos)" and "at_line bytes start"
  shows "at_line bytes pos \<and> start \<le> pos \<and> (length ls \<le> mx \<longrightarrow> length ls' \<le> mx) \<and>
     (\<exists>raws. ls' = ls @ filter (\<lambda>r. byte_strip r \<noteq> []) raws \<and> concat raws = take (pos - start) (drop start bytes) \<and>
        list_all (\<lambda>r. r \<noteq> [] \<and> last r = newline) raws \<and> (\<exists>k. raws = take k (byte_lines_keep (drop start bytes))))"
proof -
  let ?raws = "byte_lines_keep (drop start bytes)"
  obtain k where k: "ls' = ls @ filter (\<lambda>r. byte_strip r \<noteq> []) (take k ?raws)"
    "pos = start + length (concat (take k ?raws))" "list_all (\<lambda>r. r \<noteq> [] \<and> last r = newline) (take k ?raws)"
    "length ls \<le> mx \<longrightarrow> length ls' \<le> mx"
    using take_lines_spec [OF assms(1)] by blast
  have c: "concat (take k ?raws) = take (pos - start) (drop start bytes)"
    using take_concat_prefix [of k ?raws] k(2) by (simp add: byte_lines_keep_concat)
  have len: "length (concat (take k ?raws)) \<le> length (drop start bytes)" unfolding c by simp
  have "take pos bytes = take start bytes @ concat (take k ?raws)"
    unfolding c using k(2) by (simp add: take_add [symmetric])
  moreover have "concat (take k ?raws) \<noteq> [] \<Longrightarrow> last (concat (take k ?raws)) = newline"
    by (rule last_concat [OF k(3)])
  ultimately have "take pos bytes = [] \<or> last (take pos bytes) = newline"
    using assms(2) by (cases "concat (take k ?raws) = []") (auto simp: at_line_def)
  moreover have "start \<le> length bytes" using assms(2) by (simp add: at_line_def)
  then have "pos \<le> length bytes" using k(2) len by simp
  ultimately have "at_line bytes pos" unfolding at_line_def by blast
  moreover have "start \<le> pos" using k(2) by simp
  ultimately show ?thesis using k(1,3,4) c
    by (intro conjI exI [of _ "take k ?raws"] exI [of _ k]) simp_all
qed

lemma dict_set_mem: "x \<in> set (dict_set d k v) \<Longrightarrow> x \<in> set d \<or> x = (k, v)"
  by (induction d) (auto split: if_splits)

lemma read_new_lines_bound:
  "read_new_lines mx offsets ls new fs = (ls', new') \<Longrightarrow> length ls \<le> mx \<Longrightarrow> length ls' \<le> mx"
proof (induction mx offsets ls new fs arbitrary: ls' new' rule: read_new_lines.induct)
  case (2 mx offsets ls new path content rest)
  show ?case
  proof (cases "mx \<le> length ls \<or> content = None")
    case True
    then show ?thesis using 2 by (auto split: if_splits)
  next
    case False
    then obtain bytes where b: "content = Some bytes" by blast
    let ?start = "start_of offsets path"
    obtain l p where t: "take_lines mx ls ?start (byte_lines_keep (drop ?start bytes)) = (l, p)" by fastforce
    have "length l \<le> mx" using take_lines_spec [OF t] 2(4) by blast
    then show ?thesis
      using False 2(2) [OF _ b refl _ refl, of l p] 2(3) t b by (auto simp: Let_def)
  qed
qed auto

text \<open>The JSON lines of some bytes, as \<open>_jsonl_to_rows\<close> sees them.\<close>

definition lns :: "string \<Rightarrow> string list" where
  "lns b = filter (\<lambda>l. l \<noteq> []) (map byte_strip (byte_lines b))"

lemma jsonl_to_rows_lns: "jsonl_to_rows b = mapR row_of_line (lns b)"
  by (simp add: jsonl_to_rows_def lns_def)

lemma lns_append:
  assumes "a = [] \<or> last a = newline"
  shows "lns (a @ b) = lns a @ lns b"
proof (cases "a = []")
  case False
  then obtain a' where "a = a' @ [newline]" using assms by (metis append_butlast_last_id)
  then show ?thesis using bsplit_append_nl [of "[]" a' b] by (simp add: lns_def byte_lines_def)
qed (simp add: lns_def byte_lines_def)

lemma lns_concat: "list_all (\<lambda>r. r \<noteq> [] \<and> last r = newline) rs \<Longrightarrow> lns (concat rs) = concat (map lns rs)"
proof (induction rs)
  case Nil
  then show ?case by (simp add: lns_def byte_lines_def)
qed (simp add: lns_append)

lemma byte_strip_all: "list_all is_bspace s \<Longrightarrow> byte_strip s = []"
  by (simp add: byte_strip_def strip_by_Nil_iff)

lemma lns_blank:
  assumes "byte_strip r = []"
  shows "lns r = []"
proof -
  have blank: "list_all is_bspace r" using assms by (simp add: byte_strip_def strip_by_Nil_iff)
  have "list_all is_bspace l" if mem: "l \<in> set (byte_lines r)" for l
  proof -
    have "set l \<subseteq> set r"
    proof -
      obtain x where x: "l = fst x" "x \<in> set (bsplit [] r)" using mem unfolding byte_lines_def set_map by (rule imageE)
      have "fst x @ snd x \<in> set (byte_lines_keep r)"
        unfolding byte_lines_keep_def using imageI [OF x(2), of "\<lambda>(l, e). l @ e"] by (simp add: case_prod_unfold)
      then have "set (fst x @ snd x) \<subseteq> set (concat (byte_lines_keep r))" unfolding set_concat by blast
      then show ?thesis using x(1) by (simp add: byte_lines_keep_concat)
    qed
    then show ?thesis using blank by (auto simp: list_all_iff)
  qed
  then show ?thesis by (auto simp: lns_def byte_strip_all filter_empty_conv)
qed

lemma lns_filter: "concat (map lns (filter (\<lambda>r. byte_strip r \<noteq> []) rs)) = concat (map lns rs)"
  by (induction rs) (auto simp: lns_blank)

section \<open>What a read takes\<close>

text \<open>
  \<open>taken offsets fs ls (path, n)\<close>: the read moves \<open>path\<close> forward to the line start \<open>n\<close>, and every
  JSON line before \<open>n\<close> was already before the old offset or comes from one of the lines \<open>ls\<close>.
\<close>

definition taken :: "(string, nat) dict \<Rightarrow> files \<Rightarrow> string list \<Rightarrow> string \<times> nat \<Rightarrow> bool" where
  "taken offsets fs ls = (\<lambda>(path, n). \<exists>bytes. (path, Some bytes) \<in> set fs \<and> at_line bytes n \<and> start_of offsets path \<le> n \<and>
     set (lns (take n bytes)) \<subseteq> set (lns (take (start_of offsets path) bytes)) \<union> set (concat (map lns ls)))"

definition whole_line :: "string \<Rightarrow> bool" where
  "whole_line l \<longleftrightarrow> l \<noteq> [] \<and> last l = newline \<and> byte_strip l \<noteq> []"

lemma taken_mono: "taken offsets fs ls x \<Longrightarrow> set ls \<subseteq> set ls' \<Longrightarrow> taken offsets fs ls' x"
  by (fastforce simp: taken_def)

lemma taken_step:
  assumes "take_lines mx ls start (byte_lines_keep (drop start bytes)) = (ls', pos)" and "at_line bytes start"
    and "start = start_of offsets path" and "(path, Some bytes) \<in> set fs" and "list_all whole_line ls"
  shows "taken offsets fs ls' (path, pos) \<and> list_all whole_line ls' \<and> set ls \<subseteq> set ls'"
proof -
  note st = read_step [OF assms(1,2)]
  then obtain raws where r: "ls' = ls @ filter (\<lambda>r. byte_strip r \<noteq> []) raws"
    "concat raws = take (pos - start) (drop start bytes)" "list_all (\<lambda>r. r \<noteq> [] \<and> last r = newline) raws" by blast
  have "take pos bytes = take start bytes @ concat raws" using r(2) st by (simp add: take_add [symmetric])
  then have "lns (take pos bytes) = lns (take start bytes) @ concat (map lns raws)"
    using lns_append [of "take start bytes"] assms(2) lns_concat [OF r(3)] by (simp add: at_line_def)
  then have "set (lns (take pos bytes)) \<subseteq> set (lns (take start bytes)) \<union> set (concat (map lns ls'))"
    using r(1) lns_filter [of raws] by auto
  then have "taken offsets fs ls' (path, pos)" using st assms(3,4) by (auto simp: taken_def)
  then show ?thesis using r assms(5) by (auto simp: list_all_iff whole_line_def)
qed

lemma read_new_lines_spec:
  assumes "\<forall>(path, content) \<in> set fs. \<forall>bytes. content = Some bytes \<longrightarrow> at_line bytes (start_of offsets path)"
    and "read_new_lines mx offsets [] [] fs = (ls, new)"
  shows "list_all whole_line ls \<and> (\<forall>x \<in> set new. taken offsets fs ls x)"
proof -
  have "list_all whole_line ls' \<and> set l0 \<subseteq> set ls' \<and> (\<forall>x \<in> set new'. taken offsets fs ls' x)"
    if "read_new_lines mx offsets l0 new0 gs = (ls', new')" "set gs \<subseteq> set fs" "list_all whole_line l0"
      "\<forall>x \<in> set new0. taken offsets fs l0 x" for gs l0 new0 ls' new'
    using that
  proof (induction gs arbitrary: l0 new0)
    case (Cons g gs)
    obtain path content where g: "g = (path, content)" by fastforce
    show ?case
    proof (cases "mx \<le> length l0 \<or> content = None")
      case True
      then show ?thesis using Cons g by (auto split: if_splits)
    next
      case False
      then obtain bytes where b: "content = Some bytes" by blast
      let ?start = "start_of offsets path"
      obtain l p where t: "take_lines mx l0 ?start (byte_lines_keep (drop ?start bytes)) = (l, p)" by fastforce
      have mem: "(path, Some bytes) \<in> set fs" using Cons.prems(2) g b by simp
      then have start: "at_line bytes ?start" using assms(1) by fast
      note st = taken_step [OF t start refl mem Cons.prems(3)]
      let ?new = "if ?start < p then dict_set new0 path p else new0"
      have old: "\<forall>x \<in> set new0. taken offsets fs l x" using Cons.prems(4) st taken_mono by blast
      have "x \<in> set ?new \<Longrightarrow> x \<in> set new0 \<or> x = (path, p)" for x
        by (cases "?start < p") (auto dest: dict_set_mem)
      then have new: "\<forall>x \<in> set ?new. taken offsets fs l x" using old st by blast
      have "read_new_lines mx offsets l ?new gs = (ls', new')" using Cons.prems(1) False t g b by (simp add: Let_def)
      from Cons.IH [OF this _ _ new] Cons.prems(2) st show ?thesis by auto
    qed
  qed simp
  from this [OF assms(2)] show ?thesis by simp
qed

section \<open>Landing\<close>

definition row_keys :: "tablespec \<Rightarrow> bstate \<Rightarrow> string set" where
  "row_keys spec b = pk_text spec ` set (rows_of (w_db (b_w b)) (ts_name spec))"

definition landed :: "tablespec \<Rightarrow> bstate \<Rightarrow> string \<Rightarrow> bool" where
  "landed spec b l \<longleftrightarrow> (\<exists>d. row_of_line l = Inr d \<and> record_key spec (norm_record spec d) \<in> row_keys spec b)"

lemma landed_mono: "landed spec b l \<Longrightarrow> row_keys spec b \<subseteq> row_keys spec b' \<Longrightarrow> landed spec b' l"
  by (auto simp: landed_def)

lemma process_batch_keys:
  assumes "process_batch ev ts js b = (out, b')" and "conv_ok (e_duck ev)"
  shows "row_keys spec b \<subseteq> row_keys spec b'"
proof -
  obtain rs w where e: "execute_batch ev js (b_w b) = (rs, w)" by fastforce
  have "row_keys spec b \<subseteq> pk_text spec ` set (rows_of (w_db w) (ts_name spec))"
  proof (rule execute_batch_touched [OF e assms(2), where P = "\<lambda>rows. row_keys spec b \<subseteq> pk_text spec ` set rows"])
    show "row_keys spec b \<subseteq> pk_text spec ` set (rows_of (w_db (b_w b)) (ts_name spec))" by (simp add: row_keys_def)
    show "row_keys spec b \<subseteq> pk_text spec ` set rows'"
      if "row_keys spec b \<subseteq> pk_text spec ` set rows" "touched (j_ds j) rows rows'" for j rows rows'
      using that(1) touched_keys [OF that(2)] by (rule subset_trans)
  qed
  then show ?thesis using process_batch_rows(2) [OF assms(1)] e by (simp add: row_keys_def)
qed

lemma write_insert_keys:
  assumes "write_insert ev table rws ds ts i b = (Inr t, b')" and "schema_table (cfg_schema (e_cfg ev)) table = Inr spec"
    and "wf_table spec" and "keys_kept (e_duck ev) spec rws" and "conv_ok (e_duck ev)" and "rw \<in> set rws"
  shows "record_key spec (norm_record spec rw) \<in> row_keys spec b'"
proof -
  obtain out where p: "process_batch ev ts [insert_job table rws ds ts i] b = (out, b')" "hd out = Inr t"
    using assms(1) by (auto simp: write_insert_def split: prod.splits)
  obtain q w where e: "execute_one ev ds ts (OpInsert table rws True) (b_w b) = (q, w)" by fastforce
  have b: "execute_batch ev [insert_job table rws ds ts i] (b_w b) = ([q], w)" using e by (simp add: insert_job_def)
  obtain ex where "q = Inr ex" using p b by (cases q) (auto simp: process_batch_def Let_def split: prod.splits)
  from insert_lands [OF e [unfolded this] assms(2-6)] show ?thesis
    using process_batch_rows(2) [OF p(1)] b schema_table_Inr [OF assms(2)] by (simp add: row_keys_def)
qed

lemma land_keys:
  assumes "land se [] table ls ds ts i b = (q, b')" and "conv_ok (e_duck (se_env se))"
  shows "row_keys spec b \<subseteq> row_keys spec b'"
  using assms(1) process_batch_keys [OF _ assms(2)]
  by (auto simp: land_def bindM_def liftM_def returnM_def write_insert_def split: sum.splits prod.splits if_splits)

lemma land_lines:
  assumes "land se [] table ls ds ts i b = (Inr n, b')" and "schema_table (cfg_schema (e_cfg (se_env se))) table = Inr spec"
    and "wf_table spec" and "\<And>rws. keys_kept (e_duck (se_env se)) spec rws" and "conv_ok (e_duck (se_env se))"
    and "l \<in> set (lns (concat ls))"
  shows "landed spec b' l"
proof -
  obtain rows where r: "jsonl_to_rows (concat ls) = Inr rows"
    "rows = [] \<or> (\<exists>t. write_insert (se_env se) table rows ds ts i b = (Inr t, b'))"
    using assms(1)
    by (auto simp: land_def bindM_def liftM_def returnM_def split: sum.splits prod.splits if_splits)
  have "list_all2 (\<lambda>l d. row_of_line l = Inr d) (lns (concat ls)) rows"
    using r(1) by (simp add: jsonl_to_rows_lns mapR_Inr_iff)
  from list_all2_target [OF this assms(6)] obtain d where d: "d \<in> set rows" "row_of_line l = Inr d" by blast
  then obtain t where "write_insert (se_env se) table rows ds ts i b = (Inr t, b')" using r(2) by auto
  from write_insert_keys [OF this assms(2,3,4,5) d(1)] show ?thesis using d(2) by (auto simp: landed_def)
qed

section \<open>The states of a stream\<close>

text \<open>
  The files \<open>w\<close> only grow; a poll sees some of them, with their current bytes or unreadable. A poll
  may succeed, die on an exception, or be cut by a crash after landing; restarting reads the
  checkpoint. Other writers use the database in between.
\<close>

definition sees :: "(string \<Rightarrow> string) \<Rightarrow> files \<Rightarrow> bool" where
  "sees w fs \<longleftrightarrow> (\<forall>(path, content) \<in> set fs. content = None \<or> content = Some (w path))"

inductive streamed :: "stream_env \<Rightarrow> string \<Rightarrow> nat \<Rightarrow> (string \<Rightarrow> string) \<Rightarrow> stream \<Rightarrow> bool" for se table mx where
  new_stream: "st_offsets s = [] \<Longrightarrow> st_ckpt s = None \<Longrightarrow> streamed se table mx w s"
| grown: "streamed se table mx w s \<Longrightarrow> (\<And>p. \<exists>x. w' p = w p @ x) \<Longrightarrow> streamed se table mx w' s"
| polled: "streamed se table mx w s \<Longrightarrow> sees w fs \<Longrightarrow> poll se [] table mx fs ds ts i s = (q, s') \<Longrightarrow>
    streamed se table mx w s'"
| crashed: "streamed se table mx w s \<Longrightarrow> sees w fs \<Longrightarrow>
    streamed se table mx w (snd (begin_stream (crash_poll se [] table mx fs ds ts i s)))"
| restarted: "streamed se table mx w s \<Longrightarrow> streamed se table mx w (snd (begin_stream s))"
| elsewhere: "streamed se table mx w s \<Longrightarrow> process_batch (se_env se) ts js (st_b s) = (out, b') \<Longrightarrow>
    streamed se table mx w (s\<lparr>st_b := b'\<rparr>)"

definition covered :: "tablespec \<Rightarrow> (string \<Rightarrow> string) \<Rightarrow> stream \<Rightarrow> string \<Rightarrow> bool" where
  "covered spec w s p \<longleftrightarrow> at_line (w p) (start_of (st_offsets s) p) \<and>
     list_all (landed spec (st_b s)) (lns (take (start_of (st_offsets s) p) (w p)))"

lemma covered_grows:
  assumes "covered spec w s p" and "w' p = w p @ x"
  shows "covered spec w' s p"
  using assms by (auto simp: covered_def at_line_def)

lemma covered_keys:
  assumes "covered spec w s p" and "row_keys spec (st_b s) \<subseteq> row_keys spec (st_b s')" and "st_offsets s' = st_offsets s"
  shows "covered spec w s' p"
  using assms landed_mono by (fastforce simp: covered_def list_all_iff)

lemma update_offsets_get:
  "map_of (update_offsets off new) p = Some n \<Longrightarrow> map_of off p = Some n \<or> (p, n) \<in> set new"
proof (induction new arbitrary: off)
  case (Cons x new)
  obtain k v where x: "x = (k, v)" by fastforce
  have "update_offsets off (x # new) = update_offsets (dict_set off k v) new" by (simp add: update_offsets_def x)
  then have "map_of (dict_set off k v) p = Some n \<or> (p, n) \<in> set new" using Cons by simp
  then show ?case by (auto simp: x dict_get_set split: if_splits)
qed (simp add: update_offsets_def)

lemma update_offsets_keeps: "map_of (update_offsets off new) p = None \<Longrightarrow> map_of off p = None"
proof (induction new arbitrary: off)
  case (Cons x new)
  obtain k v where x: "x = (k, v)" by fastforce
  have "update_offsets off (x # new) = update_offsets (dict_set off k v) new" by (simp add: update_offsets_def x)
  then have "map_of (dict_set off k v) p = None" using Cons by simp
  then show ?case by (simp add: dict_get_set split: if_splits)
qed (simp add: update_offsets_def)

lemma update_offsets_start:
  "start_of (update_offsets off new) p = start_of off p \<or> (p, start_of (update_offsets off new) p) \<in> set new"
  using update_offsets_get [of off new p] update_offsets_keeps [of off new p]
  by (cases "map_of (update_offsets off new) p") (auto simp: start_of_def)

lemma poll_covers:
  assumes "poll se [] table mx fs ds ts i s = (q, s')" and "\<And>p. covered spec w s p" and "sees w fs"
    and "schema_table (cfg_schema (e_cfg (se_env se))) table = Inr spec"
    and "wf_table spec" and "\<And>rws. keys_kept (e_duck (se_env se)) spec rws" and "conv_ok (e_duck (se_env se))"
  shows "covered spec w s' p"
proof -
  obtain ls new where r: "read_new_lines mx (st_offsets s) [] [] fs = (ls, new)" by fastforce
  have sane: "\<forall>(path, content) \<in> set fs. \<forall>bytes. content = Some bytes \<longrightarrow> at_line bytes (start_of (st_offsets s) path)"
    using assms(2,3) by (fastforce simp: covered_def sees_def)
  note spec = read_new_lines_spec [OF sane r]
  obtain q' b where l: "land se [] table ls ds ts i (st_b s) = (q', b)" by fastforce
  have mono: "row_keys spec (st_b s) \<subseteq> row_keys spec b" by (rule land_keys [OF l assms(7)])
  consider (idle) "s' = s" | (failed) "s' = s\<lparr>st_b := b\<rparr>"
    | (ok) n where "q' = Inr n" "s' = s\<lparr>st_offsets := update_offsets (st_offsets s) new,
        st_ckpt := Some (ckpt_text (update_offsets (st_offsets s) new)), st_b := b\<rparr>"
    using assms(1) r l by (auto simp: poll_def Let_def split: if_splits sum.splits)
  then show ?thesis
  proof cases
    case idle
    then show ?thesis using assms(2) by simp
  next
    case failed
    then show ?thesis using covered_keys [OF assms(2)] mono by simp
  next
    case ok
    let ?n = "start_of (update_offsets (st_offsets s) new) p"
    have old: "list_all (landed spec b) (lns (take (start_of (st_offsets s) p) (w p)))"
      using assms(2) [of p] landed_mono [OF _ mono] by (fastforce simp: covered_def list_all_iff)
    have whole: "list_all (\<lambda>r. r \<noteq> [] \<and> last r = newline) ls" using spec by (auto simp: list_all_iff whole_line_def)
    have fresh: "landed spec b l" if "l \<in> set (concat (map lns ls))" for l
      using land_lines [OF l [unfolded ok(1)] assms(4-7)] that lns_concat [OF whole] by simp
    from update_offsets_start [of "st_offsets s" new p] show ?thesis
    proof
      assume "?n = start_of (st_offsets s) p"
      then show ?thesis using ok(2) old assms(2) [of p] by (simp add: covered_def)
    next
      assume "(p, ?n) \<in> set new"
      then have "taken (st_offsets s) fs ls (p, ?n)" using spec by blast
      then obtain bytes where t: "(p, Some bytes) \<in> set fs" "at_line bytes ?n"
        "set (lns (take ?n bytes)) \<subseteq> set (lns (take (start_of (st_offsets s) p) bytes)) \<union> set (concat (map lns ls))"
        by (auto simp: taken_def)
      have "bytes = w p" using t(1) assms(3) by (fastforce simp: sees_def)
      then have "list_all (landed spec b) (lns (take ?n (w p)))"
        using t(3) old fresh unfolding list_all_iff by blast
      then show ?thesis using ok(2) t(2) \<open>bytes = w p\<close> by (simp add: covered_def)
    qed
  qed
qed

section \<open>The checkpoint file holds the offsets\<close>

lemma offset_value_int [simp]: "offset_value (PInt (int n)) = Inr n"
  by (simp add: offset_value_def)

lemma load_offsets_text: "distinct (dict_keys off) \<Longrightarrow> load_offsets (Some (ckpt_text off)) = Inr off"
proof -
  assume "distinct (dict_keys off)"
  moreover have "map fst (map (\<lambda>(p, n). (p, PInt (int n))) off) = dict_keys off" by auto
  ultimately have "wf_json (ckpt_value off)"
    unfolding ckpt_value_def wf_json.simps by (simp add: list_all_iff case_prod_unfold comp_def)
  from json_loads_text [OF esc_ok_ascii this] have l: "json_loads (ckpt_text off) = Some (ckpt_value off)"
    by (simp add: ckpt_text_def)
  have "mapR (\<lambda>(k, v). bindR (offset_value v) (\<lambda>n. Inr (k, n))) (map (\<lambda>(p, n). (p, PInt (int n))) off) = Inr off"
    by (induction off) auto
  then show ?thesis using l by (simp add: load_offsets_def parse_ckpt_def ckpt_value_def)
qed

lemma update_offsets_distinct: "distinct (dict_keys off) \<Longrightarrow> distinct (dict_keys (update_offsets off new))"
proof (induction new arbitrary: off)
  case (Cons x new)
  then show ?case using distinct_update [of off "fst x" "snd x"] by (simp add: update_offsets_def case_prod_unfold)
qed (simp add: update_offsets_def)

definition ckpt_holds :: "stream \<Rightarrow> bool" where
  "ckpt_holds s \<longleftrightarrow> distinct (dict_keys (st_offsets s)) \<and> load_offsets (st_ckpt s) = Inr (st_offsets s)"

lemma begin_holds: "ckpt_holds s \<Longrightarrow> begin_stream s = (Inr (), s)"
  by (simp add: ckpt_holds_def begin_stream_def)

lemma poll_holds: "ckpt_holds s \<Longrightarrow> poll se mid table mx fs ds ts i s = (q, s') \<Longrightarrow> ckpt_holds s'"
  using load_offsets_text update_offsets_distinct
  by (auto simp: ckpt_holds_def poll_def Let_def split: prod.splits if_splits sum.splits)

lemma crash_frame:
  "st_offsets (crash_poll se mid table mx fs ds ts i s) = st_offsets s"
  "st_ckpt (crash_poll se mid table mx fs ds ts i s) = st_ckpt s"
  by (simp_all add: crash_poll_def case_prod_unfold Let_def)

lemma crash_holds: "ckpt_holds s \<Longrightarrow> ckpt_holds (crash_poll se mid table mx fs ds ts i s)"
  by (simp add: ckpt_holds_def crash_frame)

lemma streamed_holds: "streamed se table mx w s \<Longrightarrow> ckpt_holds s"
proof (induction rule: streamed.induct)
  case (new_stream s w)
  then show ?case by (simp add: ckpt_holds_def load_offsets_def)
next
  case (polled w s fs ds ts i q s')
  then show ?case using poll_holds by blast
next
  case (crashed w s fs ds ts i)
  then show ?case using crash_holds [of s] by (simp add: begin_holds)
next
  case (restarted w s)
  then show ?case by (simp add: begin_holds)
next
  case (elsewhere w s ts js out b')
  then show ?case by (simp add: ckpt_holds_def)
qed

lemma streamed_covered:
  assumes "streamed se table mx w s" and "schema_table (cfg_schema (e_cfg (se_env se))) table = Inr spec"
    and "wf_table spec" and "\<And>rws. keys_kept (e_duck (se_env se)) spec rws" and "conv_ok (e_duck (se_env se))"
  shows "covered spec w s p"
  using assms(1)
proof (induction arbitrary: p)
  case (new_stream s w)
  then show ?case by (simp add: covered_def start_of_def at_line_def lns_def byte_lines_def)
next
  case (grown w s w')
  then show ?case using covered_grows by blast
next
  case (polled w s fs ds ts i q s')
  then show ?case using poll_covers [OF polled.hyps(3) _ polled.hyps(2) assms(2-5)] by blast
next
  case (crashed w s fs ds ts i)
  let ?s = "crash_poll se [] table mx fs ds ts i s"
  have "row_keys spec (st_b s) \<subseteq> row_keys spec (snd (land se [] table ls ds ts i (st_b s)))" for ls
    by (rule land_keys [OF prod.collapse [symmetric] assms(5)])
  then have "row_keys spec (st_b s) \<subseteq> row_keys spec (st_b ?s)"
    by (simp add: crash_poll_def case_prod_unfold Let_def)
  then have "covered spec w ?s p" using crashed.IH covered_keys crash_frame(1) by blast
  then show ?case using crash_holds [OF streamed_holds [OF crashed.hyps(1)]] by (simp add: begin_holds)
next
  case (restarted w s)
  then show ?case using streamed_holds [OF restarted.hyps] by (simp add: begin_holds)
next
  case (elsewhere w s ts js out b')
  then show ?case
    using covered_keys [of spec w s p "s\<lparr>st_b := b'\<rparr>"] process_batch_keys [OF _ assms(5)] by simp
qed

end
