(* ===== verification/Stream_System.thy ===== *)
theory Stream_System
  imports Stream_Facts
begin

text \<open>
  All the streams of a database together: they start, take turns, die, stop and share the write
  path, the process crashes and comes back. Each stream's durable state (its checkpoint file and the
  database) goes through the states of a single stream, whatever the others do.
\<close>

section \<open>Runs of the streams\<close>

definition crash_process :: "stream_env \<Rightarrow> string \<Rightarrow> stream_handle \<Rightarrow> string \<times> nat \<Rightarrow> turn \<Rightarrow> streams \<Rightarrow> streams" where
  "crash_process se name h sink t S = S\<lparr>sr_handles := [], sr_b := st_b (crash_poll se (hd_middles h) (fst sink) (snd sink)
     (tn_files t) (tn_ds t) (tn_ts t) (tn_id t) (view_stream S name h))\<rparr>"

text \<open>A name always stands for the same sink; the streams considered have no middles.\<close>

inductive streaming :: "stream_env \<Rightarrow> (string \<Rightarrow> string \<times> nat) \<Rightarrow> (string \<Rightarrow> string) \<Rightarrow> streams \<Rightarrow> bool" for se sinks where
  no_streams: "sr_handles S = [] \<Longrightarrow> sr_ckpts S = [] \<Longrightarrow> streaming se sinks w S"
| files_grow: "streaming se sinks w S \<Longrightarrow> (\<And>p. \<exists>x. w' p = w p @ x) \<Longrightarrow> streaming se sinks w' S"
| started: "streaming se sinks w S \<Longrightarrow> start_stream pol reg sch pipeline name S = (q, S') \<Longrightarrow>
    (\<And>src middles sink. stream_compile pol reg sch pipeline = Inr (src, middles, sink) \<Longrightarrow>
       middles = [] \<and> sink_of sink = Inr (sinks name)) \<Longrightarrow> streaming se sinks w S'"
| stepped: "streaming se sinks w S \<Longrightarrow> sees w (tn_files t) \<Longrightarrow> streaming se sinks w (stream_step se name t fin S)"
| died: "streaming se sinks w S \<Longrightarrow> map_of (sr_handles S) name = Some h \<Longrightarrow> hd_state h = Polling \<Longrightarrow>
    sees w (tn_files t) \<Longrightarrow> streaming se sinks w (crash_process se name h (sinks name) t S)"
| reopened: "streaming se sinks w S \<Longrightarrow> streaming se sinks w (S\<lparr>sr_handles := []\<rparr>)"
| others_write: "streaming se sinks w S \<Longrightarrow> process_batch (se_env se) ts js (sr_b S) = (out, b') \<Longrightarrow>
    streaming se sinks w (S\<lparr>sr_b := b'\<rparr>)"

section \<open>Each stream on its own\<close>

text \<open>What a stream of this name would start with now.\<close>

definition durable :: "streams \<Rightarrow> string \<Rightarrow> stream" where
  "durable S name = snd (begin_stream \<lparr>st_offsets = [], st_ckpt = map_of (sr_ckpts S) name, st_b = sr_b S\<rparr>)"

definition handle_inv :: "(string \<Rightarrow> string \<times> nat) \<Rightarrow> streams \<Rightarrow> string \<Rightarrow> bool" where
  "handle_inv sinks S name \<longleftrightarrow> (case map_of (sr_handles S) name of None \<Rightarrow> True | Some h \<Rightarrow>
     hd_middles h = [] \<and> sink_of (hd_sink h) = Inr (sinks name) \<and>
     (hd_state h = Polling \<longrightarrow> hd_offsets h = st_offsets (durable S name)))"

definition sys_inv :: "stream_env \<Rightarrow> (string \<Rightarrow> string \<times> nat) \<Rightarrow> (string \<Rightarrow> string) \<Rightarrow> streams \<Rightarrow> bool" where
  "sys_inv se sinks w S \<longleftrightarrow> (\<forall>name. handle_inv sinks S name \<and>
     streamed se (fst (sinks name)) (snd (sinks name)) w (durable S name))"

lemma begin_frame [simp]: "st_ckpt (snd (begin_stream s)) = st_ckpt s" "st_b (snd (begin_stream s)) = st_b s"
  by (simp_all add: begin_stream_def split: sum.splits)

lemma durable_frame [simp]: "st_ckpt (durable S name) = map_of (sr_ckpts S) name" "st_b (durable S name) = sr_b S"
  by (simp_all add: durable_def)

lemma durable_holds: "ckpt_holds s \<Longrightarrow> map_of (sr_ckpts S) name = st_ckpt s \<Longrightarrow> sr_b S = st_b s \<Longrightarrow> durable S name = s"
  by (cases s) (simp add: durable_def ckpt_holds_def begin_stream_def)

lemma durable_cong: "map_of (sr_ckpts S') name = map_of (sr_ckpts S) name \<Longrightarrow> durable S' name = (durable S name)\<lparr>st_b := sr_b S'\<rparr>"
  by (auto simp: durable_def begin_stream_def split: sum.splits)

lemma durable_same: "sr_ckpts S' = sr_ckpts S \<Longrightarrow> sr_b S' = sr_b S \<Longrightarrow> durable S' = durable S"
  by (simp add: durable_def fun_eq_iff)

text \<open>What one stream's turn does to the database is nothing, or one batch of the write worker.\<close>

lemma land_batch:
  "snd (land se [] table ls ds ts i b) = b \<or> (\<exists>js out. process_batch (se_env se) ts js b = (out, snd (land se [] table ls ds ts i b)))"
  by (auto simp: land_def bindM_def liftM_def returnM_def write_insert_def split: sum.splits prod.splits)

lemma poll_b: "st_b (snd (poll se [] table mx fs ds ts i s)) = st_b s \<or>
    (\<exists>js out. process_batch (se_env se) ts js (st_b s) = (out, st_b (snd (poll se [] table mx fs ds ts i s))))"
proof -
  obtain ls new where r: "read_new_lines mx (st_offsets s) [] [] fs = (ls, new)" by fastforce
  obtain q b where l: "land se [] table ls ds ts i (st_b s) = (q, b)" by fastforce
  show ?thesis using land_batch [of se table ls ds ts i "st_b s"] r l
    by (cases q) (auto simp: poll_def Let_def)
qed

lemma crash_b: "st_b (crash_poll se [] table mx fs ds ts i s) = st_b s \<or>
    (\<exists>js out. process_batch (se_env se) ts js (st_b s) = (out, st_b (crash_poll se [] table mx fs ds ts i s)))"
  using land_batch by (simp add: crash_poll_def case_prod_unfold Let_def)

lemma others_keep:
  assumes "streamed se table mx w (durable S n)" and "map_of (sr_ckpts S') n = map_of (sr_ckpts S) n"
    and "sr_b S' = sr_b S \<or> (\<exists>ts js out. process_batch (se_env se) ts js (sr_b S) = (out, sr_b S'))"
  shows "streamed se table mx w (durable S' n)"
  using assms(3)
proof
  assume "sr_b S' = sr_b S"
  then have "durable S' n = durable S n" using assms(2) by (simp add: durable_def)
  then show ?thesis using assms(1) by simp
next
  assume "\<exists>ts js out. process_batch (se_env se) ts js (sr_b S) = (out, sr_b S')"
  then obtain ts js out where "process_batch (se_env se) ts js (st_b (durable S n)) = (out, sr_b S')" by auto
  from streamed.elsewhere [OF assms(1) this] show ?thesis by (simp add: durable_cong [OF assms(2)])
qed

text \<open>One stream becomes \<open>s\<close>, the others see its batch.\<close>

lemma sys_inv_put:
  assumes inv: "sys_inv se sinks w S" and h: "map_of (sr_handles S) name = Some h"
    and s: "streamed se (fst (sinks name)) (snd (sinks name)) w s"
    and k: "st_ckpt s \<noteq> None \<or> map_of (sr_ckpts S) name = None"
    and b: "st_b s = sr_b S \<or> (\<exists>ts js out. process_batch (se_env se) ts js (sr_b S) = (out, st_b s))"
  shows "sys_inv se sinks w (put_stream S name h state s)"
  unfolding sys_inv_def
proof
  fix n
  let ?S = "put_stream S name h state s"
  have old: "handle_inv sinks S n" "streamed se (fst (sinks n)) (snd (sinks n)) w (durable S n)"
    using inv by (simp_all add: sys_inv_def)
  show "handle_inv sinks ?S n \<and> streamed se (fst (sinks n)) (snd (sinks n)) w (durable ?S n)"
  proof (cases "n = name")
    case True
    have "map_of (sr_ckpts (put_stream S name h st s)) name = st_ckpt s" for st using k
      by (cases "st_ckpt s") (simp_all add: put_stream_def dict_get_set)
    then have d: "durable (put_stream S name h st s) name = s" for st
      by (intro durable_holds [OF streamed_holds [OF s]]) (simp_all add: put_stream_def)
    have "map_of (sr_handles ?S) name = Some (h\<lparr>hd_offsets := st_offsets s, hd_state := state\<rparr>)"
      by (simp add: put_stream_def dict_get_set)
    then show ?thesis using True s old(1) h by (simp add: handle_inv_def d)
  next
    case False
    have m: "map_of (sr_ckpts ?S) n = map_of (sr_ckpts S) n" "map_of (sr_handles ?S) n = map_of (sr_handles S) n"
      using False by (cases "st_ckpt s"; simp add: put_stream_def dict_get_set)+
    have "sr_b ?S = st_b s" by (simp add: put_stream_def)
    then have "streamed se (fst (sinks n)) (snd (sinks n)) w (durable ?S n)" using others_keep [OF old(2) m(1)] b by simp
    moreover have "handle_inv sinks ?S n" using old(1) m(2)
      by (simp add: handle_inv_def durable_cong [OF m(1)] split: option.splits)
    ultimately show ?thesis by blast
  qed
qed

lemma view_durable:
  assumes "sys_inv se sinks w S" and "map_of (sr_handles S) name = Some h" and "hd_state h = Polling"
  shows "view_stream S name h = durable S name"
proof -
  have "hd_offsets h = st_offsets (durable S name)" using assms by (simp add: sys_inv_def handle_inv_def split: option.splits)
  then show ?thesis by (simp add: view_stream_def stream.equality)
qed

lemma head_durable:
  assumes "streamed se table mx w (durable S name)" and "stream_head h (view_stream S name h) = (q, s)"
  shows "s = durable S name"
proof -
  let ?v = "view_stream S name h"
  have "load_offsets (map_of (sr_ckpts S) name) = Inr (st_offsets (durable S name))"
    using streamed_holds [OF assms(1)] by (simp add: ckpt_holds_def)
  then have "begin_stream ?v = (Inr (), durable S name)"
    by (simp add: begin_stream_def view_stream_def stream.equality)
  then show ?thesis using assms(2)
    by (auto simp: stream_head_def bindM_def split: sum.splits prod.splits)
qed

lemma poll_ckpt: "st_ckpt s \<noteq> None \<Longrightarrow> st_ckpt (snd (poll se mid table mx fs ds ts i s)) \<noteq> None"
  by (auto simp: poll_def Let_def split: prod.splits sum.splits)

lemma turn_poll:
  assumes "sys_inv se sinks w S" and "map_of (sr_handles S) name = Some h" and "hd_state h = Polling"
  shows "stream_turn se h t (view_stream S name h) =
     poll se [] (fst (sinks name)) (snd (sinks name)) (tn_files t) (tn_ds t) (tn_ts t) (tn_id t) (durable S name)"
proof -
  have "hd_middles h = []" "sink_of (hd_sink h) = Inr (sinks name)"
    using assms by (simp_all add: sys_inv_def handle_inv_def split: option.splits)
  then show ?thesis
    by (simp add: stream_turn_def view_durable [OF assms] bindM_def liftM_def poll_turn_def case_prod_unfold)
qed

lemma step_inv:
  assumes inv: "sys_inv se sinks w S" and sees: "sees w (tn_files t)"
  shows "sys_inv se sinks w (stream_step se name t fin S)"
proof (cases "map_of (sr_handles S) name")
  case None
  then show ?thesis using inv by (simp add: stream_step_def)
next
  case (Some h)
  have dur: "streamed se (fst (sinks name)) (snd (sinks name)) w (durable S name)" using inv by (simp add: sys_inv_def)
  show ?thesis
  proof (cases "hd_state h")
    case Created
    obtain q s where hd: "stream_head h (view_stream S name h) = (q, s)" by fastforce
    have s: "s = durable S name" by (rule head_durable [OF dur hd])
    have "sys_inv se sinks w (put_stream S name h state s)" for state
      by (rule sys_inv_put [OF inv Some]) (use s dur in auto)
    then show ?thesis using Some Created hd by (simp add: stream_step_def split: sum.splits)
  next
    case Polling
    obtain q s where p: "poll se [] (fst (sinks name)) (snd (sinks name)) (tn_files t) (tn_ds t) (tn_ts t) (tn_id t) (durable S name) = (q, s)"
      by fastforce
    have "sys_inv se sinks w (put_stream S name h state s)" for state
    proof (rule sys_inv_put [OF inv Some])
      show "streamed se (fst (sinks name)) (snd (sinks name)) w s" by (rule streamed.polled [OF dur sees p])
      show "st_ckpt s \<noteq> None \<or> map_of (sr_ckpts S) name = None"
        using poll_ckpt [of "durable S name" se "[]"] p by (metis durable_frame(1) snd_conv)
      show "st_b s = sr_b S \<or> (\<exists>ts js out. process_batch (se_env se) ts js (sr_b S) = (out, st_b s))"
        using poll_b [of se "fst (sinks name)" "snd (sinks name)"] p by (metis durable_frame(2) snd_conv)
    qed
    then show ?thesis using Some Polling p by (simp add: stream_step_def turn_poll [OF inv Some Polling] split: sum.splits)
  next
    case (Over q)
    then show ?thesis using inv Some by (simp add: stream_step_def)
  qed
qed

lemma start_inv:
  assumes inv: "sys_inv se sinks w S" and st: "start_stream pol reg sch pipeline name S = (q, S')"
    and c: "\<And>src middles sink. stream_compile pol reg sch pipeline = Inr (src, middles, sink) \<Longrightarrow>
       middles = [] \<and> sink_of sink = Inr (sinks name)"
  shows "sys_inv se sinks w S'"
proof -
  have frame: "sr_ckpts S' = sr_ckpts S" "sr_b S' = sr_b S"
    using st by (auto simp: start_stream_def split: if_splits sum.splits prod.splits)
  have "handle_inv sinks S' n" for n
  proof -
    have old: "handle_inv sinks S n" using inv by (simp add: sys_inv_def)
    have "map_of (sr_handles S') n = map_of (sr_handles S) n \<or>
        (\<exists>h. map_of (sr_handles S') n = Some h \<and> hd_middles h = [] \<and> sink_of (hd_sink h) = Inr (sinks n) \<and> hd_state h = Created)"
      using st c by (auto simp: start_stream_def dict_get_set split: if_splits sum.splits prod.splits)
    then show ?thesis using old by (auto simp: handle_inv_def durable_same [OF frame] split: option.splits)
  qed
  then show ?thesis using inv by (simp add: sys_inv_def durable_same [OF frame])
qed

lemma died_inv:
  assumes inv: "sys_inv se sinks w S" and h: "map_of (sr_handles S) name = Some h" "hd_state h = Polling"
    and sees: "sees w (tn_files t)"
  shows "sys_inv se sinks w (crash_process se name h (sinks name) t S)"
  unfolding sys_inv_def
proof
  fix n
  let ?S = "crash_process se name h (sinks name) t S"
  let ?c = "crash_poll se [] (fst (sinks name)) (snd (sinks name)) (tn_files t) (tn_ds t) (tn_ts t) (tn_id t) (durable S name)"
  have dur: "streamed se (fst (sinks m)) (snd (sinks m)) w (durable S m)" for m using inv by (simp add: sys_inv_def)
  have mid: "hd_middles h = []" using inv h by (simp add: sys_inv_def handle_inv_def split: option.splits)
  have S: "?S = S\<lparr>sr_handles := [], sr_b := st_b ?c\<rparr>" by (simp add: crash_process_def mid view_durable [OF inv h])
  have "streamed se (fst (sinks n)) (snd (sinks n)) w (durable ?S n)"
  proof (cases "n = name")
    case True
    have "durable ?S name = snd (begin_stream ?c)"
      using crash_holds [OF streamed_holds [OF dur]]
      by (simp add: begin_holds) (intro durable_holds, auto simp: S crash_frame)
    then show ?thesis using streamed.crashed [OF dur sees] True by simp
  next
    case False
    have "sr_b ?S = sr_b S \<or> (\<exists>ts js out. process_batch (se_env se) ts js (sr_b S) = (out, sr_b ?S))"
      using crash_b [of se "fst (sinks name)" "snd (sinks name)" "tn_files t" "tn_ds t" "tn_ts t" "tn_id t" "durable S name"]
      unfolding S by auto
    then show ?thesis by (intro others_keep [OF dur]) (simp_all add: S)
  qed
  then show "handle_inv sinks ?S n \<and> streamed se (fst (sinks n)) (snd (sinks n)) w (durable ?S n)"
    by (simp add: handle_inv_def S)
qed

lemma streaming_inv: "streaming se sinks w S \<Longrightarrow> sys_inv se sinks w S"
proof (induction rule: streaming.induct)
  case (no_streams S w)
  then show ?case
    by (auto simp: sys_inv_def handle_inv_def durable_def begin_stream_def load_offsets_def intro: streamed.new_stream)
next
  case (files_grow w S w')
  then show ?case using streamed.grown unfolding sys_inv_def by blast
next
  case (started w S pol reg sch pipeline name q S')
  then show ?case by (blast intro: start_inv)
next
  case (stepped w S t name fin)
  then show ?case by (blast intro: step_inv)
next
  case (died w S name h t)
  then show ?case by (blast intro: died_inv)
next
  case (reopened w S)
  have "durable (S\<lparr>sr_handles := []\<rparr>) = durable S" by (rule durable_same) simp_all
  then show ?case using reopened.IH by (simp add: sys_inv_def handle_inv_def)
next
  case (others_write w S ts js out b')
  let ?S = "S\<lparr>sr_b := b'\<rparr>"
  have "durable ?S n = (durable S n)\<lparr>st_b := b'\<rparr>" for n using durable_cong [of ?S n S] by simp
  moreover have "streamed se (fst (sinks n)) (snd (sinks n)) w (durable ?S n)" for n
  proof (rule others_keep)
    show "streamed se (fst (sinks n)) (snd (sinks n)) w (durable S n)" using others_write.IH by (simp add: sys_inv_def)
    show "sr_b ?S = sr_b S \<or> (\<exists>ts js out. process_batch (se_env se) ts js (sr_b S) = (out, sr_b ?S))"
      using others_write.hyps(2) by auto
  qed simp
  ultimately show ?case using others_write.IH by (simp add: sys_inv_def handle_inv_def split: option.splits)
qed

end
