(* ===== verification/Stream_Props.thy ===== *)
theory Stream_Props
  imports Stream_System Sample_Store
begin

text \<open>
  The promises of a stream: what it may be compiled from, what one read takes, and that no line
  before a committed offset is lost, whatever crashes, failures and restarts happen.
\<close>

section \<open>Compilation\<close>

lemma stream_segment_Inr:
  "stream_segment pol reg seg = Inr (op, args) \<longleftrightarrow> (\<exists>rest ts. classify reg seg = Some (op, rest) \<and>
     policy_check pol op = Inr () \<and> split_args rest = Inr ts \<and> op_parse_args op ts = Inr args)"
  by (auto simp: stream_segment_def bindR_Inr_iff split: option.splits)



section \<open>Reading\<close>

text \<open>C39: A read takes at most the batch size of lines, all of them complete, non-blank lines of the files,
  and every offset it moves it moves forward to the start of a line within its file.\<close>

theorem read_takes_whole_lines:
  assumes "\<forall>(path, content) \<in> set fs. \<forall>bytes. content = Some bytes \<longrightarrow> at_line bytes (start_of offsets path)"
    and "read_new_lines mx offsets [] [] fs = (ls, new)"
  shows "length ls \<le> mx \<and> list_all (\<lambda>l. l \<noteq> [] \<and> last l = newline \<and> byte_strip l \<noteq> []) ls \<and>
     (\<forall>(path, n) \<in> set new. \<exists>bytes. (path, Some bytes) \<in> set fs \<and> at_line bytes n \<and> start_of offsets path \<le> n)"
proof -
  have "\<exists>bytes. (path, Some bytes) \<in> set fs \<and> at_line bytes n \<and> start_of offsets path \<le> n" if "(path, n) \<in> set new" for path n
    using read_new_lines_spec [OF assms] that by (auto simp: taken_def)
  moreover have "list_all whole_line ls" using read_new_lines_spec [OF assms] by blast
  ultimately show ?thesis using read_new_lines_bound [OF assms(2)] by (auto simp: whole_line_def list_all_iff)
qed

theorem read_takes_whole_lines_witness:
  "(case read_new_lines 1 [(''/a'', 2)] [] [] [(''/a'', Some (''1'' @ [newline] @ ''23'' @ [newline] @ ''4''))] of (ls, new) \<Rightarrow>
     ls = [''23'' @ [newline]] \<and> new = [(''/a'', 5)] \<and> length ls \<le> 1)"
proof -
  let ?fs = "[(''/a'', Some (''1'' @ [newline] @ ''23'' @ [newline] @ ''4''))]"
  have r: "read_new_lines 1 [(''/a'', 2)] [] [] ?fs = ([''23'' @ [newline]], [(''/a'', 5)])" by code_simp
  have "\<forall>(path, content) \<in> set ?fs. \<forall>bytes. content = Some bytes \<longrightarrow>
      at_line bytes (start_of [(''/a'', 2)] path)" by (simp add: at_line_def start_of_def)
  from read_takes_whole_lines [OF this r] r show ?thesis by simp
qed

section \<open>Delivery\<close>

lemma covered_rows:
  assumes "covered spec w s p" and "ts_name spec = table"
  shows "start_of (st_offsets s) p \<le> length (w p) \<and>
     (\<exists>rows. jsonl_to_rows (take (start_of (st_offsets s) p) (w p)) = Inr rows \<and>
        (\<forall>rw \<in> set rows. record_key spec (norm_record spec rw) \<in>
           pk_text spec ` set (rows_of (w_db (b_w (st_b s))) table)))"
proof -
  let ?ls = "lns (take (start_of (st_offsets s) p) (w p))"
  have "\<forall>l \<in> set ?ls. landed spec (st_b s) l" using assms(1) by (simp add: covered_def list_all_iff)
  then obtain f where f: "\<forall>l \<in> set ?ls. row_of_line l = Inr (f l) \<and> record_key spec (norm_record spec (f l)) \<in> row_keys spec (st_b s)"
    unfolding landed_def by metis
  have "list_all2 (\<lambda>l d. row_of_line l = Inr d) ?ls (map f ?ls)" using f by (simp add: list_all2_conv_all_nth)
  then have "jsonl_to_rows (take (start_of (st_offsets s) p) (w p)) = Inr (map f ?ls)"
    by (simp add: jsonl_to_rows_lns mapR_Inr_iff)
  then show ?thesis using assms f by (auto simp: covered_def at_line_def row_keys_def)
qed


definition sample_se :: stream_env where
  "sample_se = \<lparr>se_env = sample_env, se_chain = (\<lambda>argvs b. Inr b)\<rparr>"

definition sample_feed :: string where
  "sample_feed = ''{\"id\": \"a\", \"body\": \"x\"}'' @ [newline] @ ''{\"id\"''"

definition sample_turn :: "string \<Rightarrow> turn" where
  "sample_turn i = \<lparr>tn_files = [(''/a'', Some sample_feed)], tn_ds = day1, tn_ts = ''t1'', tn_id = i\<rparr>"

definition sample_started :: "streams \<Rightarrow> streams" where
  "sample_started S = stream_step sample_se ''s'' (sample_turn []) False
     (snd (start_stream default_policy builtin_registry sample_schema ''watch /a | ingest docs --batch 10'' ''s'' S))"

definition sample_running :: streams where
  "sample_running = sample_started \<lparr>sr_handles = [], sr_ckpts = [], sr_b = \<lparr>b_w = fresh_state, b_log = []\<rparr>\<rparr>"

definition sample_handle :: stream_handle where
  "sample_handle = \<lparr>hd_source = AWatch ''/a'' 200, hd_middles = [], hd_sink = AIngest ''docs'' 10 200,
     hd_offsets = [], hd_state = Polling\<rparr>"

text \<open>The batch lands, the process dies before the checkpoint, the stream starts again and reads the batch again.\<close>

definition sample_recovered :: streams where
  "sample_recovered = stream_step sample_se ''s'' (sample_turn ''tk_20260101_ab'') False (sample_started
     (crash_process sample_se ''s'' sample_handle (''docs'', 10) (sample_turn ''tk_20260101_aa'') sample_running))"

lemma sample_keys: "keys_kept (e_duck (se_env sample_se)) sample_table rws"
  by (auto simp: keys_kept_def list_all_iff sample_se_def sample_env_def sample_table_def sample_conv_def py_str_simps
      split: sum.splits pyval.splits if_splits)

lemma sample_compiled: "stream_compile default_policy builtin_registry sample_schema ''watch /a | ingest docs --batch 10'' =
    Inr (AWatch ''/a'' 200, [], AIngest ''docs'' 10 200)"
  by code_simp

lemma sample_started_streaming:
  "streaming sample_se (\<lambda>n. (''docs'', 10)) (\<lambda>p. sample_feed) S \<Longrightarrow>
     streaming sample_se (\<lambda>n. (''docs'', 10)) (\<lambda>p. sample_feed) (sample_started S)"
  unfolding sample_started_def
  by (intro streaming.stepped streaming.started [OF _ prod.collapse [symmetric]])
    (auto simp: sees_def sample_turn_def sample_compiled sink_of_def)


section \<open>Stopping\<close>

lemma step_frame:
  "n \<noteq> name \<Longrightarrow> map_of (sr_handles (stream_step se name t fin S)) n = map_of (sr_handles S) n"
  by (auto simp: stream_step_def put_stream_def dict_get_set split: option.splits stream_state.splits sum.splits prod.splits)

lemma last_step_over:
  assumes "map_of (sr_handles S) name = Some h" and "hd_state h \<noteq> Created"
  shows "\<exists>h' q. map_of (sr_handles (stream_step se name t True S)) name = Some h' \<and> hd_state h' = Over q"
  using assms
  by (cases "hd_state h") (auto simp: stream_step_def put_stream_def dict_get_set split: sum.splits prod.splits)

lemma step_started:
  assumes "map_of (sr_handles S) name = Some h"
  shows "\<exists>h'. map_of (sr_handles (stream_step se name t fin S)) name = Some h' \<and> hd_state h' \<noteq> Created"
  using assms
  by (cases "hd_state h") (auto simp: stream_step_def put_stream_def dict_get_set split: sum.splits prod.splits)

lemma stop_over:
  assumes "map_of (sr_handles S) name = Some h" and "stop_stream se sweep name S = (q, S')"
  shows "(\<exists>h'. map_of (sr_handles S') name = Some h' \<and> hd_state h' = Over q) \<and>
     (\<forall>n. n \<noteq> name \<longrightarrow> map_of (sr_handles S') n = map_of (sr_handles S) n)"
proof -
  obtain h1 where h1: "map_of (sr_handles (stream_step se name (sweep name) True S)) name = Some h1" "hd_state h1 \<noteq> Created"
    using step_started [OF assms(1)] by blast
  from last_step_over [OF this] assms(2) step_frame show ?thesis
    by (fastforce simp: stop_stream_def Let_def handle_result_def)
qed

lemma stop_running_over:
  assumes "stop_running se sweep name S = (q, S')"
  shows "(\<forall>h. map_of (sr_handles S') name = Some h \<longrightarrow> \<not> h_running h) \<and>
     (\<forall>n. n \<noteq> name \<longrightarrow> map_of (sr_handles S') n = map_of (sr_handles S) n) \<and>
     (\<forall>e. q = Inl e \<longrightarrow> (\<exists>h0 h. map_of (sr_handles S) name = Some h0 \<and> h_running h0 \<and>
        map_of (sr_handles S') name = Some h \<and> h_exception h = Some e))"
proof (cases "\<exists>h. map_of (sr_handles S) name = Some h \<and> h_running h")
  case True
  then obtain h where h: "map_of (sr_handles S) name = Some h" "h_running h" by blast
  then have "stop_stream se sweep name S = (q, S')" using assms by (simp add: stop_running_def)
  from stop_over [OF h(1) this] h show ?thesis by (auto simp: h_running_def h_exception_def)
next
  case False
  then show ?thesis using assms by (auto simp: stop_running_def split: option.splits)
qed

lemma close_loop:
  assumes "forM (stop_running se sweep) ns S = (q, S')" and "distinct ns"
  shows "(\<forall>n. n \<notin> set ns \<longrightarrow> map_of (sr_handles S') n = map_of (sr_handles S) n) \<and> (case q of
      Inr u \<Rightarrow> \<forall>n \<in> set ns. \<forall>h. map_of (sr_handles S') n = Some h \<longrightarrow> \<not> h_running h
    | Inl e \<Rightarrow> \<exists>before name after h0 h. ns = before @ name # after \<and> map_of (sr_handles S) name = Some h0 \<and> h_running h0 \<and>
        map_of (sr_handles S') name = Some h \<and> h_exception h = Some e \<and>
        (\<forall>n \<in> set after. map_of (sr_handles S') n = map_of (sr_handles S) n))"
  using assms
proof (induction ns arbitrary: S)
  case Nil
  then show ?case by (cases q) auto
next
  case (Cons m ns)
  obtain q1 S1 where s1: "stop_running se sweep m S = (q1, S1)" by fastforce
  note one = stop_running_over [OF s1]
  have m: "m \<notin> set ns" "distinct ns" using Cons.prems(2) by simp_all
  show ?case
  proof (cases q1)
    case (Inl e)
    then have q: "q = Inl e" "S' = S1" using Cons.prems(1) s1 by simp_all
    have "\<forall>n \<in> set ns. map_of (sr_handles S1) n = map_of (sr_handles S) n" using one m by auto
    moreover obtain h0 h where "map_of (sr_handles S) m = Some h0" "h_running h0" "map_of (sr_handles S1) m = Some h"
      "h_exception h = Some e" using one Inl by blast
    moreover have "\<forall>n. n \<notin> set (m # ns) \<longrightarrow> map_of (sr_handles S1) n = map_of (sr_handles S) n" using one by simp
    ultimately show ?thesis unfolding q sum.case
      by (intro conjI exI [of _ "[]"] exI [of _ m] exI [of _ ns] exI [of _ h0] exI [of _ h]) simp_all
  next
    case (Inr u)
    then have r: "forM (stop_running se sweep) ns S1 = (q, S')" using Cons.prems(1) s1 by simp
    note ih = Cons.IH [OF r m(2)]
    have same: "\<forall>n. n \<notin> set (m # ns) \<longrightarrow> map_of (sr_handles S') n = map_of (sr_handles S) n" using ih one by simp
    show ?thesis
    proof (cases q)
      case (Inl e)
      then obtain before name after h0 h where b: "ns = before @ name # after" "map_of (sr_handles S1) name = Some h0" "h_running h0"
        "map_of (sr_handles S') name = Some h" "h_exception h = Some e"
        "\<forall>n \<in> set after. map_of (sr_handles S') n = map_of (sr_handles S1) n"
        using ih by auto
      have ne: "name \<noteq> m" "m \<notin> set after" using b(1) m(1) by auto
      have "map_of (sr_handles S) name = Some h0" "\<forall>n \<in> set after. map_of (sr_handles S') n = map_of (sr_handles S) n"
        using one b(2,6) ne by metis+
      moreover have "m # ns = (m # before) @ name # after" using b(1) by simp
      ultimately show ?thesis unfolding Inl sum.case using b(3-5) same
        by (intro conjI exI [of _ "m # before"] exI [of _ name] exI [of _ after] exI [of _ h0] exI [of _ h]) assumption+
    next
      case (Inr v)
      then show ?thesis using ih one m(1) same by auto
    qed
  qed
qed

text \<open>C28: Closing stops every running stream; when the last sweep of one dies, closing raises its error and
  leaves the streams behind it as they were.\<close>

theorem close_stops_streams:
  assumes "close_streams se sweep S = (q, S')" and "distinct (dict_keys (sr_handles S))"
  shows "case q of
      Inr u \<Rightarrow> \<forall>name h. map_of (sr_handles S') name = Some h \<longrightarrow> \<not> h_running h
    | Inl e \<Rightarrow> \<exists>before name after h0 h. dict_keys (sr_handles S) = before @ name # after \<and>
        map_of (sr_handles S) name = Some h0 \<and> h_running h0 \<and>
        map_of (sr_handles S') name = Some h \<and> h_exception h = Some e \<and>
        (\<forall>n \<in> set after. map_of (sr_handles S') n = map_of (sr_handles S) n)"
proof -
  note loop = close_loop [OF assms(1) [unfolded close_streams_def] assms(2)]
  have "name \<in> set (dict_keys (sr_handles S))" if "map_of (sr_handles S') name = Some h" for name h
  proof (rule ccontr)
    assume n: "name \<notin> set (dict_keys (sr_handles S))"
    then have "map_of (sr_handles S) name = None" by (simp add: map_of_eq_None_iff)
    then show False using loop n that by simp
  qed
  note known = this
  show ?thesis
  proof (cases q)
    case (Inl e)
    then show ?thesis using loop by simp
  next
    case (Inr u)
    then show ?thesis using loop known unfolding Inr sum.case by blast
  qed
qed

definition sample_two :: streams where
  "sample_two = sample_running\<lparr>sr_handles := sr_handles sample_running @ [(''t'', sample_handle)]\<rparr>"

definition sample_broken :: "string \<Rightarrow> turn" where
  "sample_broken name = (sample_turn ''tk_20260101_ac'')\<lparr>tn_files := [(''/a'', Some (''[1]'' @ [newline]))]\<rparr>"

text \<open>The first stream dies on a line that is no object; the second is left running.\<close>

theorem close_stops_streams_witness:
  "(case close_streams sample_se sample_broken sample_two of
      (Inr u, S') \<Rightarrow> False
    | (Inl e, S') \<Rightarrow> exn_class e = QueryError \<and> map_option h_running (map_of (sr_handles S') ''t'') = Some True \<and>
        (\<exists>name h. map_of (sr_handles S') name = Some h \<and> h_exception h = Some e))"
proof -
  obtain q S' where c: "close_streams sample_se sample_broken sample_two = (q, S')" by fastforce
  have "case close_streams sample_se sample_broken sample_two of
      (Inr u, S') \<Rightarrow> False
    | (Inl e, S') \<Rightarrow> exn_class e = QueryError \<and> map_option h_running (map_of (sr_handles S') ''t'') = Some True" by code_simp
  moreover have "distinct (dict_keys (sr_handles sample_two))" by code_simp
  note close_stops_streams [OF c this]
  ultimately show ?thesis unfolding c by (cases q) auto
qed

end
