(* ===== verification/Bash_Chain.thy ===== *)
theory Bash_Chain
  imports Bytes_Text Complex_Main
begin

text \<open>
  \<open>_run_bash_chain\<close> of \<open>service/store_service.py\<close>: a list of commands run as one process pipeline
  under a wall-clock timeout. What a command does with its standard input is a parameter; the
  deadline, the wait for every process, the exit status that counts and the errors are the code's.
\<close>

text \<open>The end of a process: when it exits (\<open>None\<close>: never, unless it is killed), and with what.\<close>

record proc_end =
  pe_time :: "real option"
  pe_code :: int
  pe_out :: string
  pe_err :: string

text \<open>\<open>None\<close>: no such executable (\<open>FileNotFoundError\<close>).\<close>

type_synonym command = "string list \<Rightarrow> string \<Rightarrow> proc_end option"

text \<open>Every process reads what the one before it wrote.\<close>

fun start_chain :: "command \<Rightarrow> string list list \<Rightarrow> string \<Rightarrow> string + proc_end list" where
  "start_chain cmd [] stdin = Inr []"
| "start_chain cmd (argv # argvs) stdin = (case cmd argv stdin of
       None \<Rightarrow> Inl (if argv = [] then [] else hd argv)
     | Some p \<Rightarrow> bindR (start_chain cmd argvs (pe_out p)) (\<lambda>ps. Inr (p # ps)))"

definition in_time :: "real \<Rightarrow> proc_end \<Rightarrow> bool" where
  "in_time tmo p = (case pe_time p of None \<Rightarrow> False | Some t \<Rightarrow> t \<le> tmo)"

text \<open>
  The result of the call, or \<open>None\<close> when it never returns: \<open>communicate(timeout=\<dots>)\<close> guards the last
  process only, and the \<open>p.wait()\<close> of the others has no timeout.
\<close>

definition run_bash_chain :: "command \<Rightarrow> string list list \<Rightarrow> string \<Rightarrow> real \<Rightarrow> string res option" where
  "run_bash_chain cmd argvs stdin tmo = (case start_chain cmd argvs stdin of
       Inl name \<Rightarrow> Some (raise QueryError ''bash stage command not found'')
     | Inr ps \<Rightarrow>
         if ps = [] then Some (raise PyIndexError ''list index out of range'')
         else if \<not> in_time tmo (last ps) then Some (raise QueryError ''bash stage exceeded the sandbox timeout'')
         else if \<exists>p \<in> set (butlast ps). pe_time p = None then None
         else if pe_code (last ps) \<noteq> 0 then Some (raise QueryError ''bash stage failed'')
         else Some (Inr (pe_out (last ps))))"

section \<open>Facts\<close>

lemma start_chain_length: "start_chain cmd argvs stdin = Inr ps \<Longrightarrow> length ps = length argvs"
  by (induction argvs arbitrary: stdin ps) (auto simp: bindR_Inr_iff split: option.splits)

lemma run_one:
  "cmd argv stdin = Some p \<Longrightarrow> in_time tmo p \<Longrightarrow> pe_code p = 0 \<Longrightarrow>
     run_bash_chain cmd [argv] stdin tmo = Some (Inr (pe_out p))"
  by (simp add: run_bash_chain_def)

lemma chain_append:
  "start_chain cmd (as @ bs) stdin = Inr ps \<Longrightarrow> as \<noteq> [] \<Longrightarrow>
     \<exists>p1 p2. ps = p1 @ p2 \<and> start_chain cmd as stdin = Inr p1 \<and> start_chain cmd bs (pe_out (last p1)) = Inr p2"
proof (induction as arbitrary: stdin ps)
  case (Cons a as)
  then obtain p qs where p: "cmd a stdin = Some p" "start_chain cmd (as @ bs) (pe_out p) = Inr qs" "ps = p # qs"
    by (auto simp: bindR_Inr_iff split: option.splits)
  show ?case
  proof (cases "as = []")
    case True
    then show ?thesis using p by (intro exI [of _ "[p]"] exI [of _ qs]) simp
  next
    case False
    from Cons.IH [OF p(2) False] obtain p1 p2 where
      q: "qs = p1 @ p2" "start_chain cmd as (pe_out p) = Inr p1" "start_chain cmd bs (pe_out (last p1)) = Inr p2" by blast
    have "p1 \<noteq> []" using start_chain_length [OF q(2)] False by auto
    then show ?thesis using p q by (intro exI [of _ "p # p1"] exI [of _ p2]) simp
  qed
qed simp

end
