(* ===== verification/Plan_Exec.thy ===== *)
theory Plan_Exec
  imports Pipeline_Compile Bash_Chain
begin

text \<open>
  The execution of a compiled query: \<open>run_query\<close>, \<open>run_plan\<close>, \<open>_install_views\<close> and \<open>_load_bridge\<close> of
  \<open>service/store_service.py\<close>, and \<open>PipelineService.query\<close> on top of them. A borrowed DuckDB cursor is
  a parameter: what \<open>extract_statements\<close> makes of a text, what \<open>execute\<close> returns and does to the
  cursor, what \<open>read_json_auto\<close> does with the bytes of a file. The state is the cursor's.
\<close>

section \<open>The cursor\<close>

datatype stmt_kind = SelectStmt | OtherStmt

record 'c cursor =
  cu_extract :: "string \<Rightarrow> stmt_kind list res"
  cu_execute :: "string \<Rightarrow> sqlparam list \<Rightarrow> ('c, exn, string list \<times> pyval list list) sm"
  cu_read_json :: "string \<Rightarrow> ('c, exn, unit) sm"

text \<open>\<open>except duckdb.Error as e: raise QueryError(str(e))\<close>.\<close>

definition duck_error :: "exn \<Rightarrow> exn" where
  "duck_error e = (if exn_class e = DuckError then Exn QueryError (exn_msg e) else e)"

definition catch_duck :: "('c, exn, 'a) sm \<Rightarrow> ('c, exn, 'a) sm" where
  "catch_duck m s = (case m s of (Inl e, t) \<Rightarrow> (Inl (duck_error e), t) | (Inr a, t) \<Rightarrow> (Inr a, t))"

text \<open>\<open>dict(zip(names, row))\<close>.\<close>

definition dict_zip :: "string list \<Rightarrow> pyval list \<Rightarrow> pyrow" where
  "dict_zip names r = foldl (\<lambda>d (k, v). dict_set d k v) [] (zip names r)"

definition fetch_rows :: "'c cursor \<Rightarrow> string \<Rightarrow> sqlparam list \<Rightarrow> ('c, exn, pyrow list) sm" where
  "fetch_rows cu sql ps = bindM (cu_execute cu sql ps) (\<lambda>(names, rs). returnM (map (dict_zip names) rs))"

definition view_text :: "tablespec \<Rightarrow> string option \<Rightarrow> string option \<Rightarrow> string res" where
  "view_text spec ds_start ds_end =
     bindR (sql_ident (ts_name spec)) (\<lambda>n.
     bindR (visible_text spec ds_start ds_end) (\<lambda>v.
     Inr (''CREATE OR REPLACE TEMP VIEW '' @ n @ '' AS '' @ v)))"

definition install_views ::
    "'c cursor \<Rightarrow> schema \<Rightarrow> string option \<Rightarrow> string option \<Rightarrow> ('c, exn, unit) sm" where
  "install_views cu sch ds_start ds_end =
     forM (\<lambda>spec. bindM (liftM (view_text spec ds_start ds_end)) (\<lambda>sql.
        bindM (cu_execute cu sql []) (\<lambda>_. returnM ()))) (sc_tables sch)"

section \<open>One statement\<close>

definition run_query ::
    "'c cursor \<Rightarrow> schema \<Rightarrow> string \<Rightarrow> pyval list \<Rightarrow> string option \<Rightarrow> string option \<Rightarrow> ('c, exn, pyrow list) sm" where
  "run_query cu sch sql params ds_start ds_end =
     bindM (liftM (check_ds ''ds_start'' ds_start)) (\<lambda>_.
     bindM (liftM (check_ds ''ds_end'' ds_end)) (\<lambda>_.
     bindM (catch_duck (liftM (cu_extract cu sql))) (\<lambda>stmts.
     if length stmts \<noteq> 1 then raiseM (Exn ReadOnlyError ''query must be a single read statement'')
     else if stmts ! 0 \<noteq> SelectStmt then raiseM (Exn ReadOnlyError ''query is read-only (must be a SELECT)'')
     else catch_duck (bindM (install_views cu sch ds_start ds_end) (\<lambda>_. fetch_rows cu sql (map ParamVal params))))))"

section \<open>A plan\<close>

definition guarded_select :: "'c cursor \<Rightarrow> string \<Rightarrow> sqlparam list \<Rightarrow> ('c, exn, pyrow list) sm" where
  "guarded_select cu sql ps = catch_duck (
     bindM (liftM (cu_extract cu sql)) (\<lambda>stmts.
     if length stmts \<noteq> 1 \<or> stmts ! 0 \<noteq> SelectStmt
     then raiseM (Exn ReadOnlyError ''query is read-only (must be a SELECT)'')
     else fetch_rows cu sql ps))"

definition empty_bridge :: string where
  "empty_bridge = ''CREATE OR REPLACE TEMP TABLE _bridge AS SELECT 1 AS _empty WHERE false''"

definition load_bridge :: "'c cursor \<Rightarrow> string \<Rightarrow> ('c, exn, unit) sm" where
  "load_bridge cu jsonl =
     (if byte_strip jsonl = [] then bindM (cu_execute cu empty_bridge []) (\<lambda>_. returnM ())
      else catch_duck (cu_read_json cu jsonl))"

definition rows_or_empty :: "pyrow list option \<Rightarrow> pyrow list" where
  "rows_or_empty rows = (case rows of None \<Rightarrow> [] | Some r \<Rightarrow> r)"

fun run_phases ::
    "'c cursor \<Rightarrow> (string list list \<Rightarrow> string \<Rightarrow> string res) \<Rightarrow> phase list \<Rightarrow> pyrow list option \<Rightarrow> ('c, exn, pyrow list) sm" where
  "run_phases cu chain [] rows = returnM (rows_or_empty rows)"
| "run_phases cu chain (DuckPhase sql ps # rest) rows =
     bindM (guarded_select cu sql ps) (\<lambda>rs. run_phases cu chain rest (Some rs))"
| "run_phases cu chain (BashPhase argvs # rest) rows =
     bindM (liftM (chain argvs (rows_to_jsonl (map PDict (rows_or_empty rows))))) (\<lambda>out.
     if rest = [] then bindM (liftM (jsonl_to_rows out)) (\<lambda>rs. run_phases cu chain rest (Some rs))
     else bindM (load_bridge cu out) (\<lambda>_. run_phases cu chain rest rows))"

definition run_plan ::
    "'c cursor \<Rightarrow> schema \<Rightarrow> (string list list \<Rightarrow> string \<Rightarrow> string res) \<Rightarrow> phase list \<Rightarrow>
     string option \<Rightarrow> string option \<Rightarrow> ('c, exn, pyrow list) sm" where
  "run_plan cu sch chain phases ds_start ds_end =
     bindM (liftM (check_ds ''ds_start'' ds_start)) (\<lambda>_.
     bindM (liftM (check_ds ''ds_end'' ds_end)) (\<lambda>_.
     bindM (install_views cu sch ds_start ds_end) (\<lambda>_.
     run_phases cu chain phases None)))"

section \<open>A query\<close>

definition exec_plan ::
    "'c cursor \<Rightarrow> schema \<Rightarrow> (string list list \<Rightarrow> string \<Rightarrow> string res) \<Rightarrow> string option \<Rightarrow> string option \<Rightarrow>
     plan \<Rightarrow> ('c, exn, pyrow list) sm" where
  "exec_plan cu sch chain ds_start ds_end p = (case p of
       PureSql sql ps \<Rightarrow> run_query cu sch sql ps ds_start ds_end
     | Phases ph \<Rightarrow> run_plan cu sch chain ph ds_start ds_end)"

definition query_service ::
    "policy \<Rightarrow> registry \<Rightarrow> store_cfg \<Rightarrow> embedder option \<Rightarrow> 'c cursor \<Rightarrow> (string list list \<Rightarrow> string \<Rightarrow> string res) \<Rightarrow>
     string option \<Rightarrow> pyval list \<Rightarrow> string option \<Rightarrow> string option \<Rightarrow> ('c, exn, pyrow list) sm" where
  "query_service pol reg cfg emb cu chain sql params ds_start ds_end =
     bindM (liftM (plan_query pol reg \<lparr>ctx_cfg = cfg, ctx_embedding = emb, ctx_ds_start = ds_start, ctx_ds_end = ds_end\<rparr>
        sql params)) (\<lambda>p. exec_plan cu (cfg_schema cfg) chain ds_start ds_end p)"

section \<open>Facts\<close>

text \<open>
  What the cursor promises: a text that it parses as one SELECT, the definition of a view and the
  temporary tables of the seam leave what is stored (\<open>stored\<close>) as it was.
\<close>

definition reads_only :: "'c cursor \<Rightarrow> schema \<Rightarrow> ('c \<Rightarrow> 'd) \<Rightarrow> bool" where
  "reads_only cu sch stored \<longleftrightarrow>
     (\<forall>sql ps s. cu_extract cu sql = Inr [SelectStmt] \<longrightarrow> stored (snd (cu_execute cu sql ps s)) = stored s) \<and>
     (\<forall>spec \<in> set (sc_tables sch). \<forall>a b sql ps s. view_text spec a b = Inr sql \<longrightarrow>
        stored (snd (cu_execute cu sql ps s)) = stored s) \<and>
     (\<forall>ps s. stored (snd (cu_execute cu empty_bridge ps s)) = stored s) \<and>
     (\<forall>b s. stored (snd (cu_read_json cu b s)) = stored s)"

definition keeps :: "('c \<Rightarrow> 'd) \<Rightarrow> ('c, exn, 'a) sm \<Rightarrow> bool" where
  "keeps stored m \<longleftrightarrow> (\<forall>s. stored (snd (m s)) = stored s)"

lemma keeps_basic [simp]: "keeps st (returnM a)" "keeps st (raiseM e)" "keeps st (liftM r)"
  by (simp_all add: keeps_def)

lemma keeps_bind: "keeps st m \<Longrightarrow> (\<And>a s t. m s = (Inr a, t) \<Longrightarrow> keeps st (f a)) \<Longrightarrow> keeps st (bindM m f)"
  unfolding keeps_def bindM_def by (auto split: prod.splits sum.splits) (metis snd_conv)+

lemma keeps_catch: "keeps st m \<Longrightarrow> keeps st (catch_duck m)"
  unfolding keeps_def catch_duck_def by (auto split: prod.splits sum.splits) (metis snd_conv)+

lemma keeps_forM: "(\<And>x. x \<in> set xs \<Longrightarrow> keeps st (f x)) \<Longrightarrow> keeps st (forM f xs)"
  by (induction xs) (auto intro!: keeps_bind)

lemma keeps_fetch: "reads_only cu sch st \<Longrightarrow> cu_extract cu sql = Inr [SelectStmt] \<Longrightarrow> keeps st (fetch_rows cu sql ps)"
  unfolding fetch_rows_def by (rule keeps_bind) (auto simp: keeps_def reads_only_def)

lemma one_select: "length stmts = Suc 0 \<Longrightarrow> stmts ! 0 = SelectStmt \<Longrightarrow> stmts = [SelectStmt]"
  by (cases stmts) auto

lemma keeps_views: "reads_only cu sch st \<Longrightarrow> keeps st (install_views cu sch a b)"
  unfolding install_views_def
  by (intro keeps_forM keeps_bind) (auto simp: keeps_def reads_only_def)

lemma keeps_guarded: "reads_only cu sch st \<Longrightarrow> keeps st (guarded_select cu sql ps)"
  unfolding guarded_select_def
  by (intro keeps_catch keeps_bind) (auto intro: keeps_fetch dest: one_select)

lemma keeps_bridge: "reads_only cu sch st \<Longrightarrow> keeps st (load_bridge cu b)"
  unfolding load_bridge_def
  by (auto intro!: keeps_catch keeps_bind) (auto simp: keeps_def reads_only_def)

lemma keeps_phases: "reads_only cu sch st \<Longrightarrow> keeps st (run_phases cu chain ph rows)"
  by (induction cu chain ph rows rule: run_phases.induct)
    (auto intro!: keeps_bind intro: keeps_guarded keeps_bridge)

lemma keeps_run_query: "reads_only cu sch st \<Longrightarrow> keeps st (run_query cu sch sql ps a b)"
  unfolding run_query_def
  by (intro keeps_bind) (auto intro!: keeps_catch keeps_bind intro: keeps_views keeps_fetch
      dest: one_select simp: catch_duck_def split: sum.splits)

lemma keeps_exec: "reads_only cu sch st \<Longrightarrow> keeps st (exec_plan cu sch chain a b p)"
  unfolding exec_plan_def run_plan_def
  by (auto split: plan.splits intro!: keeps_bind keeps_phases intro: keeps_run_query keeps_views)

end
