(* ===== verification/Plan_Props.thy ===== *)
theory Plan_Props
  imports Plan_Exec Sample_Data
begin

text \<open>
  The promises of a query's execution: it never writes, and rows cross the seam to the processes
  and back unchanged.
\<close>

section \<open>Reads never write\<close>


text \<open>A small engine: its stored number counts the statements that write, its list holds the
  temporary objects.\<close>

definition sample_cursor :: "(string list \<times> nat) cursor" where
  "sample_cursor = \<lparr>
     cu_extract = (\<lambda>sql. Inr [if starts_with ''SELECT'' sql \<or> starts_with ''WITH'' sql then SelectStmt else OtherStmt]),
     cu_execute = (\<lambda>sql ps (temp, n).
        if starts_with ''SELECT'' sql \<or> starts_with ''WITH'' sql then (Inr ([''id'', ''n''], [[PStr ''a'', PInt (int n)]]), (temp, n))
        else if starts_with ''CREATE OR REPLACE TEMP'' sql then (Inr ([], []), (sql # temp, n))
        else (Inr ([], []), (temp, n + 1))),
     cu_read_json = (\<lambda>b (temp, n). (Inr (), (b # temp, n)))\<rparr>"

lemma sample_cursor_reads: "reads_only sample_cursor sch snd"
  by (auto simp: reads_only_def sample_cursor_def view_text_def bindR_Inr_iff empty_bridge_def starts_with_def split: if_splits)


section \<open>The seam\<close>

lemma jsonl_roundtrip:
  "list_all (\<lambda>d. wf_json (PDict d)) rows \<Longrightarrow> jsonl_to_rows (rows_to_jsonl (map PDict rows)) = Inr rows"
proof (induction rows)
  case Nil
  then show ?case by (simp add: jsonl_to_rows_def rows_to_jsonl_def byte_lines_def)
next
  case (Cons d rows)
  let ?t = "utf8_encode (json_text json_char_raw (PDict d))"
  have wf: "wf_json (PDict d)" using Cons.prems by simp
  have nl: "newline \<notin> set ?t" "CHR 0x0D \<notin> set ?t" using utf8_no_nl [OF printable_text [OF wf]] by blast+
  have "rows_to_jsonl (map PDict (d # rows)) = ?t @ newline # rows_to_jsonl (map PDict rows)"
    using json_default_str_id [OF wf_json_ok [OF wf]] by (simp add: rows_to_jsonl_def del: json_default_str.simps json_text.simps)
  then have "byte_lines (rows_to_jsonl (map PDict (d # rows))) = ?t # byte_lines (rows_to_jsonl (map PDict rows))"
    using bsplit_line [OF nl, of "[]"] by (simp add: byte_lines_def del: json_text.simps)
  then show ?case
    using Cons row_of_written [OF wf] by (simp add: jsonl_to_rows_def del: json_text.simps)
qed

lemma identity_tail:
  assumes "run_phases cu chain (ph @ [DuckPhase sql ps]) r0 s = (Inr rows, t)" and "list_all (\<lambda>d. wf_json (PDict d)) rows"
    and "\<forall>b. chain argvs b = Inr b"
  shows "run_phases cu chain (ph @ [DuckPhase sql ps, BashPhase argvs]) r0 s = (Inr rows, t)"
  using assms(1)
proof (induction ph arbitrary: r0 s)
  case Nil
  then have "guarded_select cu sql ps s = (Inr rows, t)" by (auto simp: bindM_Inr rows_or_empty_def)
  then show ?case using assms(3) jsonl_roundtrip [OF assms(2)] by (simp add: rows_or_empty_def)
next
  case (Cons p ph)
  then show ?case by (cases p) (auto simp: bindM_Inr)
qed

text \<open>A process that copies its input at the end of a plan changes nothing: the rows of the last statement
  are written as JSON lines, read back and returned as they were.\<close>

lemma seam_keeps_rows:
  assumes "run_plan cu sch chain (ph @ [DuckPhase sql ps]) ds_start ds_end s = (Inr rows, t)"
    and "list_all (\<lambda>d. wf_json (PDict d)) rows" and "\<forall>b. chain argvs b = Inr b"
  shows "run_plan cu sch chain (ph @ [DuckPhase sql ps, BashPhase argvs]) ds_start ds_end s = (Inr rows, t)"
proof -
  have "run_phases cu chain (ph @ [DuckPhase sql ps, BashPhase argvs]) r0 u = (Inr rows, t)"
    if "run_phases cu chain (ph @ [DuckPhase sql ps]) r0 u = (Inr rows, t)" for r0 u
    using identity_tail [OF that assms(2)] assms(3) by blast
  then show ?thesis using assms(1) by (auto simp: run_plan_def bindM_Inr)
qed

definition cat :: command where
  "cat argv b = (if argv = [''cat''] then Some \<lparr>pe_time = Some 0, pe_code = 0, pe_out = b, pe_err = []\<rparr> else None)"

definition cat_chain :: "string list list \<Rightarrow> string \<Rightarrow> string res" where
  "cat_chain argvs b = (case run_bash_chain cat argvs b 30 of Some r \<Rightarrow> r | None \<Rightarrow> raise OSErr ''no answer'')"

section \<open>The deadline of a chain\<close>

text \<open>The timeout guards the last process only: one before it that never ends, behind a last one that
  ends at once, keeps the call waiting for ever.\<close>

lemma chain_hangs:
  assumes "start_chain cmd argvs stdin = Inr ps" and "ps \<noteq> []" and "in_time tmo (last ps)"
    and "p \<in> set (butlast ps)" and "pe_time p = None"
  shows "run_bash_chain cmd argvs stdin tmo = None"
  using assms by (auto simp: run_bash_chain_def)

definition sleeper :: command where
  "sleeper argv b = Some \<lparr>pe_time = (if argv = [''sh'', ''-c'', ''sleep infinity''] then None else Some 0),
     pe_code = 0, pe_out = [], pe_err = []\<rparr>"

lemma chain_hangs_sample:
  "run_bash_chain sleeper [[''sh'', ''-c'', ''sleep infinity''], [''sh'', ''-c'', ''true'']] [] 30 = None"
  by (rule chain_hangs) (auto simp: sleeper_def in_time_def)

end
