(* ===== verification/Http_Api.thy ===== *)
theory Http_Api
  imports Task_Record Bytes_Text
begin

text \<open>
  The HTTP surface: \<open>api/_route.py\<close> (path matching), \<open>api/__init__.py\<close> (the endpoint table and
  \<open>resolve\<close>), the handlers of \<open>api/*.py\<close> and the ASGI shell of \<open>server.py\<close>. The services behind the
  handlers are a record of state-passing operations on the dynamically typed values that a JSON
  body can hold.
\<close>

section \<open>Services\<close>

text \<open>
  The arguments of \<open>read.query\<close> and of the background query: text, parameters, window. A service
  call is an effect that may raise.
\<close>

record query_args =
  qa_sql :: pyval
  qa_params :: pyval
  qa_start :: pyval
  qa_end :: pyval

record 's services =
  sv_query :: "query_args \<Rightarrow> ('s, exn, pyrow) sm"
  sv_submit :: "query_args \<Rightarrow> ('s, exn, task) sm"
  sv_adopt :: "query_args \<Rightarrow> ('s, exn, task) sm"
  sv_insert :: "pyval \<Rightarrow> pyval \<Rightarrow> ('s, exn, task) sm"
  sv_delete :: "pyval \<Rightarrow> pyval \<Rightarrow> pyval \<Rightarrow> ('s, exn, task) sm"
  sv_status :: "string \<Rightarrow> ('s, exn, task) sm"
  sv_list :: "int \<Rightarrow> ('s, exn, task list) sm"
  sv_result :: "string \<Rightarrow> ('s, exn, pyval list) sm"
  sv_cancel :: "string \<Rightarrow> ('s, exn, task) sm"
  sv_rebuild :: "('s, exn, task) sm"

section \<open>Routing\<close>

datatype route = RQuery | RInsert | RDelete | RResult | RCancel | RStatus | RList | RWrites | RRebuild | RHealth

record endpoint =
  ep_method :: string
  ep_path :: string
  ep_route :: route

definition segments_of :: "string \<Rightarrow> string list" where
  "segments_of p = split_on (CHR ''/'') (strip_by (\<lambda>c. c = CHR ''/'') p)"

text \<open>The loop over \<open>zip(t, p)\<close>.\<close>

fun match_segments :: "(string, string) dict \<Rightarrow> (string \<times> string) list \<Rightarrow> (string, string) dict option" where
  "match_segments params [] = Some params"
| "match_segments params ((t, p) # rest) =
     (if starts_with ''{'' t \<and> ends_with ''}'' t then match_segments (dict_set params (butlast (tl t)) p) rest
      else if t \<noteq> p then None
      else match_segments params rest)"

definition match_path :: "string \<Rightarrow> string \<Rightarrow> (string, string) dict option" where
  "match_path template path =
     (let t = segments_of template; p = segments_of path in
      if length t \<noteq> length p then None else match_segments [] (zip t p))"

definition ENDPOINTS :: "endpoint list" where
  "ENDPOINTS = map (\<lambda>(m, p, r). \<lparr>ep_method = m, ep_path = p, ep_route = r\<rparr>)
     [(''POST'', ''/v1/query'', RQuery),
      (''POST'', ''/v1/insert'', RInsert),
      (''POST'', ''/v1/delete'', RDelete),
      (''GET'', ''/v1/tasks/{id}/result'', RResult),
      (''POST'', ''/v1/tasks/{id}/cancel'', RCancel),
      (''GET'', ''/v1/tasks/{id}'', RStatus),
      (''GET'', ''/v1/tasks'', RList),
      (''GET'', ''/v1/writes/{ticket}'', RWrites),
      (''POST'', ''/v1/rebuild'', RRebuild),
      (''GET'', ''/v1/health'', RHealth)]"

fun resolve_in :: "endpoint list \<Rightarrow> string \<Rightarrow> string \<Rightarrow> (route \<times> (string, string) dict) option" where
  "resolve_in [] mth path = None"
| "resolve_in (ep # eps) mth path =
     (if ep_method ep = mth then
        (case match_path (ep_path ep) path of
           Some params \<Rightarrow> Some (ep_route ep, params)
         | None \<Rightarrow> resolve_in eps mth path)
      else resolve_in eps mth path)"

definition resolve :: "string \<Rightarrow> string \<Rightarrow> (route \<times> (string, string) dict) option" where
  "resolve = resolve_in ENDPOINTS"

section \<open>Handlers\<close>

text \<open>\<open>body.get(k)\<close> and \<open>body.get(k) or []\<close> on whatever the body was.\<close>

definition body_get :: "pyval \<Rightarrow> string \<Rightarrow> pyval res" where
  "body_get body k = (case body of PDict d \<Rightarrow> Inr (dict_get d k) | _ \<Rightarrow> raise PyAttributeError ''get'')"

definition or_list :: "pyval \<Rightarrow> pyval" where
  "or_list v = (if truthy v then v else PList [])"

text \<open>\<open>float(text)\<close>: what it accepts, white space around it, underscores between digits.\<close>

fun digit_part :: "bool \<Rightarrow> string \<Rightarrow> bool" where
  "digit_part after [] = after"
| "digit_part after (c # cs) =
     (if is_ascii_digit c then digit_part True cs
      else if c = CHR ''_'' \<and> after then digit_part False cs
      else False)"

definition drop_sign :: "string \<Rightarrow> string" where
  "drop_sign s = (case s of c # cs \<Rightarrow> if c = CHR ''+'' \<or> c = CHR ''-'' then cs else s | [] \<Rightarrow> [])"

definition mantissa_ok :: "string \<Rightarrow> bool" where
  "mantissa_ok s = (case split_on (CHR ''.'') s of
       [a] \<Rightarrow> digit_part False a
     | [a, b] \<Rightarrow> (a = [] \<or> digit_part False a) \<and> (b = [] \<or> digit_part False b) \<and> (a \<noteq> [] \<or> b \<noteq> [])
     | _ \<Rightarrow> False)"

definition py_float_text :: "string \<Rightarrow> bool" where
  "py_float_text s = (let t = py_lower (drop_sign (py_strip s)) in
     t \<in> {''inf'', ''infinity'', ''nan''} \<or>
     (case split_on (CHR ''e'') t of
        [m] \<Rightarrow> mantissa_ok m
      | [m, x] \<Rightarrow> mantissa_ok m \<and> digit_part False (drop_sign x)
      | _ \<Rightarrow> False))"

definition py_float_ok :: "pyval \<Rightarrow> unit res" where
  "py_float_ok v = (case v of
       PInt i \<Rightarrow> if \<bar>i\<bar> < 2 ^ 1024 - 2 ^ 970 then Inr ()
         else raise PyOverflowError ''int too large to convert to float''
     | PBool b \<Rightarrow> Inr ()
     | PFloat s \<Rightarrow> Inr ()
     | PStr s \<Rightarrow> if py_float_text s then Inr () else raise PyValueError ''could not convert string to float''
     | _ \<Rightarrow> raise PyTypeError ''float() argument'')"

definition wait_value :: "pyval \<Rightarrow> pyval" where
  "wait_value body = (case body of
       PDict d \<Rightarrow> (case map_of d ''wait_ms'' of None \<Rightarrow> PInt 5000 | Some v \<Rightarrow> v) | _ \<Rightarrow> PNone)"

definition query_args_of :: "pyval \<Rightarrow> query_args res" where
  "query_args_of body =
     bindR (body_get body ''sql'') (\<lambda>sql. bindR (body_get body ''params'') (\<lambda>ps.
     bindR (body_get body ''ds_start'') (\<lambda>a. bindR (body_get body ''ds_end'') (\<lambda>b.
     Inr \<lparr>qa_sql = sql, qa_params = or_list ps, qa_start = a, qa_end = b\<rparr>))))"

text \<open>\<open>late\<close>: the query outlives its \<open>wait_ms\<close>.\<close>

definition handle_query :: "'s services \<Rightarrow> bool \<Rightarrow> pyval \<Rightarrow> ('s, exn, nat \<times> pyval) sm" where
  "handle_query sv late body =
     bindM (liftM (query_args_of body)) (\<lambda>qa.
     bindM (liftM (body_get body ''as_task'')) (\<lambda>bg.
     if truthy bg then bindM (sv_submit sv qa) (\<lambda>t. returnM (202, PDict (to_wire t)))
     else bindM (liftM (py_float_ok (wait_value body))) (\<lambda>_.
       if late then bindM (sv_adopt sv qa) (\<lambda>t. returnM (202, PDict (to_wire t)))
       else bindM (sv_query sv qa) (\<lambda>r. returnM (200, PDict r)))))"

definition task_reply :: "('s, exn, task) sm \<Rightarrow> ('s, exn, nat \<times> pyval) sm" where
  "task_reply m = bindM m (\<lambda>t. returnM (200, PDict (to_wire t)))"

definition path_param :: "(string, string) dict \<Rightarrow> string \<Rightarrow> string res" where
  "path_param params k = (case map_of params k of None \<Rightarrow> raise PyKeyError k | Some v \<Rightarrow> Inr v)"

definition insert_handler :: "'s services \<Rightarrow> pyval \<Rightarrow> ('s, exn, nat \<times> pyval) sm" where
  "insert_handler sv body =
     bindM (liftM (body_get body ''table'')) (\<lambda>t. bindM (liftM (body_get body ''rows'')) (\<lambda>rs.
     task_reply (sv_insert sv t (or_list rs))))"

definition delete_handler :: "'s services \<Rightarrow> pyval \<Rightarrow> ('s, exn, nat \<times> pyval) sm" where
  "delete_handler sv body =
     bindM (liftM (body_get body ''table'')) (\<lambda>t. bindM (liftM (body_get body ''where'')) (\<lambda>w.
     bindM (liftM (body_get body ''params'')) (\<lambda>ps. task_reply (sv_delete sv t w (or_list ps)))))"

definition list_handler :: "'s services \<Rightarrow> ('s, exn, nat \<times> pyval) sm" where
  "list_handler sv =
     bindM (sv_list sv 50) (\<lambda>ts. returnM (200, PDict [(''tasks'', PList (map (\<lambda>t. PDict (to_wire t)) ts))]))"

definition status_handler :: "'s services \<Rightarrow> (string, string) dict \<Rightarrow> ('s, exn, nat \<times> pyval) sm" where
  "status_handler sv params = bindM (liftM (path_param params ''id'')) (\<lambda>i. task_reply (sv_status sv i))"

definition result_handler :: "'s services \<Rightarrow> (string, string) dict \<Rightarrow> ('s, exn, nat \<times> pyval) sm" where
  "result_handler sv params = bindM (liftM (path_param params ''id'')) (\<lambda>i.
     bindM (sv_result sv i) (\<lambda>rs. returnM (200, PDict [(''rows'', PList rs)])))"

definition cancel_handler :: "'s services \<Rightarrow> (string, string) dict \<Rightarrow> ('s, exn, nat \<times> pyval) sm" where
  "cancel_handler sv params = bindM (liftM (path_param params ''id'')) (\<lambda>i. task_reply (sv_cancel sv i))"

text \<open>The write service's \<open>status\<close> is the task service's.\<close>

definition writes_handler :: "'s services \<Rightarrow> (string, string) dict \<Rightarrow> ('s, exn, nat \<times> pyval) sm" where
  "writes_handler sv params = bindM (liftM (path_param params ''ticket'')) (\<lambda>i. task_reply (sv_status sv i))"

definition rebuild_handler :: "'s services \<Rightarrow> ('s, exn, nat \<times> pyval) sm" where
  "rebuild_handler sv = task_reply (sv_rebuild sv)"

text \<open>\<open>db.ready\<close> of an embedded database.\<close>

definition health_handler :: "('s, exn, nat \<times> pyval) sm" where
  "health_handler = returnM (200, PDict [(''ready'', PBool True)])"

fun handle :: "'s services \<Rightarrow> bool \<Rightarrow> route \<Rightarrow> pyval \<Rightarrow> (string, string) dict \<Rightarrow> ('s, exn, nat \<times> pyval) sm" where
  "handle sv late RQuery body params = handle_query sv late body"
| "handle sv late RInsert body params = insert_handler sv body"
| "handle sv late RDelete body params = delete_handler sv body"
| "handle sv late RResult body params = result_handler sv params"
| "handle sv late RCancel body params = cancel_handler sv params"
| "handle sv late RStatus body params = status_handler sv params"
| "handle sv late RList body params = list_handler sv"
| "handle sv late RWrites body params = writes_handler sv params"
| "handle sv late RRebuild body params = rebuild_handler sv"
| "handle sv late RHealth body params = health_handler"

lemmas handlers = insert_handler_def delete_handler_def list_handler_def status_handler_def result_handler_def
  cancel_handler_def rebuild_handler_def

section \<open>The ASGI shell\<close>

record http_request =
  hq_method :: string
  hq_path :: string
  hq_headers :: "(string \<times> string) list"
  hq_body :: "(string \<times> bool) list"

text \<open>The messages of a body are read until one says that no more follows.\<close>

fun read_body :: "(string \<times> bool) list \<Rightarrow> string" where
  "read_body [] = []"
| "read_body ((b, again) # rest) = b @ (if again then read_body rest else [])"

definition read_json :: "(string \<times> bool) list \<Rightarrow> pyval res" where
  "read_json msgs = (let b = read_body msgs in
     if b = [] then Inr (PDict [])
     else (case json_loads_bytes b of None \<Rightarrow> raise PyValueError ''JSONDecodeError'' | Some v \<Rightarrow> Inr v))"

definition send_json :: "nat \<Rightarrow> pyval \<Rightarrow> (nat \<times> string) res" where
  "send_json st obj = (case json_dumps obj of
       None \<Rightarrow> raise PyTypeError ''not JSON serializable'' | Some s \<Rightarrow> Inr (st, utf8_encode s))"

definition error_reply :: "nat \<Rightarrow> string \<Rightarrow> string \<Rightarrow> (nat \<times> string) res" where
  "error_reply st ty msg = send_json st (PDict [(''error'', PDict [(''type'', PStr ty), (''message'', PStr msg)])])"

definition authorized :: "string option \<Rightarrow> (string \<times> string) list \<Rightarrow> bool res" where
  "authorized api_key headers = (case api_key of
       None \<Rightarrow> Inr True
     | Some k \<Rightarrow> (case utf8_decode (case map_of (rev headers) ''authorization'' of None \<Rightarrow> [] | Some v \<Rightarrow> v) of
           None \<Rightarrow> raise PyValueError ''UnicodeDecodeError''
         | Some v \<Rightarrow> Inr (v = ''Bearer '' @ k)))"

text \<open>\<open>app\<close>: a result is the response sent; an \<open>Inl\<close> is an exception that leaves the application.\<close>

definition handler_reply :: "'s services \<Rightarrow> bool \<Rightarrow> route \<Rightarrow> pyval \<Rightarrow> (string, string) dict \<Rightarrow> ('s, exn, nat \<times> string) sm" where
  "handler_reply sv late r body params s = (case handle sv late r body params s of
       (Inl e, t) \<Rightarrow>
         (if is_seekbase (exn_class e) then send_json (status_for e) (PDict [(''error'', PDict (error_body e))])
          else error_reply 500 ''Internal'' (exn_msg e), t)
     | (Inr (st, obj), t) \<Rightarrow> (send_json st obj, t))"

definition app :: "'s services \<Rightarrow> string option \<Rightarrow> bool \<Rightarrow> http_request \<Rightarrow> ('s, exn, nat \<times> string) sm" where
  "app sv api_key late q =
     bindM (liftM (authorized api_key (hq_headers q))) (\<lambda>ok.
     if \<not> ok then liftM (error_reply 401 ''Unauthorized'' ''bad api key'')
     else (case resolve (hq_method q) (hq_path q) of
         None \<Rightarrow> liftM (error_reply 404 ''NotFound'' (hq_path q))
       | Some (r, params) \<Rightarrow>
           bindM (liftM (if hq_method q = ''POST'' then read_json (hq_body q) else Inr (PDict []))) (\<lambda>body.
           handler_reply sv late r body params)))"

end
