(* ===== verification/Client_Port.thy ===== *)
theory Client_Port
  imports Http_Api Task_Service
begin

text \<open>
  The client: the \<open>Request\<close> of \<open>struct/request.py\<close>, its local execution (\<open>LocalExecutor\<close> of
  \<open>client.py\<close>), its remote execution (\<open>HttpExecutor\<close> of \<open>api/remote.py\<close>) and what the methods of
  \<open>Seekbase\<close> make of an executor's result. The HTTP library is a parameter.
\<close>

section \<open>Requests\<close>

record request =
  rq_op :: string
  rq_sql :: "string option"
  rq_params :: "pyval list"
  rq_start :: "string option"
  rq_end :: "string option"
  rq_table :: "string option"
  rq_rows :: "pyrow list"
  rq_where :: "string option"
  rq_as_task :: bool
  rq_ticket :: "string option"
  rq_limit :: int

definition mk_request :: "string \<Rightarrow> request" where
  "mk_request opn = \<lparr>rq_op = opn, rq_sql = None, rq_params = [], rq_start = None, rq_end = None,
     rq_table = None, rq_rows = [], rq_where = None, rq_as_task = False, rq_ticket = None, rq_limit = 50\<rparr>"

definition opt_str :: "string option \<Rightarrow> pyval" where
  "opt_str v = (case v of None \<Rightarrow> PNone | Some s \<Rightarrow> PStr s)"

text \<open>What an executor returns: the dictionary of a reply, a task, a list of tasks.\<close>

datatype result = ResDict pyval | ResTask task | ResTasks "task list"

type_synonym 's executor = "request \<Rightarrow> ('s, exn, result) sm"

section \<open>The local executor\<close>

definition local_args :: "request \<Rightarrow> query_args" where
  "local_args rq = \<lparr>qa_sql = opt_str (rq_sql rq), qa_params = PList (rq_params rq),
     qa_start = opt_str (rq_start rq), qa_end = opt_str (rq_end rq)\<rparr>"

text \<open>The tasks are looked up by \<open>req.ticket\<close>; \<open>None\<close> there is no task id.\<close>

definition ticket_of :: "request \<Rightarrow> string res" where
  "ticket_of rq = (case rq_ticket rq of None \<Rightarrow> raise PyTypeError ''expected string'' | Some i \<Rightarrow> Inr i)"

definition task_result_of :: "('s, exn, task) sm \<Rightarrow> ('s, exn, result) sm" where
  "task_result_of m = bindM m (\<lambda>t. returnM (ResTask t))"

definition local_execute :: "'s services \<Rightarrow> 's executor" where
  "local_execute sv rq =
     (if rq_op rq = ''query'' then
        if rq_as_task rq then task_result_of (sv_submit sv (local_args rq))
        else bindM (sv_query sv (local_args rq)) (\<lambda>r. returnM (ResDict (PDict r)))
      else if rq_op rq = ''insert'' then
        task_result_of (sv_insert sv (opt_str (rq_table rq)) (PList (map PDict (rq_rows rq))))
      else if rq_op rq = ''delete'' then
        task_result_of (sv_delete sv (opt_str (rq_table rq)) (opt_str (rq_where rq)) (PList (rq_params rq)))
      else if rq_op rq = ''status'' then bindM (liftM (ticket_of rq)) (\<lambda>i. task_result_of (sv_status sv i))
      else if rq_op rq = ''tasks'' then bindM (sv_list sv (rq_limit rq)) (\<lambda>ts. returnM (ResTasks ts))
      else if rq_op rq = ''task_result'' then
        bindM (liftM (ticket_of rq)) (\<lambda>i. bindM (sv_result sv i) (\<lambda>rs. returnM (ResDict (PDict [(''rows'', PList rs)]))))
      else if rq_op rq = ''task_cancel'' then bindM (liftM (ticket_of rq)) (\<lambda>i. task_result_of (sv_cancel sv i))
      else if rq_op rq = ''rebuild'' then task_result_of (sv_rebuild sv)
      else raiseM (Exn QueryError ''unknown op''))"

section \<open>The remote executor\<close>

text \<open>
  The HTTP library and the server's runner: the path that arrives for a URL, the bytes of a JSON
  body and how they are cut into messages, the headers that arrive for the default ones, and the response to a
  request whose application raised.
\<close>

record transport =
  tp_path :: "string \<Rightarrow> string"
  tp_json :: "pyval \<Rightarrow> string"
  tp_chunks :: "string \<Rightarrow> (string \<times> bool) list"
  tp_headers :: "(string \<times> string) list \<Rightarrow> (string \<times> string) list"
  tp_crash :: "exn \<Rightarrow> nat \<times> string"

text \<open>The default headers that \<open>HttpExecutor\<close> gives its client.\<close>

definition client_headers :: "string option \<Rightarrow> (string \<times> string) list" where
  "client_headers key = (case key of None \<Rightarrow> [] | Some k \<Rightarrow> [(''Authorization'', ''Bearer '' @ k)])"

type_synonym 's server = "http_request \<Rightarrow> ('s, exn, nat \<times> string) sm"

definition send :: "transport \<Rightarrow> 's server \<Rightarrow> http_request \<Rightarrow> ('s, exn, nat \<times> string) sm" where
  "send tp srv q s = (case srv q s of (Inl e, t) \<Rightarrow> (Inr (tp_crash tp e), t) | (Inr r, t) \<Rightarrow> (Inr r, t))"

definition unwrap :: "nat \<times> string \<Rightarrow> pyval res" where
  "unwrap = (\<lambda>(st, b). (case json_loads_bytes b of
       None \<Rightarrow> raise PyValueError ''JSONDecodeError''
     | Some data \<Rightarrow>
         if 400 \<le> st then
           (case data of
              PDict d \<Rightarrow> (case (case map_of d ''error'' of None \<Rightarrow> PDict [] | Some v \<Rightarrow> v) of
                  PDict err \<Rightarrow> bindR (exception_from err) (\<lambda>e. Inl e)
                | _ \<Rightarrow> raise PyAttributeError ''get'')
            | _ \<Rightarrow> raise PyAttributeError ''get'')
         else Inr data))"

definition http_post :: "transport \<Rightarrow> 's server \<Rightarrow> string option \<Rightarrow> string \<Rightarrow> pyrow \<Rightarrow> ('s, exn, pyval) sm" where
  "http_post tp srv key path body =
     bindM (send tp srv \<lparr>hq_method = ''POST'', hq_path = tp_path tp path, hq_headers = tp_headers tp (client_headers key),
        hq_body = tp_chunks tp (tp_json tp (PDict body))\<rparr>) (\<lambda>r. liftM (unwrap r))"

definition http_get :: "transport \<Rightarrow> 's server \<Rightarrow> string option \<Rightarrow> string \<Rightarrow> ('s, exn, pyval) sm" where
  "http_get tp srv key path =
     bindM (send tp srv \<lparr>hq_method = ''GET'', hq_path = tp_path tp path, hq_headers = tp_headers tp (client_headers key),
        hq_body = [([], False)]\<rparr>) (\<lambda>r. liftM (unwrap r))"

definition wire_task :: "pyval \<Rightarrow> task res" where
  "wire_task v = (case v of PDict d \<Rightarrow> from_wire d | _ \<Rightarrow> raise PyAttributeError ''get'')"

definition wire_tasks :: "pyval \<Rightarrow> task list res" where
  "wire_tasks v = (case v of
       PDict d \<Rightarrow> (case map_of d ''tasks'' of
           None \<Rightarrow> raise PyKeyError ''tasks''
         | Some ts \<Rightarrow> bindR (iterate ts) (mapR wire_task))
     | _ \<Rightarrow> raise PyTypeError ''indices'')"

definition query_body :: "request \<Rightarrow> pyrow" where
  "query_body rq =
     [(''sql'', opt_str (rq_sql rq)), (''params'', PList (rq_params rq)),
      (''ds_start'', opt_str (rq_start rq)), (''ds_end'', opt_str (rq_end rq))] @
     (if rq_as_task rq then [(''as_task'', PBool True)] else [])"

definition task_path :: "request \<Rightarrow> string" where
  "task_path rq = ''/v1/tasks/'' @ (case rq_ticket rq of None \<Rightarrow> ''None'' | Some i \<Rightarrow> i)"

definition as_task :: "('s, exn, pyval) sm \<Rightarrow> ('s, exn, result) sm" where
  "as_task m = bindM m (\<lambda>v. bindM (liftM (wire_task v)) (\<lambda>t. returnM (ResTask t)))"

definition http_execute :: "transport \<Rightarrow> 's server \<Rightarrow> string option \<Rightarrow> 's executor" where
  "http_execute tp srv key rq =
     (if rq_op rq = ''query'' then bindM (http_post tp srv key ''/v1/query'' (query_body rq)) (\<lambda>v. returnM (ResDict v))
      else if rq_op rq = ''insert'' then
        as_task (http_post tp srv key ''/v1/insert''
          [(''table'', opt_str (rq_table rq)), (''rows'', PList (map PDict (rq_rows rq)))])
      else if rq_op rq = ''delete'' then
        as_task (http_post tp srv key ''/v1/delete''
          [(''table'', opt_str (rq_table rq)), (''where'', opt_str (rq_where rq)), (''params'', PList (rq_params rq))])
      else if rq_op rq = ''status'' then as_task (http_get tp srv key (task_path rq))
      else if rq_op rq = ''tasks'' then
        bindM (http_get tp srv key ''/v1/tasks'') (\<lambda>v. bindM (liftM (wire_tasks v)) (\<lambda>ts. returnM (ResTasks ts)))
      else if rq_op rq = ''task_result'' then
        bindM (http_get tp srv key (task_path rq @ ''/result'')) (\<lambda>v. returnM (ResDict v))
      else if rq_op rq = ''task_cancel'' then as_task (http_post tp srv key (task_path rq @ ''/cancel'') [])
      else if rq_op rq = ''rebuild'' then as_task (http_post tp srv key ''/v1/rebuild'' [])
      else raiseM (Exn QueryError ''unknown op''))"

section \<open>The methods of Seekbase\<close>

datatype answer = Rows pyval | TaskId pyval | ATask task | ATasks "task list"

definition item :: "pyval \<Rightarrow> string \<Rightarrow> pyval res" where
  "item v k = (case v of
       PDict d \<Rightarrow> (case map_of d k of None \<Rightarrow> raise PyKeyError k | Some w \<Rightarrow> Inr w)
     | _ \<Rightarrow> raise PyTypeError ''indices'')"

definition has_key :: "result \<Rightarrow> string \<Rightarrow> bool" where
  "has_key r k = (case r of ResDict (PDict d) \<Rightarrow> map_of d k \<noteq> None | _ \<Rightarrow> False)"

definition res_item :: "result \<Rightarrow> string \<Rightarrow> pyval res" where
  "res_item r k = (case r of ResDict v \<Rightarrow> item v k | _ \<Rightarrow> raise PyTypeError ''not subscriptable'')"

definition task_id_of :: "result \<Rightarrow> answer res" where
  "task_id_of r = (case r of ResTask t \<Rightarrow> Inr (TaskId (t_id t)) | _ \<Rightarrow> raise PyAttributeError ''id'')"

definition as_answer :: "result \<Rightarrow> answer res" where
  "as_answer r = (case r of ResTask t \<Rightarrow> Inr (ATask t) | ResTasks ts \<Rightarrow> Inr (ATasks ts) | ResDict v \<Rightarrow> Inr (Rows v))"

text \<open>What the method that built the request returns of the executor's result.\<close>

definition port_answer :: "request \<Rightarrow> result \<Rightarrow> answer res" where
  "port_answer rq r =
     (if rq_op rq = ''query'' then
        if rq_as_task rq \<or> has_key r ''task''
        then (case r of ResTask t \<Rightarrow> Inr (TaskId (t_id t))
              | _ \<Rightarrow> bindR (res_item r ''task'') (\<lambda>v. Inr (TaskId v)))
        else bindR (res_item r ''rows'') (\<lambda>v. Inr (Rows v))
      else if rq_op rq \<in> {''insert'', ''delete'', ''rebuild''} then task_id_of r
      else if rq_op rq = ''task_result'' then bindR (res_item r ''rows'') (\<lambda>v. Inr (Rows v))
      else as_answer r)"

definition seekbase_call :: "'s executor \<Rightarrow> request \<Rightarrow> ('s, exn, answer) sm" where
  "seekbase_call ex rq = bindM (ex rq) (\<lambda>r. liftM (port_answer rq r))"

definition sb_query ::
    "string \<Rightarrow> pyval list option \<Rightarrow> string option \<Rightarrow> string option \<Rightarrow> bool \<Rightarrow> request" where
  "sb_query sql params a b bg = (mk_request ''query'')\<lparr>rq_sql := Some sql,
     rq_params := (case params of None \<Rightarrow> [] | Some ps \<Rightarrow> ps), rq_start := a, rq_end := b, rq_as_task := bg\<rparr>"

definition sb_insert :: "string \<Rightarrow> pyrow + pyrow list \<Rightarrow> request" where
  "sb_insert table rs = (mk_request ''insert'')\<lparr>rq_table := Some table,
     rq_rows := (case rs of Inl d \<Rightarrow> [d] | Inr ds \<Rightarrow> ds)\<rparr>"

definition sb_delete :: "string \<Rightarrow> string \<Rightarrow> pyval list option \<Rightarrow> request" where
  "sb_delete table wh params = (mk_request ''delete'')\<lparr>rq_table := Some table, rq_where := Some wh,
     rq_params := (case params of None \<Rightarrow> [] | Some ps \<Rightarrow> ps)\<rparr>"

definition sb_rebuild :: request where
  "sb_rebuild = mk_request ''rebuild''"

definition sb_task :: "string \<Rightarrow> string \<Rightarrow> request" where
  "sb_task opn i = (mk_request opn)\<lparr>rq_ticket := Some i\<rparr>"

definition sb_tasks :: "int \<Rightarrow> request" where
  "sb_tasks n = (mk_request ''tasks'')\<lparr>rq_limit := n\<rparr>"

text \<open>\<open>wait\<close>: the successive answers of \<open>task_status\<close>; \<open>None\<close> while it still polls.\<close>

fun sb_wait :: "task res list \<Rightarrow> task res option" where
  "sb_wait [] = None"
| "sb_wait (Inl e # rest) = Some (Inl e)"
| "sb_wait (Inr t # rest) =
     (if t_state t \<in> {PStr ''pending'', PStr ''running''} then sb_wait rest else Some (Inr t))"

end
