(* ===== verification/Http_Facts.thy ===== *)
theory Http_Facts
  imports Client_Port
begin

text \<open>
  Facts about routing and about one exchange between the client and the server: which route a
  path has, and what \<open>unwrap\<close> makes of the response of a handler.
\<close>

section \<open>Routes\<close>

definition slash_free :: "string \<Rightarrow> bool" where
  "slash_free s \<longleftrightarrow> CHR ''/'' \<notin> set s"

lemma segments_of_slash:
  assumes "s \<noteq> []" and "hd s \<noteq> CHR ''/''" and "last s \<noteq> CHR ''/''"
  shows "segments_of (CHR ''/'' # s) = split_on (CHR ''/'') s"
proof -
  have "strip_by (\<lambda>c. c = CHR ''/'') s = s" using assms by (intro strip_by_id) simp
  then show ?thesis using strip_by_pad_left [of "\<lambda>c. c = CHR ''/''" "''/''" s] by (simp add: segments_of_def)
qed

lemma task_path_segments:
  assumes "slash_free i" and "i \<noteq> []"
  shows "segments_of (''/v1/tasks/'' @ i) = [''v1'', ''tasks'', i]"
    and "segments_of (''/v1/tasks/'' @ i @ ''/result'') = [''v1'', ''tasks'', i, ''result'']"
    and "segments_of (''/v1/tasks/'' @ i @ ''/cancel'') = [''v1'', ''tasks'', i, ''cancel'']"
proof -
  have v: "split_on (CHR ''/'') (''v1/tasks/'' @ t) = ''v1'' # ''tasks'' # split_on (CHR ''/'') t" for t by simp
  have "last i \<noteq> CHR ''/''" using assms unfolding slash_free_def by (metis last_in_set)
  then show "segments_of (''/v1/tasks/'' @ i) = [''v1'', ''tasks'', i]"
    using segments_of_slash [of "''v1/tasks/'' @ i"] v [of i] split_on_no_sep [of "CHR ''/''" i] assms by (simp add: slash_free_def)
  show "segments_of (''/v1/tasks/'' @ i @ ''/result'') = [''v1'', ''tasks'', i, ''result'']"
    using segments_of_slash [of "''v1/tasks/'' @ i @ ''/result''"] v [of "i @ ''/result''"]
      split_on_append_sep [of "CHR ''/''" i "''result''"] assms by (simp add: slash_free_def)
  show "segments_of (''/v1/tasks/'' @ i @ ''/cancel'') = [''v1'', ''tasks'', i, ''cancel'']"
    using segments_of_slash [of "''v1/tasks/'' @ i @ ''/cancel''"] v [of "i @ ''/cancel''"]
      split_on_append_sep [of "CHR ''/''" i "''cancel''"] assms by (simp add: slash_free_def)
qed

lemma template_segments:
  "segments_of ''/v1/query'' = [''v1'', ''query'']"
  "segments_of ''/v1/insert'' = [''v1'', ''insert'']"
  "segments_of ''/v1/delete'' = [''v1'', ''delete'']"
  "segments_of ''/v1/tasks/{id}/result'' = [''v1'', ''tasks'', ''{id}'', ''result'']"
  "segments_of ''/v1/tasks/{id}/cancel'' = [''v1'', ''tasks'', ''{id}'', ''cancel'']"
  "segments_of ''/v1/tasks/{id}'' = [''v1'', ''tasks'', ''{id}'']"
  "segments_of ''/v1/tasks'' = [''v1'', ''tasks'']"
  "segments_of ''/v1/writes/{ticket}'' = [''v1'', ''writes'', ''{ticket}'']"
  "segments_of ''/v1/rebuild'' = [''v1'', ''rebuild'']"
  "segments_of ''/v1/health'' = [''v1'', ''health'']"
  by code_simp+

lemma holes:
  "starts_with ''{'' ''{id}'' \<and> ends_with ''}'' ''{id}''"
  "starts_with ''{'' ''{ticket}'' \<and> ends_with ''}'' ''{ticket}''"
  "\<not> starts_with ''{'' ''v1''" "\<not> starts_with ''{'' ''query''" "\<not> starts_with ''{'' ''insert''" "\<not> starts_with ''{'' ''delete''"
  "\<not> starts_with ''{'' ''result''" "\<not> starts_with ''{'' ''cancel''" "\<not> starts_with ''{'' ''tasks''"
  "\<not> starts_with ''{'' ''writes''" "\<not> starts_with ''{'' ''rebuild''" "\<not> starts_with ''{'' ''health''"
  by (simp_all add: starts_with_def ends_with_def)

lemma match_path_segs:
  "match_path t p = (if length (segments_of t) \<noteq> length (segments_of p) then None
     else match_segments [] (zip (segments_of t) (segments_of p)))"
  by (simp add: match_path_def Let_def)

text \<open>The table read by segments.\<close>

fun route_of :: "string \<Rightarrow> string list \<Rightarrow> (route \<times> (string, string) dict) option" where
  "route_of m [a, b] =
     (if a \<noteq> ''v1'' then None
      else if m = ''POST'' then
        (if b = ''query'' then Some (RQuery, []) else if b = ''insert'' then Some (RInsert, [])
         else if b = ''delete'' then Some (RDelete, []) else if b = ''rebuild'' then Some (RRebuild, []) else None)
      else if m = ''GET'' then
        (if b = ''tasks'' then Some (RList, []) else if b = ''health'' then Some (RHealth, []) else None)
      else None)"
| "route_of m [a, b, i] =
     (if m \<noteq> ''GET'' \<or> a \<noteq> ''v1'' then None
      else if b = ''tasks'' then Some (RStatus, [(''id'', i)])
      else if b = ''writes'' then Some (RWrites, [(''ticket'', i)]) else None)"
| "route_of m [a, b, i, c] =
     (if a \<noteq> ''v1'' \<or> b \<noteq> ''tasks'' then None
      else if m = ''GET'' \<and> c = ''result'' then Some (RResult, [(''id'', i)])
      else if m = ''POST'' \<and> c = ''cancel'' then Some (RCancel, [(''id'', i)]) else None)"
| "route_of m _ = None"

definition matches :: "string \<Rightarrow> string \<Rightarrow> endpoint \<Rightarrow> bool" where
  "matches m path ep \<longleftrightarrow> ep_method ep = m \<and> match_path (ep_path ep) path \<noteq> None"

lemma segs_cases:
  obtains "p = []" | a where "p = [a]" | a b where "p = [a, b]" | a b i where "p = [a, b, i]"
    | a b i c where "p = [a, b, i, c]" | a b i c d q where "p = a # b # i # c # d # q"
  by (metis neq_Nil_conv)

text \<open>Each entry of the table, as a test on the segments of the path.\<close>

lemma entry_matches:
  assumes "segments_of path = p"
  shows "match_path ''/v1/query'' path = (if p = [''v1'', ''query''] then Some [] else None)"
    and "match_path ''/v1/insert'' path = (if p = [''v1'', ''insert''] then Some [] else None)"
    and "match_path ''/v1/delete'' path = (if p = [''v1'', ''delete''] then Some [] else None)"
    and "match_path ''/v1/tasks'' path = (if p = [''v1'', ''tasks''] then Some [] else None)"
    and "match_path ''/v1/rebuild'' path = (if p = [''v1'', ''rebuild''] then Some [] else None)"
    and "match_path ''/v1/health'' path = (if p = [''v1'', ''health''] then Some [] else None)"
    and "match_path ''/v1/tasks/{id}'' path =
      (case p of [a, b, i] \<Rightarrow> if a = ''v1'' \<and> b = ''tasks'' then Some [(''id'', i)] else None | _ \<Rightarrow> None)"
    and "match_path ''/v1/writes/{ticket}'' path =
      (case p of [a, b, i] \<Rightarrow> if a = ''v1'' \<and> b = ''writes'' then Some [(''ticket'', i)] else None | _ \<Rightarrow> None)"
    and "match_path ''/v1/tasks/{id}/result'' path =
      (case p of [a, b, i, c] \<Rightarrow> if a = ''v1'' \<and> b = ''tasks'' \<and> c = ''result'' then Some [(''id'', i)] else None | _ \<Rightarrow> None)"
    and "match_path ''/v1/tasks/{id}/cancel'' path =
      (case p of [a, b, i, c] \<Rightarrow> if a = ''v1'' \<and> b = ''tasks'' \<and> c = ''cancel'' then Some [(''id'', i)] else None | _ \<Rightarrow> None)"
  using assms
  by (cases p rule: segs_cases; simp add: match_path_segs template_segments holes split: list.splits; fastforce)+

lemma resolve_segs: "segments_of path = p \<Longrightarrow> resolve m path = route_of m p"
  unfolding resolve_def ENDPOINTS_def
  by (cases p rule: segs_cases; cases "m = ''GET''"; cases "m = ''POST''"; simp add: entry_matches)

lemma resolve_route: "resolve m path = route_of m (segments_of path)"
  by (rule resolve_segs [OF refl])

lemma one_match: "segments_of path = p \<Longrightarrow> length (filter (matches m path) ENDPOINTS) \<le> 1"
  unfolding matches_def ENDPOINTS_def
  by (cases p rule: segs_cases; cases "m = ''GET''"; cases "m = ''POST''"; simp add: entry_matches)

section \<open>One exchange\<close>

definition url_safe :: "char \<Rightarrow> bool" where
  "url_safe c \<longleftrightarrow> c \<in> set ''abcdefghijklmnopqrstuvwxyzABCDEFGHIJKLMNOPQRSTUVWXYZ0123456789-._~/''"

text \<open>
  What the HTTP library is relied on for: a path of unreserved characters arrives as it is, a JSON
  body as the value that was given, in whatever pieces, the \<open>Authorization\<close> header of the client's key as its bytes
  under a lower-case name.
\<close>

definition transport_ok :: "transport \<Rightarrow> string option \<Rightarrow> bool" where
  "transport_ok tp key \<longleftrightarrow>
     (\<forall>p. list_all url_safe p \<longrightarrow> tp_path tp p = p) \<and>
     (\<forall>v. wf_json v \<longrightarrow> json_loads_bytes (tp_json tp v) = Some v) \<and>
     (\<forall>b. read_body (tp_chunks tp b) = b) \<and>
     (\<forall>k. key = Some k \<longrightarrow> (\<exists>h. map_of (rev (tp_headers tp (client_headers key))) ''authorization'' = Some h \<and> utf8_decode h = Some (''Bearer '' @ k)))"

text \<open>The exception that reaches the client for one raised behind the server.\<close>

definition wire_exn :: "exn \<Rightarrow> exn" where
  "wire_exn e = (if is_seekbase (exn_class e) then e else Exn SeekbaseError (exn_msg e))"

lemma transport_authorized: "transport_ok tp key \<Longrightarrow> authorized key (tp_headers tp (client_headers key)) = Inr True"
proof (cases key)
  case (Some k)
  assume "transport_ok tp key"
  then obtain h where "map_of (rev (tp_headers tp (client_headers key))) ''authorization'' = Some h" "utf8_decode h = Some (''Bearer '' @ k)"
    using Some unfolding transport_ok_def by blast
  then show ?thesis using Some by (simp add: authorized_def)
qed (simp add: authorized_def)

lemma ascii_loads: "wf_json v \<Longrightarrow> json_loads_bytes (utf8_encode (json_text json_char v)) = Some v"
  by (simp add: json_loads_bytes_def utf8_roundtrip json_loads_text [OF esc_ok_ascii])

lemma send_json_wf: "wf_json v \<Longrightarrow> send_json st v = Inr (st, utf8_encode (json_text json_char v))"
  by (simp add: send_json_def json_dumps_def wf_json_ok del: json_text.simps)

lemma unwrap_ok: "wf_json v \<Longrightarrow> st < 400 \<Longrightarrow> unwrap (st, utf8_encode (json_text json_char v)) = Inr v"
  by (simp add: unwrap_def ascii_loads del: json_text.simps)

lemma unwrap_error:
  "400 \<le> st \<Longrightarrow> unwrap (st, utf8_encode (json_text json_char (PDict [(''error'', PDict [(''type'', PStr ty), (''message'', PStr msg)])])))
     = Inl (Exn (case map_of ERROR_TYPES ty of None \<Rightarrow> SeekbaseError | Some c \<Rightarrow> c) msg)"
  by (simp add: unwrap_def ascii_loads exception_from_def del: json_text.simps)

lemma internal_type: "map_of ERROR_TYPES ''Internal'' = None"
  by code_simp

lemma status_for_error: "400 \<le> status_for e"
  by (simp add: status_for_def Let_def)

text \<open>A handler's outcome, sent and unwrapped.\<close>

lemma exchange_ok:
  assumes "handle sv late r body params s = (Inr (st, v), t)" and "wf_json v" and "st < 400"
  shows "\<exists>b. handler_reply sv late r body params s = (Inr (st, b), t) \<and> unwrap (st, b) = Inr v"
  using assms unwrap_ok [OF assms(2,3)] by (simp add: handler_reply_def send_json_wf del: json_text.simps)

lemma exchange_error:
  assumes "handle sv late r body params s = (Inl e, t)"
  shows "\<exists>st b. handler_reply sv late r body params s = (Inr (st, b), t) \<and> unwrap (st, b) = Inl (wire_exn e)"
proof (cases "is_seekbase (exn_class e)")
  case True
  have "unwrap (status_for e, utf8_encode (json_text json_char (PDict [(''error'', PDict (error_body e))]))) = Inl e"
    unfolding error_body_def by (simp add: unwrap_error [OF status_for_error] error_types_lookup [OF True] del: json_text.simps)
  then show ?thesis
    using assms True
    by (simp add: handler_reply_def send_json_wf error_body_def wire_exn_def del: json_text.simps)
next
  case False
  have "unwrap (500, utf8_encode (json_text json_char (PDict [(''error'', PDict [(''type'', PStr ''Internal''), (''message'', PStr (exn_msg e))])])))
      = Inl (Exn SeekbaseError (exn_msg e))"
    by (simp add: unwrap_error internal_type del: json_text.simps)
  then show ?thesis
    using assms False
    by (simp add: handler_reply_def error_reply_def send_json_wf wire_exn_def del: json_text.simps)
qed

definition outcome_of :: "(exn + nat \<times> pyval) \<times> 's \<Rightarrow> (exn + pyval) \<times> 's" where
  "outcome_of x = (case x of (Inl e, t) \<Rightarrow> (Inl (wire_exn e), t) | (Inr (st, v), t) \<Rightarrow> (Inr v, t))"

definition reply_ok :: "(exn + nat \<times> pyval) \<times> 's \<Rightarrow> bool" where
  "reply_ok x = (case x of (Inl e, t) \<Rightarrow> True | (Inr (st, v), t) \<Rightarrow> wf_json v \<and> st < 400)"

lemma app_known:
  assumes "transport_ok tp key" and "list_all url_safe path" and "resolve mth path = Some (r, params)"
    and "(if mth = ''POST'' then read_json msgs else Inr (PDict [])) = Inr body" and "reply_ok (handle sv late r body params s)"
  shows "bindM (send tp (app sv key late) \<lparr>hq_method = mth, hq_path = tp_path tp path, hq_headers = tp_headers tp (client_headers key),
      hq_body = msgs\<rparr>) (\<lambda>w. liftM (unwrap w)) s = outcome_of (handle sv late r body params s)"
proof -
  have path: "tp_path tp path = path" using assms(1,2) by (simp add: transport_ok_def)
  have app: "app sv key late \<lparr>hq_method = mth, hq_path = tp_path tp path, hq_headers = tp_headers tp (client_headers key), hq_body = msgs\<rparr> s
      = handler_reply sv late r body params s"
    using assms(3,4) transport_authorized [OF assms(1)] by (cases "mth = ''POST''") (simp_all add: app_def path)
  obtain o1 t where h: "handle sv late r body params s = (o1, t)" by fastforce
  show ?thesis
  proof (cases o1)
    case (Inl e)
    obtain st b where "handler_reply sv late r body params s = (Inr (st, b), t)" "unwrap (st, b) = Inl (wire_exn e)"
      using exchange_error h Inl by metis
    then show ?thesis using h Inl by (simp add: bindM_def send_def app outcome_of_def)
  next
    case (Inr x)
    obtain st v where x: "x = (st, v)" by fastforce
    have "wf_json v" "st < 400" using assms(5) h Inr x by (simp_all add: reply_ok_def)
    then obtain b where "handler_reply sv late r body params s = (Inr (st, b), t)" "unwrap (st, b) = Inr v"
      using exchange_ok h Inr x by metis
    then show ?thesis using h Inr x by (simp add: bindM_def send_def app outcome_of_def)
  qed
qed

lemma http_post_app:
  assumes "transport_ok tp key" and "list_all url_safe path" and "resolve ''POST'' path = Some (r, params)"
    and "wf_json (PDict body)" and "reply_ok (handle sv late r (PDict body) params s)"
  shows "http_post tp (app sv key late) key path body s = outcome_of (handle sv late r (PDict body) params s)"
proof -
  have "json_loads_bytes (tp_json tp (PDict body)) = Some (PDict body)" and chunks: "read_body (tp_chunks tp b) = b" for b
    using assms(1,4) by (simp_all add: transport_ok_def)
  moreover have "json_loads_bytes [] = None" by code_simp
  ultimately have "read_json (tp_chunks tp (tp_json tp (PDict body))) = Inr (PDict body)"
    by (auto simp: read_json_def Let_def)
  then show ?thesis unfolding http_post_def using assms by (intro app_known) simp_all
qed

lemma http_get_app:
  assumes "transport_ok tp key" and "list_all url_safe path" and "resolve ''GET'' path = Some (r, params)"
    and "reply_ok (handle sv late r (PDict []) params s)"
  shows "http_get tp (app sv key late) key path s = outcome_of (handle sv late r (PDict []) params s)"
  unfolding http_get_def using assms by (intro app_known) simp_all

section \<open>Requests and results that can travel\<close>

definition wire_request :: "request \<Rightarrow> bool" where
  "wire_request rq \<longleftrightarrow> list_all wf_json (rq_params rq) \<and> list_all (\<lambda>d. wf_json (PDict d)) (rq_rows rq) \<and>
     (rq_op rq \<in> {''status'', ''task_result'', ''task_cancel''} \<longrightarrow>
        (case rq_ticket rq of None \<Rightarrow> False | Some i \<Rightarrow> i \<noteq> [] \<and> slash_free i \<and> list_all url_safe i)) \<and>
     (rq_op rq = ''tasks'' \<longrightarrow> rq_limit rq = 50)"

definition wire_task_ok :: "task \<Rightarrow> bool" where
  "wire_task_ok t \<longleftrightarrow> wf_json (PDict (to_wire t)) \<and> truthy (t_id t)"

definition wire_result :: "result \<Rightarrow> bool" where
  "wire_result r = (case r of ResDict v \<Rightarrow> wf_json v | ResTask t \<Rightarrow> wire_task_ok t | ResTasks ts \<Rightarrow> list_all wire_task_ok ts)"

definition wire_outcome :: "(exn + 'a) \<times> 's \<Rightarrow> (exn + 'a) \<times> 's" where
  "wire_outcome x = (case x of (Inl e, t) \<Rightarrow> (Inl (wire_exn e), t) | (Inr a, t) \<Rightarrow> (Inr a, t))"

lemma wire_outcome_simps [simp]:
  "wire_outcome (Inl e, t) = (Inl (wire_exn e), t)" "wire_outcome (Inr a, t) = (Inr a, t)"
  by (simp_all add: wire_outcome_def)

definition good_outcome :: "('a \<Rightarrow> bool) \<Rightarrow> (exn + 'a) \<times> 's \<Rightarrow> bool" where
  "good_outcome P x = (case x of (Inl e, t) \<Rightarrow> True | (Inr a, t) \<Rightarrow> P a)"

lemma wire_task_reads: "wire_task_ok t \<Longrightarrow> wire_task (PDict (to_wire t)) = Inr t"
  by (simp add: wire_task_ok_def wire_task_def from_wire_to_wire)

lemma task_reply_ok: "good_outcome wire_task_ok (m s) \<Longrightarrow> reply_ok (task_reply m s)"
  by (auto simp: good_outcome_def reply_ok_def task_reply_def bindM_def wire_task_ok_def split: prod.splits sum.splits)

lemma as_task_outcome:
  assumes "h s = outcome_of (task_reply m s)" and "good_outcome wire_task_ok (m s)"
  shows "as_task h s = wire_outcome (task_result_of m s)"
  using assms wire_task_reads
  by (auto simp: as_task_def task_reply_def task_result_of_def bindM_def outcome_of_def good_outcome_def
      split: prod.splits sum.splits)

lemma good_task: "good_outcome wire_result (task_result_of m s) \<Longrightarrow> good_outcome wire_task_ok (m s)"
  by (auto simp: good_outcome_def task_result_of_def bindM_def wire_result_def split: prod.splits sum.splits)

lemma post_task:
  assumes "transport_ok tp key" and "list_all url_safe path" and "resolve ''POST'' path = Some (r, params)"
    and "wf_json (PDict body)" and "handle sv False r (PDict body) params = task_reply m"
    and "good_outcome wire_result (task_result_of m s)"
  shows "as_task (http_post tp (app sv key False) key path body) s = wire_outcome (task_result_of m s)"
proof (rule as_task_outcome)
  show g: "good_outcome wire_task_ok (m s)" by (rule good_task [OF assms(6)])
  show "http_post tp (app sv key False) key path body s = outcome_of (task_reply m s)"
    using http_post_app [OF assms(1-4), where sv = sv and late = False] task_reply_ok [where m = m and s = s] g by (simp add: assms(5))
qed

lemma get_task:
  assumes "transport_ok tp key" and "list_all url_safe path" and "resolve ''GET'' path = Some (r, params)"
    and "handle sv False r (PDict []) params = task_reply m"
    and "good_outcome wire_result (task_result_of m s)"
  shows "as_task (http_get tp (app sv key False) key path) s = wire_outcome (task_result_of m s)"
proof (rule as_task_outcome)
  show g: "good_outcome wire_task_ok (m s)" by (rule good_task [OF assms(5)])
  show "http_get tp (app sv key False) key path s = outcome_of (task_reply m s)"
    using http_get_app [OF assms(1-3), where sv = sv and late = False] task_reply_ok [where m = m and s = s] g by (simp add: assms(4))
qed

lemma opt_str_wf [simp]: "wf_json (opt_str v)"
  by (simp add: opt_str_def split: option.splits)

lemma or_list_id [simp]: "or_list (PList xs) = PList xs"
  by (simp add: or_list_def)

lemma safe_paths:
  "list_all url_safe ''/v1/query''" "list_all url_safe ''/v1/insert''" "list_all url_safe ''/v1/delete''"
  "list_all url_safe ''/v1/rebuild''" "list_all url_safe ''/v1/tasks''" "list_all url_safe ''/v1/tasks/''"
  "list_all url_safe ''/result''" "list_all url_safe ''/cancel''"
  by code_simp+

lemma fixed_routes:
  "resolve ''POST'' ''/v1/query'' = Some (RQuery, [])" "resolve ''POST'' ''/v1/insert'' = Some (RInsert, [])"
  "resolve ''POST'' ''/v1/delete'' = Some (RDelete, [])" "resolve ''POST'' ''/v1/rebuild'' = Some (RRebuild, [])"
  "resolve ''GET'' ''/v1/tasks'' = Some (RList, [])"
  by (simp_all add: resolve_segs template_segments)

lemma ticket_routes:
  assumes "slash_free i" and "i \<noteq> []"
  shows "resolve ''GET'' (''/v1/tasks/'' @ i) = Some (RStatus, [(''id'', i)])"
    and "resolve ''GET'' (''/v1/tasks/'' @ i @ ''/result'') = Some (RResult, [(''id'', i)])"
    and "resolve ''POST'' (''/v1/tasks/'' @ i @ ''/cancel'') = Some (RCancel, [(''id'', i)])"
  using resolve_segs [OF task_path_segments(1) [OF assms]] resolve_segs [OF task_path_segments(2) [OF assms]]
    resolve_segs [OF task_path_segments(3) [OF assms]] by simp_all

text \<open>The bodies that the client sends, read by the handlers.\<close>

lemma handle_insert:
  "handle sv late RInsert (PDict [(''table'', t), (''rows'', PList rs)]) [] = task_reply (sv_insert sv t (PList rs))"
  by (rule ext) (simp add: handlers body_get_def dict_get_def)

lemma handle_delete:
  "handle sv late RDelete (PDict [(''table'', t), (''where'', w), (''params'', PList ps)]) [] = task_reply (sv_delete sv t w (PList ps))"
  by (rule ext) (simp add: handlers body_get_def dict_get_def)

lemma handle_by_id:
  "handle sv late RStatus b [(''id'', i)] = task_reply (sv_status sv i)"
  "handle sv late RCancel b [(''id'', i)] = task_reply (sv_cancel sv i)"
  by (rule ext, simp add: handlers path_param_def)+

lemma handle_query_now:
  "\<not> rq_as_task rq \<Longrightarrow> handle sv False RQuery (PDict (query_body rq)) [] s =
     bindM (sv_query sv (local_args rq)) (\<lambda>r. returnM (200, PDict r)) s"
  by (simp add: handle_query_def query_args_of_def query_body_def body_get_def dict_get_def wait_value_def py_float_ok_def local_args_def)

lemma handle_query_task:
  "rq_as_task rq \<Longrightarrow> handle sv late RQuery (PDict (query_body rq)) [] s =
     bindM (sv_submit sv (local_args rq)) (\<lambda>t. returnM (202, PDict (to_wire t))) s"
  by (simp add: handle_query_def query_args_of_def query_body_def body_get_def dict_get_def local_args_def)

lemma query_body_wf: "list_all wf_json (rq_params rq) \<Longrightarrow> wf_json (PDict (query_body rq))"
  by (simp add: query_body_def)

end
