(* ===== verification/Http_Props.thy ===== *)
theory Http_Props
  imports Http_Facts Sample_Store
begin

text \<open>
  The promises of the HTTP surface: one route per request, nothing behind a missing key, and a
  remote client that behaves as an embedded one.
\<close>

section \<open>Routes and access\<close>

text \<open>C37: The endpoint table is unambiguous: whatever the method and the path of a request, at most one endpoint
  matches, so the order of the table does not matter; and it is the table of \<open>route_of\<close>.\<close>

theorem routes_unambiguous:
  "length (filter (matches mth path) ENDPOINTS) \<le> 1 \<and> resolve mth path = route_of mth (segments_of path)"
  using one_match [OF refl] resolve_route by blast

text \<open>A request without the right bearer token, or for no route, reaches no service: the state is as before and
  the answer is 401, respectively 404.\<close>

lemma closed_door:
  assumes "authorized key (hq_headers q) = Inr False \<or>
     authorized key (hq_headers q) = Inr True \<and> resolve (hq_method q) (hq_path q) = None"
  shows "\<exists>b. app sv key late q s = (Inr (if authorized key (hq_headers q) = Inr False then 401 else 404, b), s)"
  using assms by (auto simp: app_def bindM_def error_reply_def send_json_def json_dumps_def)

section \<open>Remote and embedded\<close>

lemma remote_outcome:
  assumes "transport_ok tp key" and "wire_request rq" and "good_outcome wire_result (local_execute sv rq s)"
    and "\<not> (rq_op rq = ''query'' \<and> rq_as_task rq)"
  shows "http_execute tp (app sv key False) key rq s = wire_outcome (local_execute sv rq s)"
proof -
  consider (query) "rq_op rq = ''query''" | (insert) "rq_op rq = ''insert''" | (delete) "rq_op rq = ''delete''"
    | (status) "rq_op rq = ''status''" | (tasks) "rq_op rq = ''tasks''" | (res) "rq_op rq = ''task_result''"
    | (cancel) "rq_op rq = ''task_cancel''" | (rebuild) "rq_op rq = ''rebuild''"
    | (unknown) "rq_op rq \<notin> {''query'', ''insert'', ''delete'', ''status'', ''tasks'', ''task_result'', ''task_cancel'', ''rebuild''}"
    by blast
  then show ?thesis
  proof cases
    case query
    let ?h = "handle sv False RQuery (PDict (query_body rq)) []"
    have h: "?h s = bindM (sv_query sv (local_args rq)) (\<lambda>r. returnM (200, PDict r)) s"
      by (rule handle_query_now) (use assms(4) query in simp)
    have "reply_ok (?h s)"
      using assms(3,4) query unfolding h
      by (auto simp: reply_ok_def good_outcome_def local_execute_def bindM_def wire_result_def split: prod.splits sum.splits)
    moreover have "wf_json (PDict (query_body rq))" using query_body_wf assms(2) by (simp add: wire_request_def)
    ultimately have "http_post tp (app sv key False) key ''/v1/query'' (query_body rq) s = outcome_of (?h s)"
      by (intro http_post_app assms(1) safe_paths fixed_routes)
    then show ?thesis
      using query assms(4) unfolding h
      by (auto simp: http_execute_def local_execute_def bindM_def outcome_of_def split: prod.splits sum.splits)
  next
    case insert
    have "list_all wf_json (map PDict (rq_rows rq))" using assms(2) by (simp add: wire_request_def list_all_iff)
    then show ?thesis
      using insert assms(3)
      by (simp add: http_execute_def local_execute_def post_task [OF assms(1) safe_paths(2) fixed_routes(2) _ handle_insert])
  next
    case delete
    then show ?thesis
      using assms(2,3)
      by (simp add: http_execute_def local_execute_def wire_request_def
          post_task [OF assms(1) safe_paths(3) fixed_routes(3) _ handle_delete])
  next
    case rebuild
    then show ?thesis
      using assms(3)
      by (simp add: handlers http_execute_def local_execute_def
          post_task [OF assms(1) safe_paths(4) fixed_routes(4), where m = "sv_rebuild sv" and sv = sv])
  next
    case status
    obtain i where i: "rq_ticket rq = Some i" "i \<noteq> []" "slash_free i" "list_all url_safe i"
      using assms(2) status by (auto simp: wire_request_def split: option.splits)
    have "list_all url_safe (''/v1/tasks/'' @ i)" using i(4) safe_paths(6) by (simp add: list_all_append)
    from get_task [OF assms(1) this ticket_routes(1) [OF i(3,2)] handle_by_id(1)] show ?thesis
      using status i(1) assms(3) by (simp add: http_execute_def local_execute_def task_path_def ticket_of_def)
  next
    case cancel
    obtain i where i: "rq_ticket rq = Some i" "i \<noteq> []" "slash_free i" "list_all url_safe i"
      using assms(2) cancel by (auto simp: wire_request_def split: option.splits)
    have "list_all url_safe (''/v1/tasks/'' @ i @ ''/cancel'')" using i(4) safe_paths(6,8) by (simp add: list_all_append)
    from post_task [OF assms(1) this ticket_routes(3) [OF i(3,2)] _ handle_by_id(2), where body = "[]"] show ?thesis
      using cancel i(1) assms(3) by (simp add: http_execute_def local_execute_def task_path_def ticket_of_def)
  next
    case res
    obtain i where i: "rq_ticket rq = Some i" "i \<noteq> []" "slash_free i" "list_all url_safe i"
      using assms(2) res by (auto simp: wire_request_def split: option.splits)
    have p: "list_all url_safe (''/v1/tasks/'' @ i @ ''/result'')" using i(4) safe_paths(6,7) by (simp add: list_all_append)
    let ?h = "handle sv False RResult (PDict []) [(''id'', i)]"
    have h: "?h s = bindM (sv_result sv i) (\<lambda>rs. returnM (200, PDict [(''rows'', PList rs)])) s"
      by (simp add: handlers path_param_def)
    have "reply_ok (?h s)"
      using assms(3) res i(1) unfolding h
      by (auto simp: reply_ok_def good_outcome_def local_execute_def bindM_def wire_result_def ticket_of_def
          split: prod.splits sum.splits)
    from http_get_app [OF assms(1) p ticket_routes(2) [OF i(3,2)] this]
    show ?thesis
      using res i(1) unfolding h
      by (auto simp: http_execute_def local_execute_def task_path_def ticket_of_def bindM_def outcome_of_def
          split: prod.splits sum.splits)
  next
    case tasks
    let ?h = "handle sv False RList (PDict []) []"
    have lim: "rq_limit rq = 50" using assms(2) tasks by (simp add: wire_request_def)
    have "reply_ok (?h s)"
      using assms(3) tasks lim
      by (auto simp: handlers reply_ok_def good_outcome_def local_execute_def bindM_def wire_result_def wire_task_ok_def list_all_iff
          split: prod.splits sum.splits)
    note g = http_get_app [OF assms(1) safe_paths(5) fixed_routes(5) this]
    have rd: "wire_tasks (PDict [(''tasks'', PList (map (\<lambda>t. PDict (to_wire t)) ts))]) = Inr ts" if "list_all wire_task_ok ts" for ts
    proof -
      have "mapR wire_task (map (\<lambda>t. PDict (to_wire t)) ts) = Inr ts"
        using that wire_task_reads by (induction ts) auto
      then show ?thesis by (simp add: wire_tasks_def iterate_def)
    qed
    show ?thesis
      using tasks lim assms(3) g rd
      by (auto simp: handlers http_execute_def local_execute_def bindM_def outcome_of_def good_outcome_def wire_result_def
          split: prod.splits sum.splits)
  next
    case unknown
    then show ?thesis by (simp add: http_execute_def local_execute_def wire_exn_def)
  qed
qed


text \<open>A server over the sample store: inserts go through the write service, tasks are read from its log.\<close>

definition as_rows :: "pyval \<Rightarrow> pyrow list res" where
  "as_rows v = (case v of
       PList vs \<Rightarrow> mapR (\<lambda>x. case x of PDict d \<Rightarrow> Inr d | _ \<Rightarrow> raise PyTypeError ''row'') vs
     | _ \<Rightarrow> raise PyTypeError ''rows'')"

definition sample_write :: "pyval \<Rightarrow> pyval \<Rightarrow> (bstate, exn, task) sm" where
  "sample_write t rs = bindM (liftM (as_rows rs)) (\<lambda>rows b.
     (let (out, b') = process_batch sample_env ''t1''
        [\<lparr>j_op = OpInsert (py_str t) rows False, j_ds = day1, j_ts = ''t1'', j_id = ''tk_20260101_aa''\<rparr>] b
      in (hd out, b')))"

definition absent :: "(bstate, exn, 'a) sm" where
  "absent = raiseM (Exn PyTypeError ''not available'')"

definition sample_services :: "bstate services" where
  "sample_services =
     \<lparr>sv_query = (\<lambda>qa. absent), sv_submit = (\<lambda>qa. absent), sv_adopt = (\<lambda>qa. absent), sv_insert = sample_write,
      sv_delete = (\<lambda>t w ps. absent), sv_status = (\<lambda>i b. (task_status (b_log b) i, b)),
      sv_list = (\<lambda>n b. (task_list (b_log b) (nat n), b)), sv_result = (\<lambda>i. absent), sv_cancel = (\<lambda>i. absent), sv_rebuild = absent\<rparr>"

definition sample_tp :: transport where
  "sample_tp = \<lparr>tp_path = (\<lambda>p. p), tp_json = (\<lambda>v. utf8_encode (json_text json_char_raw v)),
     tp_chunks = (\<lambda>b. [(take 3 b, True), (drop 3 b, False)]),
     tp_headers = (\<lambda>hs. (''accept'', ''*/*'') # map (\<lambda>(n, v). (py_lower n, utf8_encode v)) hs),
     tp_crash = (\<lambda>e. (500, ''Internal Server Error''))\<rparr>"

lemma sample_tp_ok: "transport_ok sample_tp key"
  unfolding transport_ok_def
proof (intro conjI allI impI)
  fix v
  assume "wf_json v"
  then show "json_loads_bytes (tp_json sample_tp v) = Some v"
    by (simp add: sample_tp_def json_loads_bytes_def utf8_roundtrip json_loads_text [OF esc_ok_raw])
next
  fix k
  assume "key = Some k"
  moreover have "py_lower ''Authorization'' = ''authorization''" by code_simp
  ultimately show "\<exists>h. map_of (rev (tp_headers sample_tp (client_headers key))) ''authorization'' = Some h \<and> utf8_decode h = Some (''Bearer '' @ k)"
    using utf8_roundtrip [of "''Bearer '' @ k"] by (simp add: sample_tp_def client_headers_def)
qed (simp_all add: sample_tp_def)

definition fresh_server :: bstate where
  "fresh_server = \<lparr>b_w = fresh_state, b_log = []\<rparr>"


section \<open>A result without a JSON form\<close>

text \<open>The result is serialised outside the \<open>try\<close> of the shell: a value without a JSON form (a date of a row)
  leaves the application as an exception, where the same call on an embedded database returns it.\<close>

lemma result_without_json:
  assumes "authorized key (hq_headers q) = Inr True" and "resolve (hq_method q) (hq_path q) = Some (r, params)"
    and "hq_method q = ''POST''" and "read_json (hq_body q) = Inr body"
    and "handle sv late r body params s = (Inr (st, v), t)" and "\<not> json_ok v"
  shows "app sv key late q s = (Inl (Exn PyTypeError ''not JSON serializable''), t)"
  using assms by (simp add: app_def bindM_def handler_reply_def send_json_def json_dumps_def)

end
