(* ===== verification/Open_Db.thy ===== *)
theory Open_Db
  imports Pipeline_Compile
begin

text \<open>
  \<open>Seekbase.open\<close> of \<open>client.py\<close> with \<open>StoreService.open\<close>, the table and index set-up of
  \<open>service/store_service.py\<close> and \<open>build_services\<close>: which databases open, which statements they are
  set up with, and what the services are configured with. Executing a statement and looking for a
  dataset on disk are parameters.
\<close>

section \<open>Setting up the engine\<close>

type_synonym 'd exec = "string \<Rightarrow> ('d, exn, unit) sm"

definition on_error :: "('d, exn, unit) sm \<Rightarrow> ('d, exn, unit) sm \<Rightarrow> ('d, exn, unit) sm" where
  "on_error m h s = (case m s of (Inl e, t) \<Rightarrow> h t | (Inr u, t) \<Rightarrow> (Inr u, t))"

definition load_extension :: "'d exec \<Rightarrow> string \<Rightarrow> ('d, exn, unit) sm" where
  "load_extension x e = on_error (x (''INSTALL '' @ e @ ''; LOAD '' @ e @ '';'')) (x (''LOAD '' @ e @ '';''))"

text \<open>A double quote in the text.\<close>

definition dq :: string where "dq = [CHR 0x22]"

definition hnsw_text :: "tablespec \<Rightarrow> string \<Rightarrow> string" where
  "hnsw_text spec col = (let p = ''_sb_'' @ ts_name spec in
     ''CREATE INDEX IF NOT EXISTS '' @ dq @ p @ ''_'' @ col @ ''_hnsw'' @ dq @ '' ON '' @ dq @ p @ dq @
     '' USING HNSW('' @ dq @ veccol col @ dq @ '') WITH (metric='' @ [CHR 0x27] @ ''cosine'' @ [CHR 0x27] @ '')'')"

definition fts_text :: "tablespec \<Rightarrow> string" where
  "fts_text spec = (let q = (\<lambda>s. [CHR 0x27] @ s @ [CHR 0x27]) in
     ''PRAGMA create_fts_index('' @ q (''_sb_'' @ ts_name spec) @ '', '' @ q (ts_primary spec) @ '', '' @
     join_with '', '' (map (\<lambda>c. q (tokcol c)) (ts_searchable spec)) @ '', overwrite=1)'')"

definition setup_search :: "store_cfg \<Rightarrow> 'd exec \<Rightarrow> ('d, exn, unit) sm" where
  "setup_search cfg x =
     bindM (forM (load_extension x) [''vss'', ''fts'']) (\<lambda>_.
     bindM (x ''SET hnsw_enable_experimental_persistence=true;'') (\<lambda>_.
     forM (\<lambda>spec. if ts_searchable spec = [] then returnM ()
        else bindM (forM (\<lambda>c. x (hnsw_text spec c)) (ts_searchable spec)) (\<lambda>_. x (fts_text spec)))
       (sc_tables (cfg_schema cfg))))"

definition lance_stage_cols :: "store_cfg \<Rightarrow> tablespec \<Rightarrow> string list" where
  "lance_stage_cols cfg spec = ''pk VARCHAR'' # concat (map (\<lambda>c.
     [dq @ ''vec_'' @ c @ dq @ '' FLOAT['' @ dim_text cfg @ '']'', dq @ ''tok_'' @ c @ dq @ '' VARCHAR'']) (ts_searchable spec))"

text \<open>\<open>_lance_write(spec, [], mode="overwrite")\<close>.\<close>

definition lance_empty :: "store_cfg \<Rightarrow> 'd exec \<Rightarrow> tablespec \<Rightarrow> ('d, exn, unit) sm" where
  "lance_empty cfg x spec =
     bindM (x (''CREATE OR REPLACE TEMP TABLE _lance_stage ('' @ join_with '', '' (lance_stage_cols cfg spec) @ '')'')) (\<lambda>_.
     bindM (x (''COPY (SELECT * FROM _lance_stage) TO '' @ [CHR 0x27] @ lance_ds cfg (ts_name spec) @ [CHR 0x27] @
        '' (FORMAT lance, mode '' @ [CHR 0x27] @ ''overwrite'' @ [CHR 0x27] @ '')'')) (\<lambda>_.
     x ''DROP TABLE _lance_stage''))"

definition setup_lance :: "store_cfg \<Rightarrow> 'd exec \<Rightarrow> (string \<Rightarrow> bool) \<Rightarrow> ('d, exn, unit) sm" where
  "setup_lance cfg x on_disk =
     bindM (load_extension x ''lance'') (\<lambda>_.
     forM (\<lambda>spec. if ts_searchable spec \<noteq> [] \<and> \<not> on_disk (lance_ds cfg (ts_name spec))
        then lance_empty cfg x spec else returnM ()) (sc_tables (cfg_schema cfg)))"

text \<open>The \<open>CREATE TABLE\<close> of a table is built just before it is executed.\<close>

definition setup_tables :: "store_cfg \<Rightarrow> 'd exec \<Rightarrow> ('d, exn, unit) sm" where
  "setup_tables cfg x = forM (\<lambda>spec. bindM (liftM (create_table_text cfg spec)) (\<lambda>sql. x sql)) (sc_tables (cfg_schema cfg))"

definition open_store :: "store_cfg \<Rightarrow> 'd exec \<Rightarrow> (string \<Rightarrow> bool) \<Rightarrow> ('d, exn, unit) sm" where
  "open_store cfg x on_disk =
     bindM (liftM (check_backend (cfg_backend cfg))) (\<lambda>_.
     bindM (setup_tables cfg x) (\<lambda>_.
     if is_vss cfg then setup_search cfg x
     else if is_lance cfg then setup_lance cfg x on_disk
     else returnM ()))"

section \<open>Opening\<close>

record opened =
  od_cfg :: store_cfg
  od_emb :: "embedder option"
  od_registry :: registry
  od_policy :: policy

definition has_searchable :: "schema \<Rightarrow> bool" where
  "has_searchable sch \<longleftrightarrow> list_ex (\<lambda>t. ts_searchable t \<noteq> []) (sc_tables sch)"

definition open_cfg :: "schema \<Rightarrow> embedder option \<Rightarrow> string \<Rightarrow> string \<Rightarrow> store_cfg" where
  "open_cfg sch emb backend data_dir = \<lparr>cfg_schema = sch, cfg_dim = map_option e_dim emb, cfg_backend = backend,
     cfg_lance_dir = data_dir @ ''/lance''\<rparr>"

text \<open>\<open>PipelineService\<close> without a registry takes the built-in operators, without a policy the default one.\<close>

definition pipeline_service :: "registry option \<Rightarrow> policy option \<Rightarrow> registry \<times> policy" where
  "pipeline_service reg pol = (case reg of None \<Rightarrow> builtin_registry | Some r \<Rightarrow> r, case pol of None \<Rightarrow> default_policy | Some p \<Rightarrow> p)"

declare pipeline_service_def [simp]

definition build_services :: "store_cfg \<Rightarrow> embedder option \<Rightarrow> policy option \<Rightarrow> operator list \<Rightarrow> opened res" where
  "build_services cfg emb pol users =
     bindR (build_registry users) (\<lambda>reg.
     (case pipeline_service (Some reg) pol of (r, p) \<Rightarrow> Inr \<lparr>od_cfg = cfg, od_emb = emb, od_registry = r, od_policy = p\<rparr>))"

definition open_db ::
    "string \<Rightarrow> pyval \<Rightarrow> embedder option \<Rightarrow> string \<Rightarrow> policy option \<Rightarrow> operator list \<Rightarrow> 'd exec \<Rightarrow> (string \<Rightarrow> bool) \<Rightarrow>
     ('d, exn, opened) sm" where
  "open_db data_dir raw emb backend pol users x on_disk =
     bindM (liftM (parse_schema raw)) (\<lambda>sch.
     if has_searchable sch \<and> emb = None then raiseM (Exn EmbedderInvalid ''no embedder was provided'')
     else
       let e = (if has_searchable sch then emb else None); cfg = open_cfg sch e backend data_dir in
       bindM (open_store cfg x on_disk) (\<lambda>_. liftM (build_services cfg e pol users)))"

section \<open>Facts\<close>

lemma forM_each: "forM f xs s = (Inr u, t) \<Longrightarrow> x \<in> set xs \<Longrightarrow> \<exists>s1 t1 a. f x s1 = (Inr a, t1)"
proof (induction xs arbitrary: s)
  case (Cons y ys)
  then obtain a s1 where "f y s = (Inr a, s1)" "forM f ys s1 = (Inr u, t)" by (auto simp: bindM_Inr)
  then show ?case using Cons by auto
qed simp


end
