(* ===== verification/Open_Props.thy ===== *)
theory Open_Props
  imports Open_Db Sample_Data
begin

text \<open>
  What a database that opened is known to satisfy; the other components rely on these facts.
\<close>

lemma mapR_total: "(\<And>x. x \<in> set xs \<Longrightarrow> \<exists>y. f x = Inr y) \<Longrightarrow> \<exists>ys. mapR f xs = Inr ys"
proof (induction xs)
  case (Cons x xs)
  then obtain y ys where "f x = Inr y" "mapR f xs = Inr ys" by fastforce
  then show ?case by simp
qed simp

lemma setup_tables_texts:
  assumes "setup_tables cfg x s = (Inr u, t)"
  shows "\<exists>ddl. create_tables cfg = Inr ddl"
  unfolding create_tables_def
proof (rule mapR_total)
  fix spec
  assume "spec \<in> set (sc_tables (cfg_schema cfg))"
  from forM_each [OF assms [unfolded setup_tables_def] this]
  show "\<exists>sql. create_table_text cfg spec = Inr sql" by (auto simp: bindM_Inr liftM_def)
qed

lemma searchable_quiet:
  assumes "create_tables cfg = Inr ddl" and "wf_schema (cfg_schema cfg)" and "spec \<in> set (sc_tables (cfg_schema cfg))"
  shows "list_all quiet (ts_searchable spec)"
proof -
  have "list_all quiet (column_names spec)" by (rule create_tables_quiet(2) [OF assms(1,3)])
  moreover have "wf_table spec" using assms(2,3) by (simp add: wf_schema_def list_all_iff)
  then have "set (ts_searchable spec) \<subseteq> set (column_names spec)" by (rule wf_table_searchable)
  ultimately show ?thesis by (auto simp: list_all_iff)
qed

text \<open>C36: A database that opens has a well-formed schema over legal identifiers, a known backend, a registry with
  the built-in operators, and an embedder exactly when a table is searchable, whose dimension is the
  store's; in a quiet directory every query context over it is safe to interpolate.\<close>

theorem open_establishes:
  assumes "open_db data_dir raw emb backend pol users x on_disk s = (Inr od, t)"
  shows "wf_schema (cfg_schema (od_cfg od)) \<and> (\<exists>ddl. create_tables (od_cfg od) = Inr ddl) \<and>
     cfg_backend (od_cfg od) \<in> {''vss'', ''lance''} \<and> wf_registry (od_registry od) \<and>
     (od_emb od \<noteq> None \<longleftrightarrow> has_searchable (cfg_schema (od_cfg od))) \<and>
     cfg_dim (od_cfg od) = map_option e_dim (od_emb od) \<and>
     (quiet data_dir \<longrightarrow> ctx_ok \<lparr>ctx_cfg = od_cfg od, ctx_embedding = od_emb od, ctx_ds_start = None, ctx_ds_end = None\<rparr>)"
proof -
  obtain sch where sch: "parse_schema raw = Inr sch" "\<not> (has_searchable sch \<and> emb = None)"
    and rest: "bindM (open_store (open_cfg sch (if has_searchable sch then emb else None) backend data_dir) x on_disk)
        (\<lambda>_. liftM (build_services (open_cfg sch (if has_searchable sch then emb else None) backend data_dir)
           (if has_searchable sch then emb else None) pol users)) s = (Inr od, t)"
    using assms by (auto simp: open_db_def bindM_Inr Let_def raiseM_def split: if_splits)
  let ?e = "if has_searchable sch then emb else None"
  let ?cfg = "open_cfg sch ?e backend data_dir"
  obtain t1 where store: "open_store ?cfg x on_disk s = (Inr (), t1)" and "build_services ?cfg ?e pol users = Inr od"
    using rest by (auto simp: bindM_Inr)
  then obtain reg where reg: "build_registry users = Inr reg" "od_registry od = reg" "od_cfg od = ?cfg" "od_emb od = ?e"
    by (auto simp: build_services_def bindR_Inr_iff)
  obtain t2 where "check_backend backend = Inr ()" and tables: "setup_tables ?cfg x s = (Inr (), t2)"
    using store by (auto simp: open_store_def bindM_Inr open_cfg_def)
  then have "backend \<in> {''vss'', ''lance''}" by (simp add: check_backend_def split: if_splits)
  moreover have wf: "wf_schema sch" using parse_schema_wf [OF sch(1)] .
  moreover obtain ddl where ddl: "create_tables ?cfg = Inr ddl" using setup_tables_texts [OF tables] by blast
  moreover have "wf_registry reg" by (rule build_registry_wf [OF reg(1)])
  moreover have "?e \<noteq> None \<longleftrightarrow> has_searchable sch" using sch(2) by auto
  moreover have "ctx_ok \<lparr>ctx_cfg = ?cfg, ctx_embedding = ?e, ctx_ds_start = None, ctx_ds_end = None\<rparr>" if "quiet data_dir"
  proof -
    have "list_all (\<lambda>spec. list_all quiet (ts_searchable spec)) (sc_tables sch)"
      using searchable_quiet [OF ddl] wf by (simp add: open_cfg_def list_all_iff)
    moreover have "quiet ''/lance''" by code_simp
    then have "quiet (data_dir @ ''/lance'')" using that unfolding quiet_append by blast
    ultimately show ?thesis by (simp add: ctx_ok_def open_cfg_def quiet_opt_def)
  qed
  ultimately show ?thesis using reg by (simp add: open_cfg_def)
qed

definition sample_raw :: pyval where
  "sample_raw = PList (map raw_table (sc_tables sample_schema))"

definition log_exec :: "string list exec" where
  "log_exec sql done = (if take 7 sql = ''INSTALL'' then raise DuckError ''offline'' else Inr (), done @ [sql])"

theorem open_establishes_witness:
  "\<exists>od t. open_db ''/data'' sample_raw (Some sample_embedder) ''vss'' None [] log_exec (\<lambda>p. False) [] = (Inr od, t) \<and>
     wf_registry (od_registry od) \<and> cfg_dim (od_cfg od) = map_option e_dim (od_emb od) \<and> length t = 8"
proof -
  have o: "case open_db ''/data'' sample_raw (Some sample_embedder) ''vss'' None [] log_exec (\<lambda>p. False) [] of
      (Inr od, t) \<Rightarrow> length t = 8 | _ \<Rightarrow> False" by code_simp
  then obtain od t where od: "open_db ''/data'' sample_raw (Some sample_embedder) ''vss'' None [] log_exec (\<lambda>p. False) [] = (Inr od, t)"
    "length t = 8" by (auto split: prod.splits sum.splits)
  from open_establishes [OF od(1)] od show ?thesis by blast
qed

end
