(* ===== verification/Async_Runtime.thy ===== *)
theory Async_Runtime
  imports Errors_Wire "HOL-Library.Sublist" "HOL-Library.Multiset"
begin

text \<open>
  \<open>runtime/bridge.py\<close> and \<open>runtime/readpool.py\<close>: the thread that owns the DuckDB connection and
  runs one job after the other, and the small pool that lends each read a cursor of its own. Both
  are state machines over what happens to them, in any order: jobs arrive, a thread takes the next
  one, a job ends, an awaiting caller gives up, the executor is shut down. An event that cannot
  happen in a state leaves it unchanged.
\<close>

section \<open>The bridge\<close>

type_synonym ('s, 'r) job_fn = "nat \<times> ('s \<Rightarrow> 'r \<times> 's)"

text \<open>\<open>br_state\<close> is what the jobs work on: the connection and the files.\<close>

record ('s, 'r) bridge =
  br_state :: 's
  br_queue :: "('s, 'r) job_fn list"
  br_running :: "('s, 'r) job_fn list"
  br_results :: "(nat \<times> 'r) list"
  br_closed :: bool

definition new_bridge :: "'s \<Rightarrow> ('s, 'r) bridge" where
  "new_bridge s = \<lparr>br_state = s, br_queue = [], br_running = [], br_results = [], br_closed = False\<rparr>"

text \<open>\<open>run\<close>: the job is queued; an executor that was shut down refuses it.\<close>

definition bridge_run :: "nat \<Rightarrow> ('s \<Rightarrow> 'r \<times> 's) \<Rightarrow> ('s, 'r) bridge \<Rightarrow> ('s, 'r) bridge res" where
  "bridge_run n f b = (if br_closed b then raise PyRuntimeError ''cannot schedule new futures after shutdown''
     else Inr (b\<lparr>br_queue := br_queue b @ [(n, f)]\<rparr>))"

text \<open>The one thread takes the oldest job when it is idle.\<close>

definition bridge_take :: "('s, 'r) bridge \<Rightarrow> ('s, 'r) bridge" where
  "bridge_take b = (case br_queue b of
       [] \<Rightarrow> b
     | j # q \<Rightarrow> if br_running b = [] then b\<lparr>br_queue := q, br_running := [j]\<rparr> else b)"

definition bridge_finish :: "('s, 'r) bridge \<Rightarrow> ('s, 'r) bridge" where
  "bridge_finish b = (case br_running b of
       [(n, f)] \<Rightarrow> (case f (br_state b) of (r, s) \<Rightarrow>
         b\<lparr>br_state := s, br_running := [], br_results := br_results b @ [(n, r)]\<rparr>)
     | _ \<Rightarrow> b)"

text \<open>A cancelled caller takes its job with it only while the job waits; a running job runs on.\<close>

definition bridge_cancel :: "nat \<Rightarrow> ('s, 'r) bridge \<Rightarrow> ('s, 'r) bridge" where
  "bridge_cancel n b = b\<lparr>br_queue := filter (\<lambda>(m, f). m \<noteq> n) (br_queue b)\<rparr>"

definition bridge_close :: "('s, 'r) bridge \<Rightarrow> ('s, 'r) bridge" where
  "bridge_close b = (if br_closed b then b else b\<lparr>br_closed := True\<rparr>)"

datatype ('s, 'r) bridge_event = BRun nat "'s \<Rightarrow> 'r \<times> 's" | BTake | BFinish | BCancel nat | BClose

fun bridge_next :: "('s, 'r) bridge_event \<Rightarrow> ('s, 'r) bridge \<Rightarrow> ('s, 'r) bridge" where
  "bridge_next (BRun n f) b = (case bridge_run n f b of Inl e \<Rightarrow> b | Inr b' \<Rightarrow> b')"
| "bridge_next BTake b = bridge_take b"
| "bridge_next BFinish b = bridge_finish b"
| "bridge_next (BCancel n) b = bridge_cancel n b"
| "bridge_next BClose b = bridge_close b"

definition bridge_after :: "('s, 'r) bridge_event list \<Rightarrow> ('s, 'r) bridge \<Rightarrow> ('s, 'r) bridge" where
  "bridge_after es b = foldl (\<lambda>b e. bridge_next e b) b es"

text \<open>\<open>shutdown(wait=True)\<close> returns when nothing is queued or running.\<close>

definition bridge_joined :: "('s, 'r) bridge \<Rightarrow> bool" where
  "bridge_joined b \<longleftrightarrow> br_closed b \<and> br_queue b = [] \<and> br_running b = []"

section \<open>The bridge is a serial execution\<close>

fun serially :: "('s, 'r) job_fn list \<Rightarrow> 's \<Rightarrow> (nat \<times> 'r) list \<times> 's" where
  "serially [] s = ([], s)"
| "serially ((n, f) # js) s = (case f s of (r, s1) \<Rightarrow> case serially js s1 of (rs, s2) \<Rightarrow> ((n, r) # rs, s2))"

lemma serially_append:
  "serially (xs @ ys) s = (case serially xs s of (rs, s1) \<Rightarrow> case serially ys s1 of (rs', s2) \<Rightarrow> (rs @ rs', s2))"
  by (induction xs s rule: serially.induct) (auto split: prod.splits)

text \<open>The jobs handed in before the shutdown.\<close>

fun handed_in :: "('s, 'r) bridge_event list \<Rightarrow> ('s, 'r) job_fn list" where
  "handed_in [] = []"
| "handed_in (BRun n f # es) = (n, f) # handed_in es"
| "handed_in (BClose # es) = []"
| "handed_in (_ # es) = handed_in es"

definition given_up :: "('s, 'r) bridge_event list \<Rightarrow> nat \<Rightarrow> bool" where
  "given_up es n \<longleftrightarrow> list_ex (\<lambda>e. case e of BCancel m \<Rightarrow> m = n | _ \<Rightarrow> False) es"

lemma handed_in_snoc:
  "handed_in (es @ [e]) = handed_in es @ (case e of BRun n f \<Rightarrow> if BClose \<in> set es then [] else [(n, f)] | _ \<Rightarrow> [])"
  by (induction es rule: handed_in.induct) (auto split: bridge_event.splits)

definition serial_so_far :: "('s, 'r) bridge_event list \<Rightarrow> 's \<Rightarrow> ('s, 'r) bridge \<Rightarrow> ('s, 'r) job_fn list \<Rightarrow> bool" where
  "serial_so_far es s0 b past \<longleftrightarrow>
     serially past s0 = (br_results b, br_state b) \<and> length (br_running b) \<le> 1 \<and>
     (br_closed b \<longleftrightarrow> BClose \<in> set es) \<and>
     subseq (past @ br_running b @ br_queue b) (handed_in es) \<and>
     (\<forall>(n, f) \<in> set (handed_in es). \<not> given_up es n \<longrightarrow> (n, f) \<in> set (past @ br_running b @ br_queue b))"

lemma serial_so_far_next:
  assumes "serial_so_far es s0 b past"
  shows "\<exists>past'. serial_so_far (es @ [e]) s0 (bridge_next e b) past'"
proof (cases e)
  case (BRun n f)
  then show ?thesis using assms
    by (intro exI [of _ past])
      (auto simp: serial_so_far_def bridge_run_def handed_in_snoc given_up_def list_emb_append_mono
        simp flip: append_assoc)
next
  case BTake
  then show ?thesis using assms
    by (intro exI [of _ past])
      (auto simp: serial_so_far_def bridge_take_def handed_in_snoc given_up_def split: list.splits)
next
  case BFinish
  show ?thesis
  proof (cases "br_running b")
    case Nil
    then show ?thesis using assms BFinish
      by (intro exI [of _ past]) (auto simp: serial_so_far_def bridge_finish_def handed_in_snoc given_up_def)
  next
    case (Cons j js)
    then have "js = []" using assms by (simp add: serial_so_far_def)
    then show ?thesis using assms BFinish Cons
      by (intro exI [of _ "past @ [j]"])
        (auto simp: serial_so_far_def bridge_finish_def handed_in_snoc given_up_def serially_append split: prod.splits)
  qed
next
  case (BCancel n)
  have "subseq (past @ br_running b @ filter (\<lambda>(m, f). m \<noteq> n) (br_queue b)) (past @ br_running b @ br_queue b)"
    by (intro list_emb_append_mono) auto
  then have "subseq (past @ br_running b @ filter (\<lambda>(m, f). m \<noteq> n) (br_queue b)) (handed_in es)"
    using assms subseq_order.trans unfolding serial_so_far_def by blast
  then show ?thesis using assms BCancel
    by (intro exI [of _ past]) (auto simp: serial_so_far_def bridge_cancel_def handed_in_snoc given_up_def)
next
  case BClose
  then show ?thesis using assms
    by (intro exI [of _ past]) (auto simp: serial_so_far_def bridge_close_def handed_in_snoc given_up_def)
qed

lemma bridge_serial: "\<exists>past. serial_so_far es s0 (bridge_after es (new_bridge s0)) past"
proof (induction es rule: rev_induct)
  case Nil
  show ?case by (intro exI [of _ "[]"]) (simp add: serial_so_far_def bridge_after_def new_bridge_def)
next
  case (snoc e es)
  then show ?case using serial_so_far_next by (auto simp: bridge_after_def)
qed

section \<open>Shutting down drains\<close>

definition rounds :: "nat \<Rightarrow> ('s, 'r) bridge_event list" where
  "rounds n = concat (replicate n [BFinish, BTake])"

lemma bridge_after_Cons [simp]: "bridge_after (e # es) b = bridge_after es (bridge_next e b)"
  by (simp add: bridge_after_def)

lemma bridge_after_Nil [simp]: "bridge_after [] b = b"
  by (simp add: bridge_after_def)

lemma finish_one: "br_running b = [(n, f)] \<Longrightarrow> f (br_state b) = (r, s) \<Longrightarrow>
    bridge_finish b = b\<lparr>br_state := s, br_running := [], br_results := br_results b @ [(n, r)]\<rparr>"
  by (simp add: bridge_finish_def)

lemma rounds_drain:
  assumes "length (br_running b) \<le> 1" and "serially (br_running b @ br_queue b) (br_state b) = (rs, s)"
  shows "bridge_after (rounds (Suc (length (br_queue b)))) b =
     b\<lparr>br_state := s, br_queue := [], br_running := [], br_results := br_results b @ rs\<rparr>"
  using assms
proof (induction "br_queue b" arbitrary: b rs)
  case Nil
  then show ?case
    by (cases "br_running b") (auto simp: rounds_def bridge_finish_def bridge_take_def split: prod.splits)
next
  case (Cons j q)
  define b1 where "b1 = bridge_take (bridge_finish b)"
  obtain rs0 s0 where p: "serially (br_running b) (br_state b) = (rs0, s0)" by fastforce
  have f: "bridge_finish b = b\<lparr>br_state := s0, br_running := [], br_results := br_results b @ rs0\<rparr>"
    using Cons.prems(1) p by (cases "br_running b") (auto simp: bridge_finish_def split: prod.splits)
  have b1: "b1 = b\<lparr>br_state := s0, br_running := [j], br_queue := q, br_results := br_results b @ rs0\<rparr>"
    using f Cons.hyps(2) [symmetric] by (simp add: b1_def bridge_take_def)
  obtain rs1 where r: "rs = rs0 @ rs1" "serially (j # q) s0 = (rs1, s)"
    using Cons.prems(2) p Cons.hyps(2) [symmetric] by (auto simp: serially_append split: prod.splits)
  have "bridge_after (rounds (Suc (length (br_queue b1)))) b1 =
     b1\<lparr>br_state := s, br_queue := [], br_running := [], br_results := br_results b1 @ rs1\<rparr>"
    using Cons.hyps(1) [of b1] r b1 by simp
  then show ?case using b1 r Cons.hyps(2) [symmetric] by (simp add: rounds_def flip: b1_def)
qed

section \<open>The read pool\<close>

text \<open>
  \<open>rp_threads\<close>: the reads that have a thread, each with the cursor it borrowed, if it has one by
  now. \<open>rp_free\<close> is the queue of free cursors, \<open>rp_all\<close> the list held for closing.
\<close>

record ('c, 'j) read_pool =
  rp_free :: "'c list"
  rp_all :: "'c list"
  rp_queue :: "'j list"
  rp_threads :: "('j \<times> 'c option) list"
  rp_workers :: nat
  rp_interrupted :: "'c list"
  rp_closed :: bool

text \<open>\<open>create\<close>: one cursor per worker, made where the connection lives; \<open>cursor s\<close> makes one.\<close>

fun make_cursors :: "('s \<Rightarrow> 'c \<times> 's) \<Rightarrow> nat \<Rightarrow> 's \<Rightarrow> 'c list \<times> 's" where
  "make_cursors cursor 0 s = ([], s)"
| "make_cursors cursor (Suc n) s = (case cursor s of (c, s1) \<Rightarrow>
     case make_cursors cursor n s1 of (cs, s2) \<Rightarrow> (c # cs, s2))"

definition new_pool :: "'c list \<Rightarrow> nat \<Rightarrow> ('c, 'j) read_pool" where
  "new_pool cursors workers = \<lparr>rp_free = cursors, rp_all = cursors, rp_queue = [], rp_threads = [],
     rp_workers = workers, rp_interrupted = [], rp_closed = False\<rparr>"

definition create_pool :: "('s \<Rightarrow> 'c \<times> 's) \<Rightarrow> nat \<Rightarrow> 's \<Rightarrow> ('c, 'j) read_pool \<times> 's" where
  "create_pool cursor workers s = (case make_cursors cursor workers s of (cs, s1) \<Rightarrow> (new_pool cs workers, s1))"

definition pool_run :: "'j \<Rightarrow> ('c, 'j) read_pool \<Rightarrow> ('c, 'j) read_pool res" where
  "pool_run j p = (if rp_closed p then raise PyRuntimeError ''cannot schedule new futures after shutdown''
     else Inr (p\<lparr>rp_queue := rp_queue p @ [j]\<rparr>))"

definition pool_take :: "('c, 'j) read_pool \<Rightarrow> ('c, 'j) read_pool" where
  "pool_take p = (case rp_queue p of
       [] \<Rightarrow> p
     | j # q \<Rightarrow> if length (rp_threads p) < rp_workers p
         then p\<lparr>rp_queue := q, rp_threads := rp_threads p @ [(j, None)]\<rparr> else p)"

text \<open>\<open>cur = self._free.get()\<close> of the \<open>k\<close>-th thread; it blocks while no cursor is free.\<close>

definition pool_get :: "nat \<Rightarrow> ('c, 'j) read_pool \<Rightarrow> ('c, 'j) read_pool" where
  "pool_get k p = (if k < length (rp_threads p) then
       (case (rp_threads p ! k, rp_free p) of
          ((j, None), c # free) \<Rightarrow> p\<lparr>rp_free := free, rp_threads := (rp_threads p)[k := (j, Some c)]\<rparr>
        | _ \<Rightarrow> p) else p)"

text \<open>\<open>fn(cur)\<close> has returned or raised: \<open>finally\<close> puts the cursor back and the thread is free.\<close>

definition pool_return :: "nat \<Rightarrow> ('c, 'j) read_pool \<Rightarrow> ('c, 'j) read_pool" where
  "pool_return k p = (if k < length (rp_threads p) then
       (case snd (rp_threads p ! k) of
          Some c \<Rightarrow> p\<lparr>rp_free := rp_free p @ [c], rp_threads := take k (rp_threads p) @ drop (Suc k) (rp_threads p)\<rparr>
        | None \<Rightarrow> p) else p)"

text \<open>\<open>close\<close> interrupts every cursor, lent or not, before it joins the threads.\<close>

definition pool_close :: "('c, 'j) read_pool \<Rightarrow> ('c, 'j) read_pool" where
  "pool_close p = (if rp_closed p then p else p\<lparr>rp_closed := True, rp_interrupted := rp_all p\<rparr>)"

inductive pooled :: "('c, 'j) read_pool \<Rightarrow> bool" where
  created: "distinct cs \<Longrightarrow> length cs = n \<Longrightarrow> pooled (new_pool cs n)"
| queued: "pooled p \<Longrightarrow> pool_run j p = Inr p' \<Longrightarrow> pooled p'"
| given_thread: "pooled p \<Longrightarrow> pooled (pool_take p)"
| borrowed: "pooled p \<Longrightarrow> pooled (pool_get k p)"
| returned: "pooled p \<Longrightarrow> pooled (pool_return k p)"
| shut: "pooled p \<Longrightarrow> pooled (pool_close p)"

definition lent :: "('c, 'j) read_pool \<Rightarrow> 'c list" where
  "lent p = List.map_filter snd (rp_threads p)"

definition pool_inv :: "('c, 'j) read_pool \<Rightarrow> bool" where
  "pool_inv p \<longleftrightarrow> distinct (rp_all p) \<and> length (rp_all p) = rp_workers p \<and> length (rp_threads p) \<le> rp_workers p \<and>
     mset (rp_free p) + mset (lent p) = mset (rp_all p) \<and> (rp_closed p \<longrightarrow> rp_interrupted p = rp_all p)"

lemma map_filter_append: "List.map_filter f (xs @ ys) = List.map_filter f xs @ List.map_filter f ys"
  by (simp add: List.map_filter_def)

lemma map_filter_Cons: "List.map_filter f (x # xs) = (case f x of None \<Rightarrow> List.map_filter f xs | Some y \<Rightarrow> y # List.map_filter f xs)"
  by (simp add: List.map_filter_def split: option.splits)

lemma lent_upd:
  "k < length ts \<Longrightarrow> ts ! k = (i, None) \<Longrightarrow>
     mset (List.map_filter snd (ts[k := (j, Some c)])) = add_mset c (mset (List.map_filter snd ts))"
proof (induction ts arbitrary: k)
  case (Cons t ts)
  then show ?case by (cases k) (auto simp: map_filter_Cons split: option.splits)
qed simp

lemma lent_del:
  "k < length ts \<Longrightarrow> snd (ts ! k) = Some c \<Longrightarrow>
     mset (List.map_filter snd ts) = add_mset c (mset (List.map_filter snd (take k ts @ drop (Suc k) ts)))"
proof (induction ts arbitrary: k)
  case (Cons t ts)
  then show ?case by (cases k) (auto simp: map_filter_Cons split: option.splits)
qed simp

lemma pool_get_inv: "pool_inv p \<Longrightarrow> pool_inv (pool_get k p)"
proof (cases "\<exists>j c free. k < length (rp_threads p) \<and> rp_threads p ! k = (j, None) \<and> rp_free p = c # free")
  case True
  then obtain j c free where k: "k < length (rp_threads p)" "rp_threads p ! k = (j, None)" "rp_free p = c # free" by blast
  assume "pool_inv p"
  then show ?thesis using lent_upd [OF k(1,2), of j c] k
    by (simp add: pool_get_def pool_inv_def lent_def)
next
  case False
  then have "pool_get k p = p" by (auto simp: pool_get_def split: prod.splits option.splits list.splits)
  then show "pool_inv p \<Longrightarrow> ?thesis" by simp
qed

lemma pool_return_inv: "pool_inv p \<Longrightarrow> pool_inv (pool_return k p)"
proof (cases "\<exists>c. k < length (rp_threads p) \<and> snd (rp_threads p ! k) = Some c")
  case True
  then obtain c where k: "k < length (rp_threads p)" "snd (rp_threads p ! k) = Some c" by blast
  assume "pool_inv p"
  then show ?thesis using lent_del [OF k] k
    by (auto simp: pool_return_def pool_inv_def lent_def)
next
  case False
  then have "pool_return k p = p" by (auto simp: pool_return_def split: option.splits)
  then show "pool_inv p \<Longrightarrow> ?thesis" by simp
qed

lemma pooled_inv: "pooled p \<Longrightarrow> pool_inv p"
proof (induction rule: pooled.induct)
  case (given_thread p)
  then show ?case
    by (auto simp: pool_take_def pool_inv_def lent_def map_filter_append map_filter_Cons split: list.splits)
next
  case (borrowed p k)
  then show ?case by (simp add: pool_get_inv)
next
  case (returned p k)
  then show ?case by (simp add: pool_return_inv)
next
  case (queued p j p')
  then show ?case by (auto simp: pool_run_def pool_inv_def lent_def split: if_splits)
next
  case (shut p)
  then show ?case by (auto simp: pool_close_def pool_inv_def lent_def)
qed (simp add: new_pool_def pool_inv_def lent_def List.map_filter_def)

lemma map_filter_some: "length (List.map_filter f xs) \<le> length xs"
  "x \<in> set xs \<Longrightarrow> f x = None \<Longrightarrow> length (List.map_filter f xs) < length xs"
proof -
  show le: "length (List.map_filter f xs) \<le> length xs" for xs by (simp add: List.map_filter_def)
  show "x \<in> set xs \<Longrightarrow> f x = None \<Longrightarrow> length (List.map_filter f xs) < length xs"
    by (induction xs) (auto simp: map_filter_Cons le_imp_less_Suc le split: option.splits)
qed

end
