(* ===== verification/Engine_Clock.thy ===== *)
theory Engine_Clock
  imports Sql_Text
begin

text \<open>
  \<open>runtime/clock.py\<close>: the UTC timestamp of a write and its partition day, as texts. The reading of
  the system clock, in microseconds since 1970, is a parameter; the calendar and the two formats of
  \<open>datetime\<close> are written out. The code compares both texts as strings (the time window, the
  order of the task list), so their order has to be the order of time.
\<close>

section \<open>The calendar\<close>

definition leap :: "nat \<Rightarrow> bool" where
  "leap y \<longleftrightarrow> y mod 4 = 0 \<and> (y mod 100 \<noteq> 0 \<or> y mod 400 = 0)"

definition year_days :: "nat \<Rightarrow> nat" where
  "year_days y = (if leap y then 366 else 365)"

definition month_lengths :: "nat \<Rightarrow> nat list" where
  "month_lengths y = [31, if leap y then 29 else 28, 31, 30, 31, 30, 31, 31, 30, 31, 30, 31]"

lemma year_days_pos [simp]: "0 < year_days y"
  by (simp add: year_days_def)

function split_year :: "nat \<Rightarrow> nat \<Rightarrow> nat \<times> nat" where
  "split_year y d = (if d < year_days y then (y, d) else split_year (Suc y) (d - year_days y))"
  by pat_completeness auto
termination
  by (relation "measure snd") (auto simp: not_less intro!: diff_less intro: order.strict_trans2 [OF year_days_pos])

declare split_year.simps [simp del]

fun split_month :: "nat list \<Rightarrow> nat \<Rightarrow> nat \<Rightarrow> nat \<times> nat" where
  "split_month [] m d = (m, d)"
| "split_month (n # ns) m d = (if d < n then (m, d) else split_month ns (Suc m) (d - n))"

record date =
  dt_year :: nat
  dt_month :: nat
  dt_day :: nat

definition date_of :: "nat \<Rightarrow> date" where
  "date_of days = (case split_year 1970 days of (y, d) \<Rightarrow>
     (case split_month (month_lengths y) 1 d of (m, k) \<Rightarrow> \<lparr>dt_year = y, dt_month = m, dt_day = Suc k\<rparr>))"

section \<open>The two formats\<close>

fun padded :: "nat \<Rightarrow> nat \<Rightarrow> string" where
  "padded 0 n = []"
| "padded (Suc k) n = padded k (n div 10) @ [char_of (48 + n mod 10)]"

definition US_PER_DAY :: nat where "US_PER_DAY = 86400000000"

definition datetime_ok :: "nat \<Rightarrow> bool" where
  "datetime_ok us \<longleftrightarrow> dt_year (date_of (us div US_PER_DAY)) \<le> 9999"

definition time_text :: "nat \<Rightarrow> string" where
  "time_text us = padded 2 (us div 3600000000) @ '':'' @ padded 2 (us div 60000000 mod 60) @ '':'' @
     padded 2 (us div 1000000 mod 60) @
     (if us mod 1000000 = 0 then [] else ''.'' @ padded 6 (us mod 1000000)) @ ''+00:00''"

definition date_text :: "string \<Rightarrow> nat \<Rightarrow> string" where
  "date_text sep days = (let d = date_of days in
     padded 4 (dt_year d) @ sep @ padded 2 (dt_month d) @ sep @ padded 2 (dt_day d))"

definition now :: "nat \<Rightarrow> string res" where
  "now us = (if \<not> datetime_ok us then raise PyValueError ''year is out of range''
     else Inr (date_text ''-'' (us div US_PER_DAY) @ ''T'' @ time_text (us mod US_PER_DAY)))"

definition today :: "nat \<Rightarrow> string res" where
  "today us = (if \<not> datetime_ok us then raise PyValueError ''year is out of range''
     else Inr (date_text [] (us div US_PER_DAY)))"

section \<open>The calendar is monotone\<close>

lemma split_year_le: "split_year y d = (y', d') \<Longrightarrow> y \<le> y' \<and> d' < year_days y'"
  by (induction y d rule: split_year.induct) (subst (asm) split_year.simps, auto split: if_splits)

lemma split_year_mono:
  "a < b \<Longrightarrow> split_year y a = (p, d) \<Longrightarrow> split_year y b = (q, e) \<Longrightarrow> p < q \<or> p = q \<and> d < e"
proof (induction y a arbitrary: b rule: split_year.induct)
  case (1 y a)
  show ?case
  proof (cases "a < year_days y")
    case True
    then have pd: "p = y" "d = a" using 1 by (simp_all add: split_year.simps [of y a])
    show ?thesis
    proof (cases "b < year_days y")
      case True
      then show ?thesis using 1 pd by (simp add: split_year.simps [of y b])
    next
      case False
      then have "split_year (Suc y) (b - year_days y) = (q, e)" using 1 by (simp add: split_year.simps [of y b])
      from split_year_le [OF this] show ?thesis using pd by simp
    qed
  next
    case False
    then have "split_year (Suc y) (a - year_days y) = (p, d)" "split_year (Suc y) (b - year_days y) = (q, e)"
      "a - year_days y < b - year_days y"
      using 1(2-4) by (simp_all add: split_year.simps [of y a] split_year.simps [of y b] not_less diff_less_mono)
    from 1(1) [OF False this(3,1,2)] show ?thesis .
  qed
qed

lemma split_month_le: "split_month ns m d = (m', d') \<Longrightarrow> d < sum_list ns \<Longrightarrow>
    m \<le> m' \<and> m' < m + length ns \<and> d' < ns ! (m' - m)"
proof (induction ns m d rule: split_month.induct)
  case (2 n ns m d)
  show ?case
  proof (cases "d < n")
    case False
    then have "Suc m \<le> m' \<and> m' < Suc m + length ns \<and> d' < ns ! (m' - Suc m)" using 2 by auto
    moreover from this have "m' - m = Suc (m' - Suc m)" by arith
    ultimately show ?thesis by simp
  qed (use 2 in auto)
qed simp

lemma split_month_mono:
  "a < b \<Longrightarrow> b < sum_list ns \<Longrightarrow> split_month ns m a = (p, d) \<Longrightarrow> split_month ns m b = (q, e) \<Longrightarrow> p < q \<or> p = q \<and> d < e"
proof (induction ns m a arbitrary: b rule: split_month.induct)
  case (2 n ns m a)
  show ?case
  proof (cases "a < n")
    case True
    show ?thesis
    proof (cases "b < n")
      case False
      then have "split_month ns (Suc m) (b - n) = (q, e)" "b - n < sum_list ns" using 2 by auto
      from split_month_le [OF this] show ?thesis using 2 True by auto
    qed (use 2 True in auto)
  next
    case False
    then have "split_month ns (Suc m) (a - n) = (p, d)" "split_month ns (Suc m) (b - n) = (q, e)"
      "a - n < b - n" "b - n < sum_list ns"
      using 2(2-5) by (auto simp: diff_less_mono)
    from 2(1) [OF False this(3,4,1,2)] show ?thesis .
  qed
qed simp

lemma sum_month_lengths [simp]: "sum_list (month_lengths y) = year_days y"
  by (simp add: month_lengths_def year_days_def)

lemma month_lengths_bound: "i < 12 \<Longrightarrow> month_lengths y ! i \<le> 31"
  by (auto simp: month_lengths_def less_Suc_eq numeral_eq_Suc)

lemma date_of_bounds:
  "1970 \<le> dt_year (date_of n)" "1 \<le> dt_month (date_of n)" "dt_month (date_of n) \<le> 12"
  "1 \<le> dt_day (date_of n)" "dt_day (date_of n) \<le> month_lengths (dt_year (date_of n)) ! (dt_month (date_of n) - 1)"
proof -
  obtain y d where y: "split_year 1970 n = (y, d)" by fastforce
  obtain m k where m: "split_month (month_lengths y) (Suc 0) d = (m, k)" by fastforce
  have "d < sum_list (month_lengths y)" using split_year_le [OF y] by simp
  from split_month_le [OF m this] split_year_le [OF y]
  show "1970 \<le> dt_year (date_of n)" "1 \<le> dt_month (date_of n)" "dt_month (date_of n) \<le> 12"
    "1 \<le> dt_day (date_of n)" "dt_day (date_of n) \<le> month_lengths (dt_year (date_of n)) ! (dt_month (date_of n) - 1)"
    by (auto simp: date_of_def y m) (simp add: month_lengths_def)
qed

lemma date_of_two_digits: "dt_month (date_of n) < 100" "dt_day (date_of n) < 100"
proof -
  have "dt_month (date_of n) - 1 < 12" using date_of_bounds [of n] by simp
  from month_lengths_bound [OF this, of "dt_year (date_of n)"] date_of_bounds [of n]
  show "dt_month (date_of n) < 100" "dt_day (date_of n) < 100" by simp_all
qed

lemma date_of_mono:
  assumes "a < b"
  shows "dt_year (date_of a) < dt_year (date_of b) \<or> dt_year (date_of a) = dt_year (date_of b) \<and>
     (dt_month (date_of a) < dt_month (date_of b) \<or> dt_month (date_of a) = dt_month (date_of b) \<and>
      dt_day (date_of a) < dt_day (date_of b))"
proof -
  obtain p d q e where s: "split_year 1970 a = (p, d)" "split_year 1970 b = (q, e)" by fastforce
  obtain m k m' k' where t: "split_month (month_lengths p) (Suc 0) d = (m, k)" "split_month (month_lengths q) (Suc 0) e = (m', k')"
    by fastforce
  from split_year_mono [OF assms s] show ?thesis
  proof
    assume pq: "p = q \<and> d < e"
    moreover from this have "e < sum_list (month_lengths p)" using split_year_le [OF s(2)] by simp
    moreover from this have "m < m' \<or> m = m' \<and> k < k'"
      using split_month_mono [of d e "month_lengths p" "Suc 0" m k m' k'] t pq by simp
    ultimately show ?thesis using t s by (auto simp: date_of_def)
  qed (simp add: date_of_def s t)
qed

section \<open>So are the texts\<close>

lemma string_less_append: "length x = length y \<Longrightarrow> x < y \<Longrightarrow> x @ u < y @ (v :: string)"
  by (induction x y rule: list_induct2) auto

lemma same_prefix_less: "x @ u < x @ (v :: string) \<longleftrightarrow> u < v"
  by (induction x) auto

lemma padded_length [simp]: "length (padded k n) = k"
  by (induction k arbitrary: n) simp_all

lemma padded_digits: "list_all is_ascii_digit (padded k n)"
  by (induction k arbitrary: n) (auto simp: is_ascii_digit_def)

lemma digit_less: "m < 10 \<Longrightarrow> n < 10 \<Longrightarrow> char_of (48 + m) < (char_of (48 + n) :: char) \<longleftrightarrow> m < (n :: nat)"
  by (simp add: less_char_def)

lemma padded_mono: "m < n \<Longrightarrow> n < 10 ^ k \<Longrightarrow> padded k m < padded k n"
proof (induction k arbitrary: m n)
  case (Suc k)
  show ?case
  proof (cases "m div 10 = n div 10")
    case True
    then have "m mod 10 < n mod 10" using Suc.prems(1) by (metis div_mult_mod_eq nat_add_left_cancel_less)
    then show ?thesis using True by (simp add: same_prefix_less digit_less)
  next
    case False
    then have "m div 10 < n div 10" using Suc.prems(1) by (simp add: div_le_mono le_neq_implies_less)
    moreover have "n div 10 < 10 ^ k" using Suc.prems(2) by auto
    ultimately show ?thesis using Suc.IH by (simp add: string_less_append)
  qed
qed simp

lemma padded_prefix_less:
  "m < n \<and> n < 10 ^ k \<or> m = n \<and> u < v \<Longrightarrow> padded k m @ u < padded k n @ v"
  by (auto simp: same_prefix_less intro: string_less_append padded_mono)

lemma date_text_length: "length (date_text sep n) = 8 + 2 * length sep"
  by (simp add: date_text_def Let_def)

lemma date_text_mono: "a < b \<Longrightarrow> dt_year (date_of b) \<le> 9999 \<Longrightarrow> date_text sep a < date_text sep b"
  using date_of_mono [of a b] date_of_two_digits [of b]
  by (auto simp: date_text_def Let_def same_prefix_less intro!: padded_prefix_less)
    (auto intro: padded_mono)

lemma div_mod_less: "a < b \<Longrightarrow> a div k < b div k \<or> a div k = b div k \<and> a mod k < b mod (k :: nat)"
  by (metis div_le_mono div_mult_mod_eq le_neq_implies_less less_imp_le nat_add_left_cancel_less)

definition clock_text :: "nat \<Rightarrow> string" where
  "clock_text n = padded 2 (n div 60 div 60) @ '':'' @ padded 2 (n div 60 mod 60) @ '':'' @ padded 2 (n mod 60)"

definition micros_text :: "nat \<Rightarrow> string" where
  "micros_text n = (if n = 0 then [] else ''.'' @ padded 6 n) @ ''+00:00''"

lemma time_text_parts: "time_text us = clock_text (us div 1000000) @ micros_text (us mod 1000000)"
  by (simp add: time_text_def clock_text_def micros_text_def flip: div_mult2_eq)

lemma clock_text_length [simp]: "length (clock_text n) = 8"
  by (simp add: clock_text_def)

lemma clock_text_mono: "a < b \<Longrightarrow> b < 86400 \<Longrightarrow> clock_text a < clock_text b"
proof -
  assume "a < b" and b: "b < 86400"
  moreover have "n mod 60 < 10 ^ 2" for n :: nat by (rule order.strict_trans [of _ 60]) simp_all
  moreover have "b div 60 div 60 < 10 ^ 2" using b by (simp add: less_mult_imp_div_less)
  ultimately show ?thesis
    using div_mod_less [of a b 60] div_mod_less [of "a div 60" "b div 60" 60]
    unfolding clock_text_def by (fastforce simp: same_prefix_less intro: padded_prefix_less padded_mono)
qed

lemma micros_text_mono: "a < b \<Longrightarrow> b < 1000000 \<Longrightarrow> micros_text a < micros_text b"
  using padded_prefix_less [of a b 6] by (auto simp: micros_text_def less_char_def)

lemma time_text_mono:
  assumes "a < b" and "b < US_PER_DAY"
  shows "time_text a < time_text b"
proof (cases "a div 1000000 < b div 1000000")
  case True
  have "b div 1000000 < 86400" using assms(2) by (simp add: US_PER_DAY_def less_mult_imp_div_less)
  from clock_text_mono [OF True this] show ?thesis
    by (simp add: time_text_parts string_less_append)
next
  case False
  then show ?thesis using div_mod_less [OF assms(1), of 1000000]
    by (simp add: time_text_parts same_prefix_less micros_text_mono)
qed

section \<open>The order of the texts is the order of time\<close>

lemma datetime_ok_le: "a \<le> b \<Longrightarrow> datetime_ok b \<Longrightarrow> datetime_ok a"
  using date_of_mono [of "a div US_PER_DAY" "b div US_PER_DAY"] div_le_mono [of a b US_PER_DAY]
  by (auto simp: datetime_ok_def le_less)

lemma now_Inr: "now us = Inr s \<longleftrightarrow> datetime_ok us \<and>
    s = date_text ''-'' (us div US_PER_DAY) @ ''T'' @ time_text (us mod US_PER_DAY)"
  by (auto simp: now_def)

lemma today_Inr: "today us = Inr s \<longleftrightarrow> datetime_ok us \<and> s = date_text [] (us div US_PER_DAY)"
  by (auto simp: today_def)

lemma day_pos [simp]: "0 < US_PER_DAY"
  by (simp add: US_PER_DAY_def)

lemma now_mono: "a < b \<Longrightarrow> now a = Inr x \<Longrightarrow> now b = Inr y \<Longrightarrow> x < y"
  using div_mod_less [of a b US_PER_DAY] time_text_mono [of "a mod US_PER_DAY" "b mod US_PER_DAY"]
  by (auto simp: now_Inr same_prefix_less datetime_ok_def date_text_length day_pos
      intro: string_less_append date_text_mono)

lemma today_le: "a \<le> b \<Longrightarrow> today a = Inr x \<Longrightarrow> today b = Inr y \<Longrightarrow> x \<le> y"
  using div_le_mono [of a b US_PER_DAY]
  by (auto simp: today_Inr datetime_ok_def le_less intro: date_text_mono)

lemma today_digits: "today us = Inr s \<Longrightarrow> length s = 8 \<and> list_all is_ascii_digit s"
  using date_text_length [of "[]"] by (auto simp: today_Inr) (simp add: date_text_def Let_def padded_digits)

lemma digits_ds_match: "length s = 8 \<Longrightarrow> list_all is_ascii_digit s \<Longrightarrow> ds_match s"
proof -
  assume d: "length s = 8" "list_all is_ascii_digit s"
  then have "is_ascii_digit (last s)" by (cases s rule: rev_cases) auto
  then have "last s \<noteq> newline" by (auto simp: is_ascii_digit_def newline_def ord_def)
  then show ?thesis using d by (simp add: ds_match_def strip_nl_def)
qed

end
