(* ===== verification/Runtime_Props.thy ===== *)
theory Runtime_Props
  imports Async_Runtime Engine_Clock
begin

text \<open>
  What the services take from the runtime: times compare as their texts do, the bridge is a serial
  execution that a shutdown completes, a cursor is in one read's hands at a time.
\<close>

section \<open>The clock\<close>

lemma digits_of_date:
  "filter (\<lambda>c. c \<noteq> CHR ''-'') (take 10 (date_text ''-'' n @ s)) = date_text [] n"
proof -
  have "filter (\<lambda>c. c \<noteq> CHR ''-'') (padded k m) = padded k m" for k m
    using padded_digits [of k m] by (auto simp: filter_id_conv list_all_iff is_ascii_digit_def ord_def)
  then show ?thesis by (simp add: date_text_def Let_def)
qed

text \<open>C34: The texts of the clock are ordered as the times are: \<open>now\<close> strictly, \<open>today\<close> by the day; a day is a
  well-formed window bound and the date of the timestamp taken with it.\<close>

theorem clock_orders:
  assumes "now a = Inr x" and "now b = Inr y" and "today a = Inr p" and "today b = Inr q"
  shows "(x < y \<longleftrightarrow> a < b) \<and> (p < q \<longleftrightarrow> a div US_PER_DAY < b div US_PER_DAY) \<and> ds_match p \<and>
     filter (\<lambda>c. c \<noteq> CHR ''-'') (take 10 x) = p"
proof -
  have "x < y \<longleftrightarrow> a < b" using now_mono [of a b x y] now_mono [of b a y x] assms by (metis Inr_inject less_asym neq_iff)
  moreover have "p < q \<longleftrightarrow> a div US_PER_DAY < b div US_PER_DAY"
    using assms date_text_mono [of "a div US_PER_DAY" "b div US_PER_DAY" "[]"] date_text_mono [of "b div US_PER_DAY" "a div US_PER_DAY" "[]"]
    by (auto simp: today_Inr datetime_ok_def) (metis less_asym neq_iff)
  moreover have "ds_match p" using today_digits [OF assms(3)] digits_ds_match by blast
  moreover have "filter (\<lambda>c. c \<noteq> CHR ''-'') (take 10 x) = p"
    using assms digits_of_date by (auto simp: now_Inr today_Inr)
  ultimately show ?thesis by blast
qed

lemma split_year_step:
  "d < year_days y \<Longrightarrow> split_year y d = (y, d)"
  "\<not> d < year_days y \<Longrightarrow> split_year y d = split_year (Suc y) (d - year_days y)"
  by (simp_all add: split_year.simps [of y d])

lemma sample_dates:
  "date_of 19782 = \<lparr>dt_year = 2024, dt_month = 2, dt_day = 29\<rparr>"
  "date_of 19783 = \<lparr>dt_year = 2024, dt_month = 3, dt_day = 1\<rparr>"
  by (simp_all add: date_of_def split_year_step year_days_def leap_def month_lengths_def)

lemma digit_chars:
  "char_of (48 :: nat) = CHR ''0''" "char_of (49 :: nat) = CHR ''1''" "char_of (50 :: nat) = CHR ''2''"
  "char_of (51 :: nat) = CHR ''3''" "char_of (52 :: nat) = CHR ''4''" "char_of (53 :: nat) = CHR ''5''"
  "char_of (57 :: nat) = CHR ''9''"
  by code_simp+

lemma padded_two: "padded 2 n = [char_of (48 + n div 10 mod 10), char_of (48 + n mod 10)]"
  by (simp add: numeral_2_eq_2)

lemma padded_more: "padded (k + 2) n = padded k (n div 100) @ padded 2 n"
  by (simp add: padded_two flip: div_mult2_eq)

lemma padded_literal:
  "padded 4 n = padded 2 (n div 100) @ padded 2 n"
  "padded 6 n = padded 2 (n div 10000) @ padded 2 (n div 100) @ padded 2 n"
  using padded_more [of 2 n] padded_more [of 4 n] padded_more [of 2 "n div 100"] by (simp_all flip: div_mult2_eq)

text \<open>A leap day's last second, with and without microseconds, and the midnight after it.\<close>

theorem clock_orders_witness:
  "(case (now 1709251199000000, now 1709251200000001, today 1709251199000000, today 1709251200000001) of
      (Inr x, Inr y, Inr p, Inr q) \<Rightarrow> x = ''2024-02-29T23:59:59+00:00'' \<and> y = ''2024-03-01T00:00:00.000001+00:00'' \<and>
        x < y \<and> p < q \<and> ds_match p \<and> filter (\<lambda>c. c \<noteq> CHR ''-'') (take 10 x) = p
    | _ \<Rightarrow> False)"
proof -
  have r: "now 1709251199000000 = Inr ''2024-02-29T23:59:59+00:00''" "now 1709251200000001 = Inr ''2024-03-01T00:00:00.000001+00:00''"
    "today 1709251199000000 = Inr ''20240229''" "today 1709251200000001 = Inr ''20240301''"
    by (simp_all add: now_def today_def datetime_ok_def US_PER_DAY_def date_text_def time_text_def sample_dates padded_literal padded_two digit_chars Let_def)
  have d: "(1709251199000000 :: nat) < 1709251200000001"
    "(1709251199000000 :: nat) div US_PER_DAY < 1709251200000001 div US_PER_DAY" by (simp_all add: US_PER_DAY_def)
  show ?thesis unfolding r prod.case sum.case using clock_orders [OF r] d by blast
qed

section \<open>The bridge\<close>

text \<open>C21: Whatever arrives, ends or is cancelled in whatever order, what the jobs have done is a serial execution
  of jobs in the order they were handed in, with that execution's results, and every job handed in before
  the shutdown is among the finished, running or waiting ones unless its caller gave it up.\<close>

theorem bridge_serializes:
  "\<exists>past. serially past s0 = (br_results (bridge_after es (new_bridge s0)), br_state (bridge_after es (new_bridge s0))) \<and>
     subseq (past @ br_running (bridge_after es (new_bridge s0)) @ br_queue (bridge_after es (new_bridge s0))) (handed_in es) \<and>
     (\<forall>(n, f) \<in> set (handed_in es). \<not> given_up es n \<longrightarrow>
        (n, f) \<in> set (past @ br_running (bridge_after es (new_bridge s0)) @ br_queue (bridge_after es (new_bridge s0))))"
  using bridge_serial [of es s0] unfolding serial_so_far_def by blast

definition sample_bridge_run :: "(nat list, nat) bridge_event list" where
  "sample_bridge_run = [BRun 1 (\<lambda>xs. (length xs, xs @ [1])), BTake, BRun 2 (\<lambda>xs. (length xs, xs @ [2])), BCancel 1,
     BRun 3 (\<lambda>xs. (length xs, xs @ [3])), BCancel 2, BFinish, BTake, BClose, BRun 4 (\<lambda>xs. (length xs, xs @ [4])), BFinish]"

theorem bridge_serializes_witness:
  "br_results (bridge_after sample_bridge_run (new_bridge [])) = [(1, 0), (3, 1)] \<and>
   (\<exists>past. serially past [] = ([(1, 0), (3, 1)], [1, 3]) \<and>
      (\<forall>(n, f) \<in> set (handed_in sample_bridge_run). \<not> given_up sample_bridge_run n \<longrightarrow> (n, f) \<in> set past))"
proof -
  have r: "br_results (bridge_after sample_bridge_run (new_bridge [])) = [(1, 0), (3, 1)]"
    "br_state (bridge_after sample_bridge_run (new_bridge [])) = [1, 3]"
    "br_running (bridge_after sample_bridge_run (new_bridge [])) = []"
    "br_queue (bridge_after sample_bridge_run (new_bridge [])) = []"
    by (simp_all add: sample_bridge_run_def new_bridge_def bridge_run_def bridge_take_def bridge_finish_def
        bridge_cancel_def bridge_close_def)
  show ?thesis using bridge_serializes [of "[]" sample_bridge_run] unfolding r by auto
qed

text \<open>A shutdown loses nothing: from any state, after as many turns of the thread as jobs wait and one more, nothing
  is queued or running, and the jobs that were have run in their order.\<close>

lemma shutdown_drains:
  assumes "b = bridge_after es (new_bridge s0)"
    and "b' = bridge_after (rounds (Suc (length (br_queue b)))) (bridge_close b)"
  shows "bridge_joined b' \<and>
     serially (br_running b @ br_queue b) (br_state b) = (drop (length (br_results b)) (br_results b'), br_state b')"
proof -
  obtain past where "serial_so_far es s0 b past" using bridge_serial [of es s0] unfolding assms(1) [symmetric] ..
  then have "length (br_running b) \<le> 1" unfolding serial_so_far_def by (elim conjE)
  then have one: "length (br_running (bridge_close b)) \<le> 1" by (simp add: bridge_close_def)
  have c: "br_queue (bridge_close b) = br_queue b" "br_running (bridge_close b) = br_running b"
    "br_state (bridge_close b) = br_state b" "br_results (bridge_close b) = br_results b" "br_closed (bridge_close b)"
    by (simp_all add: bridge_close_def)
  obtain rs s where s: "serially (br_running b @ br_queue b) (br_state b) = (rs, s)" by fastforce
  have "b' = (bridge_close b)\<lparr>br_state := s, br_queue := [], br_running := [], br_results := br_results b @ rs\<rparr>"
    unfolding assms(2) using rounds_drain [OF one, of rs s] s by (simp only: c)
  then have b': "bridge_joined b'" "br_results b' = br_results b @ rs" "br_state b' = s"
    using c(5) by (simp_all add: bridge_joined_def)
  show ?thesis unfolding s b' using b'(1) by simp
qed

section \<open>The read pool\<close>

text \<open>C29: At every moment the free cursors and the lent ones are exactly the pool's, each once, so no two reads share
  a cursor; a read that has a thread never waits for a cursor; closing has interrupted every cursor, lent or free.\<close>

theorem cursor_lent_once:
  assumes "pooled p"
  shows "distinct (rp_free p @ lent p) \<and> set (rp_free p @ lent p) = set (rp_all p) \<and>
     (\<forall>(j, c) \<in> set (rp_threads p). c = None \<longrightarrow> rp_free p \<noteq> []) \<and>
     (rp_closed p \<longrightarrow> set (lent p) \<subseteq> set (rp_interrupted p))"
proof -
  have inv: "pool_inv p" by (rule pooled_inv [OF assms])
  then have m: "mset (rp_free p @ lent p) = mset (rp_all p)" by (simp add: pool_inv_def)
  have d: "distinct (rp_free p @ lent p)" using inv mset_eq_imp_distinct_iff [OF m] by (simp add: pool_inv_def)
  have e: "set (rp_free p @ lent p) = set (rp_all p)" by (rule mset_eq_setD [OF m])
  have "rp_free p \<noteq> []" if "(j, None) \<in> set (rp_threads p)" for j
  proof
    assume "rp_free p = []"
    then have "length (lent p) = rp_workers p" using mset_eq_length [OF m] inv by (simp add: pool_inv_def)
    moreover have "length (lent p) < length (rp_threads p)"
      using map_filter_some(2) [OF that, of snd] by (simp add: lent_def)
    ultimately show False using inv by (simp add: pool_inv_def)
  qed
  then show ?thesis using d e inv by (auto simp: pool_inv_def)
qed

definition sample_pool :: "(nat, nat) read_pool" where
  "sample_pool = pool_get 1 (pool_take (pool_return 0 (pool_close (pool_get 1 (pool_get 0 (pool_take (pool_take
     (new_pool [0, 1] 2\<lparr>rp_queue := [7, 8, 9]\<rparr>))))))))"

theorem cursor_lent_once_witness:
  "fst (create_pool (\<lambda>n. (n, Suc n)) 2 0) = (new_pool [0, 1] 2 :: (nat, nat) read_pool) \<and>
     distinct (rp_free sample_pool @ lent sample_pool) \<and> lent sample_pool = [1, 0] \<and>
     set (lent sample_pool) \<subseteq> set (rp_interrupted sample_pool)"
proof -
  let ?p = "new_pool [0, 1] 2 :: (nat, nat) read_pool"
  have "pooled ?p" by (rule pooled.created) simp_all
  then have "pooled (?p\<lparr>rp_queue := [7]\<rparr>)" by (rule pooled.queued [where j = 7]) (simp add: pool_run_def new_pool_def)
  then have "pooled (?p\<lparr>rp_queue := [7, 8]\<rparr>)" by (rule pooled.queued [where j = 8]) (simp add: pool_run_def new_pool_def)
  then have "pooled (?p\<lparr>rp_queue := [7, 8, 9]\<rparr>)" by (rule pooled.queued [where j = 9]) (simp add: pool_run_def new_pool_def)
  then have "pooled sample_pool" unfolding sample_pool_def
    by (intro pooled.borrowed pooled.given_thread pooled.returned pooled.shut)
  moreover have "lent sample_pool = [1, 0]" "rp_closed sample_pool" by code_simp+
  moreover have "fst (create_pool (\<lambda>n. (n, Suc n)) 2 0) = (new_pool [0, 1] 2 :: (nat, nat) read_pool)" by code_simp
  ultimately show ?thesis using cursor_lent_once [of sample_pool] by auto
qed

end
