(* ===== verification/Rebuild_Steps.thy ===== *)
theory Rebuild_Steps
  imports Storage_Facts Sample_Store
begin

text \<open>
  The rebuild as it runs beside other work: \<open>_replay\<close> of \<open>service/admin_service.py\<close> gives up control
  at every \<open>await\<close>. It reads the events of one table after the other, then hands one job after the
  other to the bridge. Left alone it is the atomic \<open>replay\<close>; what is written between the reading
  and the clearing is not in the tables afterwards.
\<close>

section \<open>The steps\<close>

datatype rstep =
    RClear string
  | RRow tablespec replay_table nat pyrow
  | RDelete tablespec del
  | RFts tablespec
  | RIndex tablespec replay_table

fun run_rstep :: "wenv \<Rightarrow> (nat \<Rightarrow> string) \<Rightarrow> rstep \<Rightarrow> (db, exn, unit) sm" where
  "run_rstep ev now (RClear t) = clear_table t"
| "run_rstep ev now (RRow spec rt i rec) = reload_row ev now spec rt (i, rec)"
| "run_rstep ev now (RDelete spec x) = reload_delete ev spec x"
| "run_rstep ev now (RFts spec) = rebuild_fts (e_cfg ev) (ts_name spec)"
| "run_rstep ev now (RIndex spec rt) = rebuild_search_index (e_cfg ev) spec (rt_recs rt) (rt_vecs rt) (rt_toks rt)"

definition table_steps :: "tablespec \<times> replay_table \<Rightarrow> rstep list" where
  "table_steps = (\<lambda>(spec, rt). map (\<lambda>(i, rec). RRow spec rt i rec) (enumerate 0 (rt_recs rt)) @
     map (RDelete spec) (rt_dels rt) @ [RFts spec, RIndex spec rt])"

definition rebuild_plan :: "tablespec list \<Rightarrow> (tablespec \<times> replay_table) list \<Rightarrow> rstep list" where
  "rebuild_plan specs rts = map (\<lambda>spec. RClear (ts_name spec)) specs @ concat (map table_steps rts)"

text \<open>How far a rebuild is: the tables still to read, or the jobs still to run.\<close>

datatype rebuilding =
    Reading "tablespec list" "(tablespec \<times> replay_table) list"
  | Applying "rstep list" pyrow
  | Rebuilt "pyrow res"

definition start_rebuild :: "wenv \<Rightarrow> rebuilding" where
  "start_rebuild ev = Reading (sc_tables (cfg_schema (e_cfg ev))) []"

fun rebuild_next :: "wenv \<Rightarrow> (nat \<Rightarrow> string) \<Rightarrow> rebuilding \<times> wstate \<Rightarrow> rebuilding \<times> wstate" where
  "rebuild_next ev now (Reading (spec # todo) rts, s) = (case read_table ev (w_files s) spec of
       Inl e \<Rightarrow> (Rebuilt (Inl e), s)
     | Inr rt \<Rightarrow> (Reading todo (rts @ [(spec, rt)]), s))"
| "rebuild_next ev now (Reading [] rts, s) =
     (Applying (rebuild_plan (sc_tables (cfg_schema (e_cfg ev))) rts) (replay_stats rts), s)"
| "rebuild_next ev now (Applying (x # xs) st, s) = (case on_db (run_rstep ev now x) s of
       (Inl e, s') \<Rightarrow> (Rebuilt (Inl e), s')
     | (Inr u, s') \<Rightarrow> (Applying xs st, s'))"
| "rebuild_next ev now (Applying [] st, s) = (Rebuilt (Inr st), s)"
| "rebuild_next ev now (Rebuilt r, s) = (Rebuilt r, s)"

section \<open>Left alone\<close>

lemma forM_table_steps: "forM (run_rstep ev now) (table_steps x) = reload_table ev now x"
proof -
  obtain spec rt where x: "x = (spec, rt)" by fastforce
  have app: "forM f (as @ bs) = bindM (forM f as) (\<lambda>_. forM f bs)" for f :: "rstep \<Rightarrow> (db, exn, unit) sm" and as bs
    by (induction as) (auto simp: fun_eq_iff bindM_def split: prod.splits sum.splits)
  have unit: "bindM m returnM = (m :: (db, exn, unit) sm)" for m
    by (auto simp: fun_eq_iff bindM_def split: prod.splits sum.splits)
  show ?thesis
    by (simp add: x table_steps_def reload_table_def app forM_map case_prod_unfold unit)
qed

lemma forM_append: "forM f (as @ bs) s = (case forM f as s of (Inl e, t) \<Rightarrow> (Inl e, t) | (Inr u, t) \<Rightarrow> forM f bs t)"
  by (induction as arbitrary: s) (auto simp: bindM_def split: prod.splits sum.splits)

lemma forM_steps: "forM (run_rstep ev now) (concat (map table_steps rts)) d = forM (reload_table ev now) rts d"
  by (induction rts arbitrary: d) (auto simp: forM_append forM_table_steps bindM_def split: prod.splits sum.splits)

definition read_all :: "wenv \<Rightarrow> mirror \<Rightarrow> tablespec list \<Rightarrow> (tablespec \<times> replay_table) list res" where
  "read_all ev m specs = mapR (\<lambda>spec. bindR (read_table ev m spec) (\<lambda>rt. Inr (spec, rt))) specs"

lemma replay_plan:
  "replay ev m now d = (case read_all ev m (sc_tables (cfg_schema (e_cfg ev))) of
     Inl e \<Rightarrow> (Inl e, d)
   | Inr rts \<Rightarrow> (case forM (run_rstep ev now) (rebuild_plan (sc_tables (cfg_schema (e_cfg ev))) rts) d of
        (Inl e, d') \<Rightarrow> (Inl e, d') | (Inr u, d') \<Rightarrow> (Inr (replay_stats rts), d')))"
  by (auto simp: replay_def read_all_def rebuild_plan_def Let_def forM_append forM_map forM_steps bindM_def
      split: sum.splits prod.splits)

lemma steps_add: "(f ^^ m) x = y \<Longrightarrow> (f ^^ n) y = z \<Longrightarrow> (f ^^ (n + m)) x = z"
  by (simp add: funpow_add)

lemma steps_first: "f x = y \<Longrightarrow> (f ^^ n) y = z \<Longrightarrow> (f ^^ (n + 1)) x = z"
  using steps_add [of 1 f x y n z] by simp

lemma reading_runs:
  "\<exists>n. (rebuild_next ev now ^^ n) (Reading todo rts, s) = (case read_all ev (w_files s) todo of
     Inl e \<Rightarrow> (Rebuilt (Inl e), s) | Inr xs \<Rightarrow> (Reading [] (rts @ xs), s))"
proof (induction todo arbitrary: rts)
  case Nil
  show ?case by (intro exI [of _ 0]) (simp add: read_all_def)
next
  case (Cons spec todo)
  show ?case
  proof (cases "read_table ev (w_files s) spec")
    case (Inl e)
    then show ?thesis by (intro exI [of _ 1]) (simp add: read_all_def)
  next
    case (Inr rt)
    obtain n where n: "(rebuild_next ev now ^^ n) (Reading todo (rts @ [(spec, rt)]), s) =
      (case read_all ev (w_files s) todo of Inl e \<Rightarrow> (Rebuilt (Inl e), s) | Inr xs \<Rightarrow> (Reading [] ((rts @ [(spec, rt)]) @ xs), s))"
      using Cons.IH by blast
    have "rebuild_next ev now (Reading (spec # todo) rts, s) = (Reading todo (rts @ [(spec, rt)]), s)" using Inr by simp
    from steps_first [OF this n] show ?thesis using Inr
      by (intro exI [of _ "n + 1"]) (auto simp: read_all_def split: sum.splits)
  qed
qed

lemma applying_runs:
  "\<exists>n. (rebuild_next ev now ^^ n) (Applying xs st, s) = (case forM (run_rstep ev now) xs (w_db s) of
     (Inl e, d) \<Rightarrow> (Rebuilt (Inl e), s\<lparr>w_db := d\<rparr>) | (Inr u, d) \<Rightarrow> (Rebuilt (Inr st), s\<lparr>w_db := d\<rparr>))"
proof (induction xs arbitrary: s)
  case Nil
  show ?case by (intro exI [of _ 1]) simp
next
  case (Cons x xs)
  obtain q d where x: "run_rstep ev now x (w_db s) = (q, d)" by fastforce
  show ?case
  proof (cases q)
    case (Inl e)
    then show ?thesis using x by (intro exI [of _ 1]) (simp add: on_db_def bindM_def)
  next
    case (Inr u)
    obtain r d' where r: "forM (run_rstep ev now) xs d = (r, d')" by fastforce
    obtain n where n: "(rebuild_next ev now ^^ n) (Applying xs st, s\<lparr>w_db := d\<rparr>) =
        (Rebuilt (case r of Inl e \<Rightarrow> Inl e | Inr u \<Rightarrow> Inr st), s\<lparr>w_db := d'\<rparr>)"
      using Cons.IH [of "s\<lparr>w_db := d\<rparr>"] r by (cases r) auto
    have "rebuild_next ev now (Applying (x # xs) st, s) = (Applying xs st, s\<lparr>w_db := d\<rparr>)" using x Inr by (simp add: on_db_def)
    from steps_first [OF this n] show ?thesis using x Inr r
      by (intro exI [of _ "n + 1"]) (cases r; simp add: bindM_def)
  qed
qed


section \<open>Cut short\<close>

lemma applying_prefix:
  "forM (run_rstep ev now) xs (w_db s) = (Inr u, d) \<Longrightarrow>
     (rebuild_next ev now ^^ length xs) (Applying (xs @ ys) st, s) = (Applying ys st, s\<lparr>w_db := d\<rparr>)"
proof (induction xs arbitrary: s)
  case (Cons x xs)
  then obtain d1 where x: "run_rstep ev now x (w_db s) = (Inr (), d1)" "forM (run_rstep ev now) xs d1 = (Inr u, d)"
    by (auto simp: bindM_Inr)
  have "(rebuild_next ev now ^^ length xs) (Applying (xs @ ys) st, s\<lparr>w_db := d1\<rparr>) = (Applying ys st, s\<lparr>w_db := d\<rparr>)"
    using Cons.IH [of "s\<lparr>w_db := d1\<rparr>"] x(2) by simp
  moreover have "rebuild_next ev now (Applying ((x # xs) @ ys) st, s) = (Applying (xs @ ys) st, s\<lparr>w_db := d1\<rparr>)"
    using x(1) by (simp add: on_db_def)
  ultimately show ?case using steps_first [of "rebuild_next ev now"] by fastforce
qed simp

text \<open>A rebuild that is cancelled, times out or dies after its clearing leaves every table empty: the clearing and
  the loading are not one transaction.\<close>

lemma rebuild_cut_short:
  assumes "create_tables (e_cfg ev) = Inr ddl"
  shows "\<exists>d. (rebuild_next ev now ^^ length (sc_tables (cfg_schema (e_cfg ev))))
       (Applying (rebuild_plan (sc_tables (cfg_schema (e_cfg ev))) rts) st, s) =
         (Applying (concat (map table_steps rts)) st, s\<lparr>w_db := d\<rparr>) \<and>
     (\<forall>spec \<in> set (sc_tables (cfg_schema (e_cfg ev))). rows_of d (ts_name spec) = [])"
proof -
  let ?specs = "sc_tables (cfg_schema (e_cfg ev))"
  obtain d where d: "forM (\<lambda>spec. clear_table (ts_name spec)) ?specs (w_db s) = (Inr (), d)"
    "\<forall>t. rows_of d t = (if t \<in> ts_name ` set ?specs then [] else rows_of (w_db s) t)"
    using clear_all [of ?specs "w_db s"] create_tables_names [OF assms] by blast
  have "forM (run_rstep ev now) (map (\<lambda>spec. RClear (ts_name spec)) ?specs) (w_db s) = (Inr (), d)"
    using d(1) by (simp add: forM_map)
  from applying_prefix [OF this, of "concat (map table_steps rts)" st] show ?thesis
    using d(2) by (intro exI [of _ d]) (simp add: rebuild_plan_def)
qed

section \<open>Beside a write\<close>

lemma plan_restores:
  assumes env: "env_ok ev g" and ddl: "create_tables (e_cfg ev) = Inr ddl" and srv: "served ev ds s0"
  shows "\<exists>rts d. read_all ev (w_files s0) (sc_tables (cfg_schema (e_cfg ev))) = Inr rts \<and>
     forM (run_rstep ev now) (rebuild_plan (sc_tables (cfg_schema (e_cfg ev))) rts) (w_db s1) = (Inr (), d) \<and>
     (\<forall>spec \<in> set (sc_tables (cfg_schema (e_cfg ev))). rows_of d (ts_name spec) = rows_of (w_db s0) (ts_name spec))"
proof -
  obtain stats d where r: "replay ev (w_files s0) now (w_db s1) = (Inr stats, d)"
    and rows: "\<forall>spec \<in> set (sc_tables (cfg_schema (e_cfg ev))). restored ev d (rows_of (w_db s0)) spec"
    using replay_restores [OF env ddl, of s0 now "w_db s1"] served_synced [OF srv env ddl] by auto
  from r show ?thesis using rows by (auto simp: replay_plan restored_def split: sum.splits prod.splits)
qed


definition sample_late :: wop where
  "sample_late = OpInsert ''docs'' [[(''id'', PStr ''c''), (''body'', PStr ''late note'')]] False"

definition sample_during :: wstate where
  "sample_during = snd (execute_one sample_env day2 ''t3'' sample_late state2)"


end
