(* ===== verification/Write_Crash.thy ===== *)
theory Write_Crash
  imports Write_Service
begin

text \<open>
  A batch of writes that the end of the process cuts short. Every line of the mirror and every row is
  made durable on its own (\<open>os.fsync\<close> per line, one \<open>INSERT\<close> per row), so what is left is the effect of
  the first \<open>n\<close> of them.
\<close>

section \<open>One operation, cut\<close>

text \<open>The operation after \<open>n\<close> lines and rows: \<open>execute_one\<close> without what follows.\<close>

fun cut_one :: "wenv \<Rightarrow> string \<Rightarrow> string \<Rightarrow> nat \<Rightarrow> wop \<Rightarrow> (wstate, exn, unit) sm" where
  "cut_one ev ds ts n (OpInsert table rws skip) =
     bindM (readM (\<lambda>s. validate (e_cfg ev) (w_db s) table rws skip)) (\<lambda>recs.
     bindM (liftM (schema_table (cfg_schema (e_cfg ev)) table)) (\<lambda>spec.
     if recs = [] then returnM ()
     else
       bindM (liftM (embed_rows ev spec recs)) (\<lambda>(vs, ks).
       bindM (liftM (mapR (put_line spec ds ts) recs)) (\<lambda>lines.
       bindM (on_files (forM (mirror_append ds (ts_name spec)) (take n lines))) (\<lambda>_.
       if n \<le> length lines then returnM ()
       else bindM (liftM (insert_payload (e_cfg ev) spec 0 recs vs ks (PStr ds) (PStr ts))) (\<lambda>irs.
         on_db (forM (insert_one (e_duck ev) spec) (take (n - length lines) irs))))))))"
| "cut_one ev ds ts n (OpDelete table wh params) =
     bindM (readM (\<lambda>s. match_live (e_cfg ev) (e_duck ev) (w_db s) table wh params)) (\<lambda>keys.
     bindM (on_files (write_deletes table (take n keys) ds ts)) (\<lambda>_.
     if n \<le> length keys then returnM ()
     else on_db (soft_delete (e_cfg ev) (e_duck ev) table keys (PStr ds) (PStr ts))))"
| "cut_one ev ds ts n (OpUnknown k) = returnM ()"

text \<open>Cut before its first line nothing has happened; cut after its last row, all of it, up to the side index.\<close>

lemma cut_nothing: "snd (cut_one ev ds ts 0 op s) = s"
  by (cases op) (auto simp: bindM_def readM_def liftM_def returnM_def on_files_def write_deletes_def split: sum.splits prod.splits)

lemma cut_delete_all:
  assumes "execute_one ev ds ts (OpDelete table wh params) s = (Inr ex, s')"
  shows "\<exists>k. \<forall>n \<ge> k. cut_one ev ds ts n (OpDelete table wh params) s = (Inr (), s')"
proof -
  obtain keys where "match_live (e_cfg ev) (e_duck ev) (w_db s) table wh params = Inr keys" using assms by (auto simp: sm_iff)
  with assms show ?thesis by (intro exI [of _ "Suc (length keys)"]) (auto simp: bindM_def readM_def returnM_def split: prod.splits sum.splits)
qed

lemma cut_insert_all:
  assumes "execute_one ev ds ts (OpInsert table rws skip) s = (Inr ex, s')"
  shows "\<exists>k. \<forall>n \<ge> k. \<exists>w. cut_one ev ds ts n (OpInsert table rws skip) s = (Inr (), w) \<and>
     w_files w = w_files s' \<and> db_rows (w_db w) = db_rows (w_db s')"
  using assms
proof (cases rule: insert_Inr)
  case (none spec)
  then show ?thesis by (auto simp: bindM_def readM_def liftM_def returnM_def)
next
  case (some spec recs vs ks m d1 d2)
  obtain lines where l: "mapR (put_line spec ds ts) recs = Inr lines" "forM (mirror_append ds (ts_name spec)) lines (w_files s) = (Inr (), m)"
    using some(5) by (auto simp: write_puts_def bindM_Inr)
  obtain irs where i: "insert_payload (e_cfg ev) spec 0 recs vs ks (PStr ds) (PStr ts) = Inr irs"
    "forM (insert_one (e_duck ev) spec) irs (w_db s) = (Inr (), d1)"
    using some(6) by (auto simp: commit_rows_def insert_rows_def bindM_Inr)
  have rows: "db_rows d2 = db_rows d1" using some(7) by (auto simp: index_search_rows_def lance_write_def split: if_splits)
  have "cut_one ev ds ts n (OpInsert table rws skip) s = (Inr (), s\<lparr>w_files := m, w_db := d1\<rparr>)"
    if n: "Suc (length lines + length irs) \<le> n" for n
  proof -
    have t: "take n lines = lines" "take (n - length lines) irs = irs" "\<not> n \<le> length lines" using n by simp_all
    show ?thesis using some(1-4) by (simp add: bindM_def readM_def liftM_def on_files_def on_db_def t l i)
  qed
  then show ?thesis using some(8) rows by (intro exI [of _ "Suc (length lines + length irs)"]) simp
qed

section \<open>A batch, cut\<close>

text \<open>\<open>k\<close> operations are through; of the next, \<open>n\<close> lines and rows; or, of what follows the last, \<open>n\<close> index
  rebuilds and task records.\<close>

definition crash_batch :: "wenv \<Rightarrow> string \<Rightarrow> nat \<Rightarrow> nat \<Rightarrow> job list \<Rightarrow> wstate \<Rightarrow> tlog \<Rightarrow> wstate \<times> tlog" where
  "crash_batch ev ts k n js s lg =
     (case execute_batch ev (take k js) s of (rs, w) \<Rightarrow>
        if k < length js
        then (snd (cut_one ev (j_ds (js ! k)) (j_ts (js ! k)) n (j_op (js ! k)) w), lg)
        else (let fs = remdups (concat (map fts_table rs)) in
          (rebuild_tables ev (take n fs) w, snd (append_tasks (take (n - length fs) (batch_tasks ts js rs)) lg))))"

end
