(* ===== verification/Live_System.thy ===== *)
theory Live_System
  imports Rebuild_Steps Task_Props Client_Port Plan_Exec Engine_Clock Write_Crash
begin

text \<open>
  The parts together: one open database with its mirror, tables, task log, result files, read
  cursors, clock and the background tasks that are alive, and the services of
  \<open>service/__init__.py\<close> over it, as the executors and the HTTP handlers call them. A batch of queued
  writes, a query, one step of a background task and one step of a rebuild are single steps; between
  any two of them anything else may happen.
\<close>

section \<open>State\<close>

datatype bg_work = BgQuery query_args | BgRebuild rebuilding

record bgjob =
  bj_task :: task
  bj_pc :: pc
  bj_work :: bg_work

text \<open>\<open>lv_hex\<close> counts the random parts of ids drawn so far.\<close>

record 'c live =
  lv_w :: wstate
  lv_ts :: tstate
  lv_cur :: 'c
  lv_clock :: nat
  lv_hex :: nat
  lv_jobs :: "(string, bgjob) dict"

text \<open>
  The configuration and the outside world: the \<open>n\<close>-th random part, and whether the bridge job of a
  cancelled task had run when the cancellation came.
\<close>

record 'c live_env =
  le_w :: wenv
  le_policy :: policy
  le_registry :: registry
  le_cursor :: "('c \<times> db) cursor"
  le_chain :: "string list list \<Rightarrow> string \<Rightarrow> string res"
  le_hex :: "nat \<Rightarrow> string"
  le_timeout :: nat
  le_landed :: "string \<Rightarrow> bool"

section \<open>Arguments\<close>

text \<open>
  The services take what a caller passes. Texts, lists and rows of the declared types are the model's
  arguments; an argument of another JSON type, which only a hand-written HTTP body can hold, is
  outside of it and refused here.
\<close>

definition text_arg :: "pyval \<Rightarrow> string option res" where
  "text_arg v = (case v of PStr s \<Rightarrow> Inr (Some s) | PNone \<Rightarrow> Inr None | _ \<Rightarrow> raise PyTypeError ''argument'')"

definition list_arg :: "pyval \<Rightarrow> pyval list res" where
  "list_arg v = (case v of PList xs \<Rightarrow> Inr xs | _ \<Rightarrow> raise PyTypeError ''argument'')"

definition row_arg :: "pyval \<Rightarrow> pyrow res" where
  "row_arg v = (case v of PDict d \<Rightarrow> Inr d | _ \<Rightarrow> raise PyTypeError ''argument'')"

definition table_arg :: "pyval \<Rightarrow> string res" where
  "table_arg v = bindR (text_arg v) (\<lambda>t. case t of None \<Rightarrow> raise SchemaError ''unknown table'' | Some n \<Rightarrow> Inr n)"

section \<open>Reading\<close>

definition on_engine :: "('c \<times> db, exn, 'a) sm \<Rightarrow> ('c live, exn, 'a) sm" where
  "on_engine m s = (case m (lv_cur s, w_db (lv_w s)) of
     (r, (c, d)) \<Rightarrow> (r, s\<lparr>lv_cur := c, lv_w := (lv_w s)\<lparr>w_db := d\<rparr>\<rparr>))"

definition engine_query ::
    "'c live_env \<Rightarrow> string option \<Rightarrow> pyval list \<Rightarrow> string option \<Rightarrow> string option \<Rightarrow> ('c \<times> db, exn, pyrow list) sm" where
  "engine_query env sql ps a b = query_service (le_policy env) (le_registry env) (e_cfg (le_w env)) (e_emb (le_w env))
     (le_cursor env) (le_chain env) sql ps a b"

definition live_query :: "'c live_env \<Rightarrow> query_args \<Rightarrow> ('c live, exn, pyrow) sm" where
  "live_query env qa =
     bindM (liftM (text_arg (qa_sql qa))) (\<lambda>sql. bindM (liftM (list_arg (qa_params qa))) (\<lambda>ps.
     bindM (liftM (text_arg (qa_start qa))) (\<lambda>a. bindM (liftM (text_arg (qa_end qa))) (\<lambda>b.
     bindM (on_engine (engine_query env sql ps a b)) (\<lambda>rows.
     returnM [(''rows'', PList (map PDict rows))])))))"

section \<open>Ids and times\<close>

definition read_now :: "('c live, exn, string) sm" where
  "read_now s = (now (lv_clock s), s)"

definition read_today :: "('c live, exn, string) sm" where
  "read_today s = (today (lv_clock s), s)"

definition draw_id :: "'c live_env \<Rightarrow> ('c live, exn, string) sm" where
  "draw_id env = bindM read_today (\<lambda>d s. (Inr (new_task_id d (le_hex env (lv_hex s))), s\<lparr>lv_hex := Suc (lv_hex s)\<rparr>))"

section \<open>Writing\<close>

text \<open>The jobs of a batch: each operation with the day, the time and the id it will get.\<close>

fun draw_jobs :: "'c live_env \<Rightarrow> wop list \<Rightarrow> ('c live, exn, job list) sm" where
  "draw_jobs env [] = returnM []"
| "draw_jobs env (w # ws) =
     bindM read_today (\<lambda>d. bindM read_now (\<lambda>t. bindM (draw_id env) (\<lambda>i. bindM (draw_jobs env ws) (\<lambda>js.
     returnM (\<lparr>j_op = w, j_ds = d, j_ts = t, j_id = i\<rparr> # js)))))"

definition run_batch :: "'c live_env \<Rightarrow> string \<Rightarrow> job list \<Rightarrow> ('c live, exn, task res list) sm" where
  "run_batch env ts js s = (case process_batch (le_w env) ts js \<lparr>b_w = lv_w s, b_log = ts_log (lv_ts s)\<rparr> of
     (out, b) \<Rightarrow> (Inr out, s\<lparr>lv_w := b_w b, lv_ts := (lv_ts s)\<lparr>ts_log := b_log b\<rparr>\<rparr>))"

definition live_batch :: "'c live_env \<Rightarrow> wop list \<Rightarrow> ('c live, exn, task res list) sm" where
  "live_batch env ws = bindM (draw_jobs env ws) (\<lambda>js. bindM read_now (\<lambda>t. run_batch env t js))"

text \<open>The process ends during a batch: its tasks are gone, what was durable by then is left.\<close>

definition live_crash :: "'c live_env \<Rightarrow> wop list \<Rightarrow> nat \<Rightarrow> nat \<Rightarrow> ('c live, exn, unit) sm" where
  "live_crash env ws k n = bindM (draw_jobs env ws) (\<lambda>js. bindM read_now (\<lambda>t s. (Inr (),
     case crash_batch (le_w env) t k n js (lv_w s) (ts_log (lv_ts s)) of
       (w, lg) \<Rightarrow> s\<lparr>lv_w := w, lv_ts := (lv_ts s)\<lparr>ts_log := lg\<rparr>, lv_jobs := []\<rparr>)))"

definition live_write :: "'c live_env \<Rightarrow> wop \<Rightarrow> ('c live, exn, task) sm" where
  "live_write env w = bindM (live_batch env [w]) (\<lambda>out. liftM (hd out))"

definition live_insert :: "'c live_env \<Rightarrow> pyval \<Rightarrow> pyval \<Rightarrow> ('c live, exn, task) sm" where
  "live_insert env table rws =
     bindM (liftM (bindR (list_arg rws) (mapR row_arg))) (\<lambda>rs.
     bindM (liftM (table_arg table)) (\<lambda>t. live_write env (OpInsert t rs False)))"

definition live_delete :: "'c live_env \<Rightarrow> pyval \<Rightarrow> pyval \<Rightarrow> pyval \<Rightarrow> ('c live, exn, task) sm" where
  "live_delete env table wh params =
     bindM (liftM (text_arg wh)) (\<lambda>w.
     bindM (liftM (list_arg params)) (\<lambda>ps.
     bindM (liftM (delete_op [] w ps)) (\<lambda>_.
     bindM (liftM (table_arg table)) (\<lambda>t.
     bindM (liftM (delete_op t w ps)) (\<lambda>x. live_write env x)))))"

section \<open>Background tasks\<close>

definition view_job :: "'c live \<Rightarrow> string \<Rightarrow> bgjob \<Rightarrow> drive" where
  "view_job s i j = \<lparr>d_id = i, d_task = bj_task j, d_pc = bj_pc j, d_st = lv_ts s\<rparr>"

text \<open>The done-callback takes an ended wrapper out of \<open>_live\<close>.\<close>

definition put_job :: "drive \<Rightarrow> bg_work \<Rightarrow> 'c live \<Rightarrow> 'c live" where
  "put_job d work s = s\<lparr>lv_ts := d_st d, lv_jobs := (if d_pc d = Ended then AList.delete (d_id d) (lv_jobs s)
     else dict_set (lv_jobs s) (d_id d) \<lparr>bj_task = d_task d, bj_pc = d_pc d, bj_work = work\<rparr>)\<rparr>"

definition live_launch :: "'c live_env \<Rightarrow> bool \<Rightarrow> string \<Rightarrow> pyval \<Rightarrow> bg_work \<Rightarrow> ('c live, exn, task) sm" where
  "live_launch env adopted opn query work =
     bindM (draw_id env) (\<lambda>i. bindM read_now (\<lambda>t s. (case launch adopted i opn query t (lv_ts s) of
       Inl e \<Rightarrow> (Inl e, s) | Inr d \<Rightarrow> (Inr (d_task d), put_job d work s))))"

definition live_submit :: "'c live_env \<Rightarrow> query_args \<Rightarrow> ('c live, exn, task) sm" where
  "live_submit env qa = bindM (liftM (text_arg (qa_sql qa))) (\<lambda>q. live_launch env False ''query'' (opt_str q) (BgQuery qa))"

definition live_adopt :: "'c live_env \<Rightarrow> query_args \<Rightarrow> ('c live, exn, task) sm" where
  "live_adopt env qa = bindM (liftM (text_arg (qa_sql qa))) (\<lambda>q. live_launch env True ''query'' (opt_str q) (BgQuery qa))"

definition live_rebuild :: "'c live_env \<Rightarrow> ('c live, exn, task) sm" where
  "live_rebuild env = live_launch env False ''rebuild'' PNone (BgRebuild (start_rebuild (le_w env)))"

definition task_outcome :: "pyrow res \<Rightarrow> outcome" where
  "task_outcome r = (case r of Inl e \<Rightarrow> Failed e | Inr d \<Rightarrow> Returned (PDict d))"

text \<open>What a task that waits for its work does next; \<open>None\<close> while the work goes on.\<close>

definition work_next :: "'c live_env \<Rightarrow> string \<Rightarrow> bg_work \<Rightarrow> 'c live \<Rightarrow> outcome option \<times> bg_work \<times> 'c live" where
  "work_next env tm work s = (case work of
       BgQuery qa \<Rightarrow> (case live_query env qa s of (r, s') \<Rightarrow> (Some (task_outcome r), work, s'))
     | BgRebuild p \<Rightarrow> (case rebuild_next (le_w env) (\<lambda>_. tm) (p, lv_w s) of (p', w) \<Rightarrow>
         (case p' of Rebuilt r \<Rightarrow> Some (task_outcome r) | _ \<Rightarrow> None, BgRebuild p', s\<lparr>lv_w := w\<rparr>)))"

definition advance_job :: "'c live_env \<Rightarrow> string \<Rightarrow> bool \<Rightarrow> string \<Rightarrow> bgjob \<Rightarrow> 'c live \<Rightarrow> 'c live" where
  "advance_job env tm timed_out i j s =
     (if bj_pc j = Working \<and> \<not> timed_out
      then (case work_next env tm (bj_work j) s of
          (Some out, work, s') \<Rightarrow> put_job (drive_next (le_timeout env) (Proceed out tm) (view_job s' i j)) work s'
        | (None, work, s') \<Rightarrow> put_job (view_job s' i j) work s')
      else put_job (drive_next (le_timeout env) (Proceed TimedOut tm) (view_job s i j)) (bj_work j) s)"

definition live_advance :: "'c live_env \<Rightarrow> bool \<Rightarrow> string \<Rightarrow> ('c live, exn, unit) sm" where
  "live_advance env timed_out i = bindM read_now (\<lambda>tm s. (Inr (), case map_of (lv_jobs s) i of
     None \<Rightarrow> s | Some j \<Rightarrow> advance_job env tm timed_out i j s))"

section \<open>The log\<close>

definition live_status :: "string \<Rightarrow> ('c live, exn, task) sm" where
  "live_status i s = (task_status (ts_log (lv_ts s)) i, s)"

text \<open>A negative limit reads no partition, as zero does.\<close>

definition live_list :: "int \<Rightarrow> ('c live, exn, task list) sm" where
  "live_list limit s = (task_list (ts_log (lv_ts s)) (nat limit), s)"

definition live_result :: "string \<Rightarrow> ('c live, exn, pyval list) sm" where
  "live_result i s = (task_result (lv_ts s) i, s)"

definition live_cancel :: "'c live_env \<Rightarrow> string \<Rightarrow> ('c live, exn, task) sm" where
  "live_cancel env i = bindM read_now (\<lambda>tm s. (case map_of (lv_jobs s) i of
       None \<Rightarrow> live_status i s
     | Some j \<Rightarrow> (case cancel_task (le_timeout env) (le_landed env i) tm (view_job s i j) of
          (d, r) \<Rightarrow> (r, put_job d (bj_work j) s))))"

definition live_services :: "'c live_env \<Rightarrow> 'c live services" where
  "live_services env = \<lparr>sv_query = live_query env, sv_submit = live_submit env, sv_adopt = live_adopt env,
     sv_insert = live_insert env, sv_delete = live_delete env, sv_status = live_status, sv_list = live_list,
     sv_result = live_result, sv_cancel = live_cancel env, sv_rebuild = live_rebuild env\<rparr>"

section \<open>Steps\<close>

text \<open>\<open>close\<close> of the task service: every wrapper is cancelled and awaited, whatever it raises.\<close>

fun close_jobs :: "'c live_env \<Rightarrow> string list \<Rightarrow> 'c live \<Rightarrow> 'c live" where
  "close_jobs env [] s = s"
| "close_jobs env (i # is) s = close_jobs env is (snd (live_cancel env i s))"

text \<open>
  \<open>Call\<close>: a request of the embedded client; \<open>Late\<close>: an HTTP query that outlives its wait; \<open>Writes\<close>: a
  batch that queued up, from streams too; \<open>Crash\<close>: such a batch during which the process ends; \<open>Advance\<close>: a step of a background task, which may run into its
  timeout; \<open>Tick\<close>: time passes; \<open>Quit\<close>: the background tasks are closed; \<open>Reopen\<close>: the process has ended,
  however it did, and its files are opened again at the given time, with the modification times of the
  log's partitions and of the result files.
\<close>

datatype live_act = Call request | Late request | Writes "wop list" | Crash "wop list" nat nat | Advance string bool | Tick nat | Quit
  | Reopen int "string \<Rightarrow> int" "string \<Rightarrow> int"

fun live_next :: "'c live_env \<Rightarrow> live_act \<Rightarrow> 'c live \<Rightarrow> 'c live" where
  "live_next env (Call rq) s = snd (local_execute (live_services env) rq s)"
| "live_next env (Late rq) s = snd (live_adopt env (local_args rq) s)"
| "live_next env (Writes ws) s = snd (live_batch env ws s)"
| "live_next env (Crash ws k n) s = snd (live_crash env ws k n s)"
| "live_next env (Advance i timed_out) s = snd (live_advance env timed_out i s)"
| "live_next env (Tick n) s = s\<lparr>lv_clock := lv_clock s + n\<rparr>"
| "live_next env Quit s = close_jobs env (dict_keys (lv_jobs s)) s"
| "live_next env (Reopen t mt_log mt_res) s = s\<lparr>lv_ts := gc t mt_log mt_res (lv_ts s), lv_jobs := []\<rparr>"

text \<open>Reopened before anything has outlived its retention.\<close>

definition retained :: "live_act \<Rightarrow> bool" where
  "retained a \<longleftrightarrow> (case a of Reopen t mt_log mt_res \<Rightarrow>
       (\<forall>k. t - LOG_RETENTION_DAYS * 86400 \<le> mt_log k) \<and> (\<forall>k. t - RESULT_RETENTION_DAYS * 86400 \<le> mt_res k)
     | _ \<Rightarrow> True)"

definition live_run :: "'c live_env \<Rightarrow> live_act list \<Rightarrow> 'c live \<Rightarrow> 'c live" where
  "live_run env acts s = foldl (\<lambda>s a. live_next env a s) s acts"

end
