(* ===== verification/Json_Wf.thy ===== *)
theory Json_Wf
  imports Json_Roundtrip
begin

text \<open>
  What \<open>json.loads\<close> returns can be written again: every value it reads is well formed
  (\<open>json_loads_wf\<close>), whatever the text was. A number keeps the text that was read.
\<close>

lemma takeWhile_all_digits: "takeWhile P (takeWhile P u @ x) = takeWhile P u @ takeWhile P x"
  by (induction u) auto

lemma dropWhile_all_digits: "dropWhile P (takeWhile P u @ x) = dropWhile P x"
  by (induction u) auto

definition stops :: "string \<Rightarrow> bool" where
  "stops x \<longleftrightarrow> x = [] \<or> \<not> is_ascii_digit (hd x)"

lemma stops_while: "stops x \<Longrightarrow> takeWhile is_ascii_digit x = [] \<and> dropWhile is_ascii_digit x = x"
  by (cases x) (auto simp: stops_def)

lemma no_digit: "\<not> is_ascii_digit (CHR ''.'')" "\<not> is_ascii_digit (CHR ''e'')" "\<not> is_ascii_digit (CHR ''E'')"
  "\<not> is_ascii_digit (CHR ''+'')" "\<not> is_ascii_digit (CHR ''-'')"
  by (simp_all add: is_ascii_digit_def ord_def)

lemma lex_int_again: "lex_int s = Some (ds, r) \<Longrightarrow> stops x \<Longrightarrow> lex_int (ds @ x) = Some (ds, x) \<and> ds \<noteq> [] \<and> hd ds \<noteq> CHR ''-''"
  using stops_while [of x] no_digit
  by (cases s) (auto simp: lex_int_def takeWhile_all_digits dropWhile_all_digits split: if_splits)

lemma lex_frac_stops: "lex_frac s = (fr, r) \<Longrightarrow> stops x \<Longrightarrow> stops (fr @ x)"
  using no_digit by (cases s) (auto simp: lex_frac_def stops_def split: if_splits)

lemma lex_frac_again: "lex_frac s = (fr, r) \<Longrightarrow> stops x \<Longrightarrow> x = [] \<or> hd x \<noteq> CHR ''.'' \<Longrightarrow> lex_frac (fr @ x) = (fr, x)"
  using stops_while [of x] no_digit
  by (cases s; cases x)
    (auto simp: lex_frac_def takeWhile_all_digits dropWhile_all_digits dest: set_takeWhileD split: if_splits)

lemma lex_exp_stops: "lex_exp s = (ex, r) \<Longrightarrow> stops ex \<and> (ex = [] \<or> hd ex \<noteq> CHR ''.'')"
  using no_digit by (cases s) (auto simp: lex_exp_def stops_def Let_def split: if_splits prod.splits)

lemma lex_sign_again: "lex_sign s = (sg, r) \<Longrightarrow> ds \<noteq> [] \<Longrightarrow> is_ascii_digit (hd ds) \<Longrightarrow> lex_sign (sg @ ds) = (sg, ds)"
  using no_digit by (cases s; cases ds) (auto simp: lex_sign_def split: if_splits)

lemma lex_exp_again:
  assumes "lex_exp s = (ex, r)"
  shows "lex_exp ex = (ex, [])"
proof (cases "ex = []")
  case False
  then obtain c cs sg u where s: "s = c # cs" "c = CHR ''e'' \<or> c = CHR ''E''" "lex_sign cs = (sg, u)"
    and ds: "takeWhile is_ascii_digit u \<noteq> []" "ex = c # sg @ takeWhile is_ascii_digit u"
    using assms by (cases s) (auto simp: lex_exp_def Let_def split: if_splits prod.splits)
  let ?ds = "takeWhile is_ascii_digit u"
  have "is_ascii_digit (hd ?ds)" using ds(1) by (metis hd_in_set set_takeWhileD)
  from lex_sign_again [OF s(3) ds(1) this] have "lex_sign (sg @ ?ds) = (sg, ?ds)" .
  moreover have "takeWhile is_ascii_digit ?ds = ?ds" "dropWhile is_ascii_digit ?ds = []"
    using takeWhile_all_digits [of is_ascii_digit u "[]"] dropWhile_all_digits [of is_ascii_digit u "[]"] by simp_all
  ultimately show ?thesis using s(2) ds by (auto simp: lex_exp_def Let_def)
qed (simp add: lex_exp_def)

lemma json_number_wf:
  assumes "json_number s = Some (v, r)"
  shows "wf_json v"
proof -
  let ?neg = "s \<noteq> [] \<and> hd s = CHR ''-''"
  define s1 where "s1 = (if ?neg then tl s else s)"
  obtain ds s2 where i: "lex_int s1 = Some (ds, s2)"
    using assms(1) by (auto simp: json_number_def s1_def Let_def split: option.splits)
  obtain fr s3 where f: "lex_frac s2 = (fr, s3)" by fastforce
  obtain ex s4 where e: "lex_exp s3 = (ex, s4)" by fastforce
  let ?sg = "if ?neg then ''-'' else []"
  have v: "v = (if fr = [] \<and> ex = [] then PInt (int_value ?neg ds) else PFloat (?sg @ ds @ fr @ ex))"
    using assms(1) i f e by (auto simp: json_number_def s1_def Let_def split: if_splits)
  have st: "stops ex" "ex = [] \<or> hd ex \<noteq> CHR ''.''" using lex_exp_stops [OF e] by simp_all
  have i2: "lex_int (ds @ fr @ ex) = Some (ds, fr @ ex)" "ds \<noteq> []" "hd ds \<noteq> CHR ''-''"
    using lex_int_again [OF i lex_frac_stops [OF f st(1)]] by simp_all
  have f2: "lex_frac (fr @ ex) = (fr, ex)" by (rule lex_frac_again [OF f st])
  have e2: "lex_exp ex = (ex, [])" by (rule lex_exp_again [OF e])
  have "float_text (?sg @ ds @ fr @ ex)" if "\<not> (fr = [] \<and> ex = [])"
    using that i2 f2 e2 by (cases ds) (auto simp: float_text_def json_number_def Let_def)
  then show ?thesis by (simp add: v)
qed

lemma json_atom_wf: "json_atom s = Some (v, r) \<Longrightarrow> wf_json v"
  using json_number_wf
  by (auto simp: json_atom_def json_literals_def float_text_def split: option.splits if_splits)

lemma wf_dict_set: "wf_json (PDict d) \<Longrightarrow> wf_json v \<Longrightarrow> wf_json (PDict (dict_set d k v))"
proof -
  assume a: "wf_json (PDict d)" "wf_json v"
  have "list_all (\<lambda>(k, v). wf_json v) (dict_set d k v)" using a by (induction d) auto
  moreover have "distinct (map fst (dict_set d k v))" using a(1) by (intro distinct_update) simp
  ultimately show ?thesis by simp
qed

lemma json_value_wf:
  "json_value n s = Some (v, r) \<Longrightarrow> wf_json v"
  "json_members n acc s = Some (d, r) \<Longrightarrow> wf_json (PDict acc) \<Longrightarrow> wf_json (PDict d)"
  "json_elems n acc' s = Some (xs, r) \<Longrightarrow> list_all wf_json acc' \<Longrightarrow> list_all wf_json xs"
proof (induction n arbitrary: s v r acc d acc' xs)
  case (Suc n)
  {
    case 1
    then show ?case unfolding json_value_Suc
      using Suc.IH(2) [of "[]"] Suc.IH(3) [of "[]"] json_atom_wf
      by (elim disjE exE conjE; simp del: dropWhile_eq_Nil_conv)
  next
    case 2
    then show ?case unfolding json_members_Suc
      using Suc.IH(1,2) wf_dict_set by (elim exE conjE disjE) (simp_all del: wf_json.simps)
  next
    case 3
    then show ?case unfolding json_elems_Suc
      using Suc.IH(1,3) by (elim exE conjE disjE) auto
  }
qed simp_all

lemma json_loads_wf: "json_loads s = Some v \<Longrightarrow> wf_json v"
  using json_value_wf(1) [of "Suc (2 * length s)"]
  by (auto simp: json_loads_def simp del: json_value.simps split: option.splits if_splits)

end
