(* ===== verification/Live_Facts.thy ===== *)
theory Live_Facts
  imports Live_System Storage_Facts Http_Facts Json_Wf
begin

text \<open>
  The invariant of the live system (\<open>live_inv\<close>): the log is well formed, every live task is where its
  record says, ids still to be drawn are unknown, every recorded result is there. What a step does to
  the log as a whole is \<open>log_moves\<close>: no task is forgotten, states move forward, and the record of
  a task that no wrapper drives stays as it is.
\<close>

section \<open>One task's step touches one task\<close>

definition others_same :: "string \<Rightarrow> tstate \<Rightarrow> tstate \<Rightarrow> bool" where
  "others_same i st st' \<longleftrightarrow> (\<forall>k. k \<noteq> i \<longrightarrow> task_status (ts_log st') k = task_status (ts_log st) k \<and>
     map_of (ts_results st') k = map_of (ts_results st) k)"

lemma others_same_refl [simp]: "others_same i st st"
  by (simp add: others_same_def)

lemma others_same_trans: "others_same i st st' \<Longrightarrow> others_same i st' st'' \<Longrightarrow> others_same i st st''"
  by (simp add: others_same_def)

lemma others_same_persist: "others_same i st (persist_result i rows st)"
  by (simp add: others_same_def persist_result_def dict_get_set)

lemma append_others:
  assumes "drive_inv d" and "t_id t = PStr (d_id d)" and "fields_ok t" and "task_append (drive_log d) t = Inr lg"
  shows "others_same (d_id d) (d_st d) ((d_st d)\<lparr>ts_log := lg\<rparr>)"
proof -
  have "task_ok t" "tlog_ok (drive_log d)" using assms fields_task_ok by (auto simp: drive_inv_def)
  from task_status_append [OF this(2,1) assms(4)] assms(2) show ?thesis by (simp add: others_same_def drive_log_def)
qed

lemma appended_others:
  assumes "drive_inv d" and "t_id t = PStr (d_id d)" and "fields_ok t \<or> (\<exists>e. \<forall>lg. task_append lg t = Inl e)"
  shows "others_same (d_id d) (d_st d) (d_st (appended d t p handler))"
    and "others_same (d_id d) (d_st d) (d_st (maybe_appended b d t))"
  using append_others [OF assms(1,2)] assms(3)
  by (auto simp: appended_def maybe_appended_def with_log_def split: sum.splits)

lemma drive_next_others:
  assumes inv: "drive_inv d" and "is_proceed s \<or> is_cancel s"
  shows "others_same (d_id d) (d_st d) (d_st (drive_next tmo s d))"
proof -
  have f: "fields_ok (d_task d)" "t_id (d_task d) = PStr (d_id d)" using inv by (simp_all add: drive_inv_def)
  obtain r where r: "pc_ok d r (d_pc d)" using inv by (auto simp: drive_inv_def)
  note app = appended_others [OF inv]
  show ?thesis
  proof (cases s)
    case (Proceed w tm)
    show ?thesis
    proof (cases "d_pc d")
      case (Fresh b)
      then show ?thesis by (cases b) (simp_all add: Proceed)
    qed (use r f in \<open>auto simp: Proceed others_same_persist intro!: app\<close>)
  next
    case (CancelIt landed tm)
    show ?thesis
    proof (cases "d_pc d")
      case (Persisting rows)
      then show ?thesis by (simp add: CancelIt Let_def others_same_persist)
    qed (use r f in \<open>auto simp: CancelIt Let_def intro!: app\<close>)
  qed (use assms(2) in simp)
qed

definition edge :: "(pyval \<times> pyval) set" where
  "edge = {(PStr a, PStr b) | a b. (a, b) \<in> set STATE_EDGES}"

definition moved :: "task \<Rightarrow> task \<Rightarrow> bool" where
  "moved r r' \<longleftrightarrow> (t_state r, t_state r') \<in> edge\<^sup>*"

lemma moved_refl [simp]: "moved r r"
  by (simp add: moved_def)

lemma moved_trans: "moved r r' \<Longrightarrow> moved r' r'' \<Longrightarrow> moved r r''"
  unfolding moved_def by (rule rtrancl_trans)

text \<open>A step of one task: it stays in order, others are not touched, its own record moves forward.\<close>

definition own_step :: "drive \<Rightarrow> drive \<Rightarrow> bool" where
  "own_step d d' \<longleftrightarrow> drive_inv d' \<and> d_id d' = d_id d \<and> t_op (d_task d') = t_op (d_task d) \<and>
     others_same (d_id d) (d_st d) (d_st d') \<and>
     (\<forall>r. task_status (drive_log d) (d_id d) = Inr r \<longrightarrow> (\<exists>r'. task_status (drive_log d') (d_id d) = Inr r' \<and> moved r r'))"

lemma own_step_refl: "drive_inv d \<Longrightarrow> own_step d d"
  by (simp add: own_step_def)

lemma own_step_trans: "own_step d d' \<Longrightarrow> own_step d' d'' \<Longrightarrow> own_step d d''"
  unfolding own_step_def using others_same_trans moved_trans by (metis (no_types, lifting))

lemma drive_own_step:
  assumes inv: "drive_inv d" and stim: "stim_ok (d_task d) s" and "is_proceed s \<or> is_cancel s"
  shows "own_step d (drive_next tmo s d)"
proof -
  let ?d = "drive_next tmo s d"
  have inv': "drive_inv ?d" by (rule drive_next_inv [OF inv stim])
  obtain r' where r': "task_status (drive_log ?d) (d_id d) = Inr r'"
    using inv' unfolding drive_inv_def drive_next_same by blast
  have "moved r r'" if "task_status (drive_log d) (d_id d) = Inr r" for r
    using drive_next_moves [OF inv stim, of tmo] that r' unfolding status_moves_def moved_def edge_def by fastforce
  then show ?thesis
    using inv' r' drive_next_others [OF inv assms(3)] by (simp add: own_step_def drive_next_same)
qed

section \<open>What is assumed of the environment\<close>

text \<open>
  The random parts of ids are hexadecimal and do not repeat (a run draws finitely many of them, so
  for that run this says that no two of its draws agree); the values that the cursor fetches have
  a JSON form, once what JSON does not know is turned into text. Then so have the rows of a query,
  for what comes out of a process chain was read from JSON (\<open>engine_rows_ok\<close>).
\<close>

definition cells_ok :: "'c cursor \<Rightarrow> bool" where
  "cells_ok cu \<longleftrightarrow> (\<forall>sql ps c names rs c'. cu_execute cu sql ps c = (Inr (names, rs), c') \<longrightarrow>
     list_all (list_all (\<lambda>v. wf_json (json_default_str v))) rs)"

definition row_fine :: "pyrow \<Rightarrow> bool" where
  "row_fine d \<longleftrightarrow> wf_json (json_default_str (PDict d))"

lemma row_fine_set:
  assumes "row_fine d" and "wf_json (json_default_str v)"
  shows "row_fine (dict_set d k v)"
proof -
  have "map (\<lambda>(k, v). (k, json_default_str v)) (dict_set d k v) = dict_set (map (\<lambda>(k, v). (k, json_default_str v)) d) k (json_default_str v)"
    by (induction d) auto
  then show ?thesis using wf_dict_set [OF _ assms(2)] assms(1) by (simp add: row_fine_def del: wf_json.simps)
qed

lemma row_fine_zip: "list_all (\<lambda>v. wf_json (json_default_str v)) r \<Longrightarrow> row_fine (dict_zip names r)"
proof -
  have "row_fine d \<Longrightarrow> list_all (\<lambda>(k, v). wf_json (json_default_str v)) kvs \<Longrightarrow> row_fine (foldl (\<lambda>d (k, v). dict_set d k v) d kvs)" for d kvs
    by (induction kvs arbitrary: d) (auto intro: row_fine_set)
  moreover assume "list_all (\<lambda>v. wf_json (json_default_str v)) r"
  then have "list_all (\<lambda>(k, v). wf_json (json_default_str v)) (zip names r)"
    by (auto simp: list_all_iff dest: set_zip_rightD)
  ultimately show ?thesis by (simp add: dict_zip_def row_fine_def)
qed

lemma jsonl_rows_fine:
  assumes "jsonl_to_rows b = Inr rs"
  shows "list_all row_fine rs"
proof (rule mapR_all [OF assms [unfolded jsonl_to_rows_def]], intro ballI allI impI)
  fix l d assume "row_of_line l = Inr d"
  then obtain t where "json_loads t = Some (PDict d)"
    by (auto simp: row_of_line_def json_loads_bytes_def split: option.splits pyval.splits)
  then have "wf_json (PDict d)" by (rule json_loads_wf)
  then show "row_fine d" using json_default_str_id [OF wf_json_ok] by (simp add: row_fine_def del: wf_json.simps json_default_str.simps)
qed

lemma fetch_fine: "cells_ok cu \<Longrightarrow> fetch_rows cu sql ps c = (Inr rs, c') \<Longrightarrow> list_all row_fine rs"
  by (auto simp: fetch_rows_def bindM_Inr cells_ok_def list_all_iff intro!: row_fine_zip) blast

lemma catch_duck_Inr: "catch_duck m c = (Inr a, c') \<longleftrightarrow> m c = (Inr a, c')"
  by (auto simp: catch_duck_def split: prod.splits sum.splits)

lemma guarded_fine: "cells_ok cu \<Longrightarrow> guarded_select cu sql ps c = (Inr rs, c') \<Longrightarrow> list_all row_fine rs"
  by (auto simp: guarded_select_def catch_duck_Inr bindM_Inr intro: fetch_fine split: if_splits)

lemma phases_fine:
  "run_phases cu chain ph rows c = (Inr rs, c') \<Longrightarrow> cells_ok cu \<Longrightarrow> list_all row_fine (rows_or_empty rows) \<Longrightarrow> list_all row_fine rs"
proof (induction cu chain ph rows arbitrary: c rule: run_phases.induct)
  case (2 cu chain sql ps rest rows)
  obtain rs1 c1 where "guarded_select cu sql ps c = (Inr rs1, c1)" "run_phases cu chain rest (Some rs1) c1 = (Inr rs, c')"
    using "2.prems"(1) by (auto simp: bindM_Inr)
  then show ?case using "2.IH" guarded_fine [OF "2.prems"(2)] "2.prems"(2) by (simp add: rows_or_empty_def)
next
  case (3 cu chain argvs rest rows)
  show ?case
  proof (cases "rest = []")
    case True
    then show ?thesis using "3.prems" jsonl_rows_fine by (auto simp: bindM_Inr rows_or_empty_def)
  next
    case False
    then show ?thesis using "3.prems" "3.IH"(2) by (auto simp: bindM_Inr)
  qed
qed simp

lemma engine_fine:
  assumes "query_service pol reg cfg emb cu chain sql ps a b c = (Inr rs, c')" and "cells_ok cu"
  shows "list_all row_fine rs"
proof -
  obtain p where "exec_plan cu (cfg_schema cfg) chain a b p c = (Inr rs, c')"
    using assms(1) by (auto simp: query_service_def bindM_Inr)
  then show ?thesis
    using phases_fine [OF _ assms(2)] fetch_fine [OF assms(2)]
    by (cases p) (auto simp: exec_plan_def run_query_def run_plan_def bindM_Inr catch_duck_Inr rows_or_empty_def split: if_splits)
qed

definition hex_digits :: "string \<Rightarrow> bool" where
  "hex_digits s \<longleftrightarrow> set s \<subseteq> set ''0123456789abcdef''"

lemma hex_digits_plain: "hex_digits s \<Longrightarrow> CHR ''_'' \<notin> set s"
  by (auto simp: hex_digits_def)

definition env_live :: "'c live_env \<Rightarrow> bool" where
  "env_live env \<longleftrightarrow> inj (le_hex env) \<and> (\<forall>n. hex_digits (le_hex env n)) \<and> cells_ok (le_cursor env)"

lemma engine_rows_ok: "env_live env \<Longrightarrow> engine_query env sql ps a b c = (Inr rows, c') \<Longrightarrow> rows_ok (map PDict rows)"
  using engine_fine [of _ _ _ _ "le_cursor env"]
  by (fastforce simp: env_live_def engine_query_def rows_ok_def row_fine_def list_all_iff simp del: json_default_str.simps wf_json.simps)

text \<open>An id that the system may still hand out.\<close>

definition future :: "'c live_env \<Rightarrow> nat \<Rightarrow> string \<Rightarrow> bool" where
  "future env n i \<longleftrightarrow> (\<exists>k d. n \<le> k \<and> list_all is_ascii_digit d \<and> i = new_task_id d (le_hex env k))"

lemma digits_no_score: "list_all is_ascii_digit d \<Longrightarrow> CHR ''_'' \<notin> set d"
  by (auto simp: list_all_iff is_ascii_digit_def ord_def)

lemma task_id_parts:
  assumes "list_all is_ascii_digit d" and "CHR ''_'' \<notin> set h"
  shows "split_on (CHR ''_'') (new_task_id d h) = [''tk'', d, h]"
proof -
  have u: "CHR ''_'' \<notin> set d" by (rule digits_no_score [OF assms(1)])
  have "new_task_id d h = ''tk'' @ CHR ''_'' # d @ CHR ''_'' # h" by (simp add: new_task_id_def)
  moreover have "split_on (CHR ''_'') (''tk'' @ CHR ''_'' # d @ CHR ''_'' # h) = [''tk'', d, h]"
    by (subst split_on_append_sep, simp, subst split_on_append_sep, rule u, subst split_on_no_sep, rule assms(2), rule refl)
  ultimately show ?thesis by simp
qed

lemma task_id_inj:
  assumes "env_live env" and "list_all is_ascii_digit d" and "list_all is_ascii_digit d'"
    and "new_task_id d (le_hex env m) = new_task_id d' (le_hex env n)"
  shows "m = n"
proof -
  have h: "CHR ''_'' \<notin> set (le_hex env k)" for k using assms(1) hex_digits_plain by (simp add: env_live_def)
  have "[''tk'', d, le_hex env m] = [''tk'', d', le_hex env n]"
    unfolding task_id_parts [OF assms(2) h, symmetric] task_id_parts [OF assms(3) h, symmetric] assms(4) by (rule refl)
  then have "le_hex env m = le_hex env n" by simp
  then show ?thesis using assms(1) by (simp add: env_live_def inj_eq)
qed

lemma drawn_not_future:
  assumes "env_live env" and "list_all is_ascii_digit d" and "m < n"
  shows "\<not> future env n (new_task_id d (le_hex env m))"
  using task_id_inj [OF assms(1,2)] assms(3) by (fastforce simp: future_def)

lemma future_mono: "future env n i \<Longrightarrow> m \<le> n \<Longrightarrow> future env m i"
  unfolding future_def using order_trans by blast

lemma drawn_id_ok:
  assumes "env_live env" and "list_all is_ascii_digit d" and "d \<noteq> []"
  shows "id_ok (new_task_id d (le_hex env m))"
  using ds_of_new_task_id [OF assms(2,3)] assms(1) hex_digits_plain by (simp add: id_ok_def env_live_def new_task_id_def)

section \<open>The invariant\<close>

fun rebuilding_ok :: "rebuilding \<Rightarrow> bool" where
  "rebuilding_ok (Reading specs rts) = True"
| "rebuilding_ok (Applying xs st) = wf_json (PDict st)"
| "rebuilding_ok (Rebuilt r) = (case r of Inl e \<Rightarrow> True | Inr st \<Rightarrow> wf_json (PDict st))"

definition work_ok :: "task \<Rightarrow> bg_work \<Rightarrow> bool" where
  "work_ok t w \<longleftrightarrow> (case w of BgQuery qa \<Rightarrow> t_op t = PStr ''query''
     | BgRebuild p \<Rightarrow> t_op t = PStr ''rebuild'' \<and> rebuilding_ok p)"

definition result_kept :: "tstate \<Rightarrow> string \<Rightarrow> task \<Rightarrow> bool" where
  "result_kept st i r \<longleftrightarrow> (t_state r = PStr ''done'' \<longrightarrow> t_op r = PStr ''query'' \<longrightarrow>
     (\<exists>rows. rows_ok rows \<and> map_of (ts_results st) i = Some (result_text rows) \<and> t_rows r = PInt (int (length rows))))"

definition log_of :: "'c live \<Rightarrow> tlog" where
  "log_of s = ts_log (lv_ts s)"

definition live_inv :: "'c live_env \<Rightarrow> 'c live \<Rightarrow> bool" where
  "live_inv env s \<longleftrightarrow> tlog_ok (log_of s) \<and>
     (\<forall>i j. map_of (lv_jobs s) i = Some j \<longrightarrow> drive_inv (view_job s i j) \<and> work_ok (bj_task j) (bj_work j)) \<and>
     (\<forall>i. future env (lv_hex s) i \<longrightarrow> map_of (lv_jobs s) i = None \<and> (\<forall>r. task_status (log_of s) i \<noteq> Inr r)) \<and>
     (\<forall>i r. task_status (log_of s) i = Inr r \<longrightarrow> result_kept (lv_ts s) i r)"

definition log_moves :: "'c live \<Rightarrow> 'c live \<Rightarrow> bool" where
  "log_moves s s' \<longleftrightarrow> (\<forall>i r. task_status (log_of s) i = Inr r \<longrightarrow>
     (\<exists>r'. task_status (log_of s') i = Inr r' \<and> moved r r' \<and>
        (map_of (lv_jobs s) i = None \<longrightarrow> r' = r \<and> map_of (lv_jobs s') i = None)))"

lemma log_moves_refl [simp]: "log_moves s s"
  by (simp add: log_moves_def)

lemma log_moves_trans: "log_moves s s' \<Longrightarrow> log_moves s' s'' \<Longrightarrow> log_moves s s''"
  unfolding log_moves_def using moved_trans by (metis (no_types, lifting))

definition safe :: "'c live_env \<Rightarrow> ('c live, exn, 'a) sm \<Rightarrow> bool" where
  "safe env m \<longleftrightarrow> (\<forall>s q s'. live_inv env s \<longrightarrow> m s = (q, s') \<longrightarrow> live_inv env s' \<and> log_moves s s')"

lemma safe_basic [simp]: "safe env (returnM a)" "safe env (raiseM e)" "safe env (liftM r)"
  by (simp_all add: safe_def)

lemma safe_reading [simp]: "safe env read_now" "safe env read_today" "safe env (live_status i)" "safe env (live_list n)"
  "safe env (live_result i)"
  by (simp_all add: safe_def read_now_def read_today_def live_status_def live_list_def live_result_def)

lemma safe_bind:
  assumes "safe env m" and "\<And>a. safe env (f a)"
  shows "safe env (bindM m f)"
  unfolding safe_def
proof (intro allI impI)
  fix s q s' assume inv: "live_inv env s" and b: "bindM m f s = (q, s')"
  obtain q1 s1 where m: "m s = (q1, s1)" by fastforce
  have one: "live_inv env s1" "log_moves s s1" using assms(1) inv m unfolding safe_def by blast+
  show "live_inv env s' \<and> log_moves s s'"
  proof (cases q1)
    case (Inl e)
    then show ?thesis using b m one by simp
  next
    case (Inr a)
    then have "f a s1 = (q, s')" using b m by simp
    then show ?thesis using assms(2) [of a] one log_moves_trans unfolding safe_def by blast
  qed
qed

text \<open>Only the log, the results, the jobs and the drawn ids matter.\<close>

lemma live_inv_cong:
  assumes "live_inv env s" and "lv_ts s' = lv_ts s" and "lv_jobs s' = lv_jobs s" and "lv_hex s \<le> lv_hex s'"
  shows "live_inv env s' \<and> log_moves s s'"
proof -
  have "view_job s' = view_job s" by (simp add: fun_eq_iff view_job_def assms)
  moreover have "future env (lv_hex s') i \<Longrightarrow> future env (lv_hex s) i" for i by (rule future_mono [OF _ assms(4)])
  ultimately show ?thesis using assms(1) by (auto simp: live_inv_def log_moves_def log_of_def assms(2,3))
qed

lemma safe_same:
  assumes "\<And>s q s'. m s = (q, s') \<Longrightarrow> lv_ts s' = lv_ts s \<and> lv_jobs s' = lv_jobs s \<and> lv_hex s \<le> lv_hex s'"
  shows "safe env m"
  using assms live_inv_cong unfolding safe_def by blast

lemma safe_engine: "safe env (on_engine m)"
  by (rule safe_same) (auto simp: on_engine_def split: prod.splits)

lemma safe_query: "safe env (live_query env qa)"
  unfolding live_query_def by (intro safe_bind safe_engine safe_basic)

text \<open>A change of what one task holds: every other task and every other record stays.\<close>

lemma job_step:
  assumes inv: "live_inv env s" and d: "drive_inv d" and w: "work_ok (d_task d) work"
    and others: "others_same (d_id d) (lv_ts s) (d_st d)"
    and own: "\<And>r. task_status (log_of s) (d_id d) = Inr r \<Longrightarrow> \<exists>r'. task_status (drive_log d) (d_id d) = Inr r' \<and> moved r r'"
    and known: "map_of (lv_jobs s) (d_id d) = None \<Longrightarrow> \<forall>r. task_status (log_of s) (d_id d) \<noteq> Inr r"
    and drawn: "\<not> future env (lv_hex s) (d_id d)"
  shows "live_inv env (put_job d work s) \<and> log_moves s (put_job d work s)"
proof -
  let ?s = "put_job d work s"
  have logs: "log_of ?s = drive_log d" "lv_ts ?s = d_st d" "lv_hex ?s = lv_hex s"
    by (simp_all add: put_job_def log_of_def drive_log_def)
  have other: "task_status (drive_log d) k = task_status (log_of s) k" "map_of (ts_results (d_st d)) k = map_of (ts_results (lv_ts s)) k"
    "map_of (lv_jobs ?s) k = map_of (lv_jobs s) k" if "k \<noteq> d_id d" for k
    using others that by (simp_all add: others_same_def log_of_def drive_log_def put_job_def dict_get_set delete_conv)
  have mine: "map_of (lv_jobs ?s) (d_id d) = (if d_pc d = Ended then None
      else Some \<lparr>bj_task = d_task d, bj_pc = d_pc d, bj_work = work\<rparr>)"
    by (simp add: put_job_def dict_get_set delete_conv)
  have log: "tlog_ok (drive_log d)" using d by (simp add: drive_inv_def)
  have jobs: "drive_inv (view_job ?s i j) \<and> work_ok (bj_task j) (bj_work j)" if j: "map_of (lv_jobs ?s) i = Some j" for i j
  proof (cases "i = d_id d")
    case True
    then have "view_job ?s i j = d" using j mine by (auto simp: view_job_def logs split: if_splits)
    then show ?thesis using True j mine d w by (auto split: if_splits)
  next
    case False
    then have old: "map_of (lv_jobs s) i = Some j" using j other(3) by simp
    then have dj: "drive_inv (view_job s i j)" "work_ok (bj_task j) (bj_work j)" using inv by (simp_all add: live_inv_def)
    have "drive_log (view_job ?s i j) = drive_log d" by (simp add: view_job_def drive_log_def logs)
    moreover have "task_status (drive_log d) i = task_status (drive_log (view_job s i j)) i"
      using other(1) [OF False] by (simp add: view_job_def drive_log_def log_of_def)
    moreover have h: "has_rows (view_job ?s i j) r = has_rows (view_job s i j) r" for r
      using other(2) [OF False] by (simp add: has_rows_def view_job_def logs)
    moreover have "pc_ok (view_job ?s i j) r q = pc_ok (view_job s i j) r q" for r q
      by (rule pc_ok_cong) (simp_all add: h, simp_all add: view_job_def)
    ultimately show ?thesis using dj log unfolding drive_inv_def by (simp add: view_job_def)
  qed
  have fresh: "map_of (lv_jobs ?s) i = None \<and> (\<forall>r. task_status (drive_log d) i \<noteq> Inr r)" if f: "future env (lv_hex s) i" for i
  proof -
    have "i \<noteq> d_id d" using f drawn by blast
    then show ?thesis using f inv other by (simp add: live_inv_def)
  qed
  have kept: "result_kept (d_st d) i r" if r: "task_status (drive_log d) i = Inr r" for i r
  proof (cases "i = d_id d")
    case True
    then have "t_state r = PStr ''done'' \<longrightarrow> has_rows d r" using d r by (auto simp: drive_inv_def)
    then show ?thesis using True by (simp add: result_kept_def has_rows_def)
  next
    case False
    then show ?thesis using inv r other by (simp add: live_inv_def result_kept_def)
  qed
  have "live_inv env ?s" unfolding live_inv_def logs using log jobs fresh kept by blast
  moreover have "log_moves s ?s"
    unfolding log_moves_def logs
  proof (intro allI impI)
    fix i r assume r: "task_status (log_of s) i = Inr r"
    show "\<exists>r'. task_status (drive_log d) i = Inr r' \<and> moved r r' \<and>
        (map_of (lv_jobs s) i = None \<longrightarrow> r' = r \<and> map_of (lv_jobs ?s) i = None)"
    proof (cases "i = d_id d")
      case True
      then show ?thesis using own [of r] known r by auto
    next
      case False
      then show ?thesis using r other by simp
    qed
  qed
  ultimately show ?thesis by blast
qed

end
