(* ===== verification/Live_Safe.thy ===== *)
theory Live_Safe
  imports Live_Facts
begin

text \<open>
  Every operation of the services of the live system, and every step it can make, keeps the
  invariant and moves the log only forward (\<open>live_next_safe\<close>).
\<close>

section \<open>Ids\<close>

lemma drawn_day: "today us = Inr d \<Longrightarrow> list_all is_ascii_digit d \<and> d \<noteq> []"
  using today_digits [of us d] by auto

lemma read_today_Inr: "read_today s = (Inr d, s') \<longleftrightarrow> today (lv_clock s) = Inr d \<and> s' = s"
  by (auto simp: read_today_def)

lemma draw_id_Inr:
  assumes "draw_id env s = (Inr i, s')"
  shows "s' = s\<lparr>lv_hex := Suc (lv_hex s)\<rparr> \<and> (\<exists>d. list_all is_ascii_digit d \<and> d \<noteq> [] \<and> i = new_task_id d (le_hex env (lv_hex s)))"
  using assms drawn_day by (auto simp: draw_id_def bindM_Inr read_today_Inr)

lemma safe_draw_id: "safe env (draw_id env)"
  by (rule safe_same) (auto simp: draw_id_def bindM_def read_today_def split: sum.splits)

text \<open>An id that was drawn between two states of the counter.\<close>

definition drawn :: "'c live_env \<Rightarrow> nat \<Rightarrow> nat \<Rightarrow> string \<Rightarrow> bool" where
  "drawn env m n i \<longleftrightarrow> (\<exists>k d. m \<le> k \<and> k < n \<and> list_all is_ascii_digit d \<and> d \<noteq> [] \<and> i = new_task_id d (le_hex env k))"

lemma drawn_facts:
  assumes "env_live env" and "drawn env m n i"
  shows "id_ok i" "future env m i" "\<not> future env n i"
proof -
  obtain k d where k: "m \<le> k" "k < n" "list_all is_ascii_digit d" "d \<noteq> []" "i = new_task_id d (le_hex env k)"
    using assms(2) by (auto simp: drawn_def)
  show "id_ok i" using drawn_id_ok [OF assms(1) k(3,4)] k(5) by simp
  show "future env m i" using k by (auto simp: future_def)
  show "\<not> future env n i" using drawn_not_future [OF assms(1) k(3,2)] k(5) by simp
qed

lemma draw_jobs_Inr:
  assumes "env_live env" and "draw_jobs env ws s = (Inr js, s')"
  shows "s' = s\<lparr>lv_hex := lv_hex s + length ws\<rparr> \<and> map j_op js = ws \<and> distinct (map j_id js) \<and>
     (\<forall>j \<in> set js. drawn env (lv_hex s) (lv_hex s') (j_id j))"
  using assms(2)
proof (induction ws arbitrary: s js s')
  case (Cons w ws)
  obtain d t i js1 s1 where parts: "draw_id env s = (Inr i, s1)" "draw_jobs env ws s1 = (Inr js1, s')"
    "js = \<lparr>j_op = w, j_ds = d, j_ts = t, j_id = i\<rparr> # js1"
    using Cons.prems by (auto simp: bindM_Inr read_today_Inr read_now_def)
  obtain d' where i: "s1 = s\<lparr>lv_hex := Suc (lv_hex s)\<rparr>" "list_all is_ascii_digit d'" "d' \<noteq> []"
    "i = new_task_id d' (le_hex env (lv_hex s))"
    using draw_id_Inr [OF parts(1)] by blast
  have IH: "s' = s1\<lparr>lv_hex := lv_hex s1 + length ws\<rparr>" "map j_op js1 = ws" "distinct (map j_id js1)"
    "\<forall>j \<in> set js1. drawn env (lv_hex s1) (lv_hex s') (j_id j)"
    using Cons.IH [OF parts(2)] by blast+
  have "drawn env (lv_hex s) (lv_hex s') i" using i IH(1) by (auto simp: drawn_def)
  moreover have "drawn env (lv_hex s) (lv_hex s') (j_id j)" if "j \<in> set js1" for j
    using IH(4) that i(1) unfolding drawn_def by (metis (no_types, lifting) Suc_leD live.select_convs(5) live.update_convs(5) live.surjective)
  moreover have "i \<notin> j_id ` set js1"
  proof
    assume "i \<in> j_id ` set js1"
    then have "drawn env (lv_hex s1) (lv_hex s') i" using IH(4) by auto
    then have "future env (lv_hex s1) i" by (rule drawn_facts(2) [OF assms(1)])
    moreover have "\<not> future env (lv_hex s1) i" unfolding i(4) by (rule drawn_not_future [OF assms(1) i(2)]) (simp add: i(1))
    ultimately show False by blast
  qed
  ultimately show ?case using parts(3) IH i(1) by simp
qed simp

lemma safe_draw_jobs: "safe env (draw_jobs env ws)"
proof (induction ws)
  case (Cons w ws)
  show ?case unfolding draw_jobs.simps by (intro safe_bind safe_draw_id safe_reading safe_basic Cons)
qed (simp add: safe_def)

section \<open>Writes\<close>

lemma execute_one_kind:
  assumes "execute_one ev ds ts op s = (Inr ex, s')"
  shows "\<exists>k x t. ex = Executed k x t \<and> k \<in> {''insert'', ''delete''} \<and> (x = [] \<or> (\<exists>n. x = [(''matched'', PInt n)]))"
proof (cases op)
  case (OpInsert table rws skip)
  show ?thesis using assms unfolding OpInsert by (cases rule: insert_Inr) auto
qed (use assms in \<open>auto simp: sm_iff\<close>)

lemma execute_batch_kind:
  assumes "execute_batch ev js s = (rs, s')" and "Inr ex \<in> set rs"
  shows "\<exists>k x t. ex = Executed k x t \<and> k \<in> {''insert'', ''delete''} \<and> (x = [] \<or> (\<exists>n. x = [(''matched'', PInt n)]))"
  using assms
proof (induction js arbitrary: s rs)
  case (Cons j js)
  then show ?case using execute_one_kind by (auto split: prod.splits)
qed simp

lemma born_done_ok:
  assumes "ex = Executed k x t" and "k \<in> {''insert'', ''delete''}" and "x = [] \<or> (\<exists>n. x = [(''matched'', PInt n)])"
  shows "fields_ok (born_done i tm ex)" "t_id (born_done i tm ex) = PStr i" "t_op (born_done i tm ex) \<noteq> PStr ''query''"
  using assms by (auto simp: born_done_def mk_task_def fields_ok_def dict_get_def)

lemma batch_tasks_Cons: "batch_tasks tm (j # js) (r # rs) =
    (case r of Inl e \<Rightarrow> [] | Inr ex \<Rightarrow> [born_done (j_id j) tm ex]) @ batch_tasks tm js rs"
  by (simp add: batch_tasks_def)

lemma batch_task_of:
  assumes "u \<in> set (batch_tasks tm js rs)"
  obtains j ex where "j \<in> set js" "Inr ex \<in> set rs" "u = born_done (j_id j) tm ex"
  using assms by (auto simp: batch_tasks_def split: sum.splits dest: set_zip_leftD set_zip_rightD)

lemma born_done_id [simp]: "t_id (born_done i tm ex) = PStr i"
  by (simp add: born_done_def mk_task_def split: executed.splits)

lemma batch_ids_distinct: "distinct (map j_id js) \<Longrightarrow> distinct (map t_id (batch_tasks tm js rs))"
proof (induction js arbitrary: rs)
  case (Cons j js)
  show ?case
  proof (cases rs)
    case (Cons r rs')
    have "PStr (j_id j) \<notin> t_id ` set (batch_tasks tm js rs')"
      using Cons.prems by (auto elim!: batch_task_of)
    then show ?thesis using Cons.IH [of rs'] Cons.prems by (auto simp: Cons batch_tasks_Cons split: sum.splits)
  qed (simp add: batch_tasks_def)
qed (simp add: batch_tasks_def)

lemma batch_task_ok:
  assumes "execute_batch ev js w = (rs, w')" and "\<forall>j \<in> set js. id_ok (j_id j)" and "u \<in> set (batch_tasks tm js rs)"
  shows "task_ok u" "t_op u \<noteq> PStr ''query''" "\<exists>j \<in> set js. t_id u = PStr (j_id j)"
proof -
  obtain j ex where j: "j \<in> set js" "Inr ex \<in> set rs" "u = born_done (j_id j) tm ex"
    using assms(3) by (rule batch_task_of)
  obtain k x t where ex: "ex = Executed k x t" "k \<in> {''insert'', ''delete''}" "x = [] \<or> (\<exists>n. x = [(''matched'', PInt n)])"
    using execute_batch_kind [OF assms(1) j(2)] by blast
  note b = born_done_ok [OF ex, of "j_id j" tm]
  show "task_ok u" using fields_task_ok [OF b(1,2)] assms(2) j by simp
  show "t_op u \<noteq> PStr ''query''" using b(3) j by simp
  show "\<exists>j \<in> set js. t_id u = PStr (j_id j)" using j by auto
qed

lemma good_batch:
  assumes "execute_batch ev js w = (rs, w')" and "\<forall>j \<in> set js. id_ok (j_id j)" and "distinct (map j_id js)"
  shows "good_tasks (batch_tasks tm js rs)"
  using batch_task_ok(1) [OF assms(1,2)] batch_ids_distinct [OF assms(3)] by (simp add: good_tasks_def list_all_iff)

text \<open>A wrapper is not disturbed by what happens to other tasks.\<close>

lemma view_undisturbed:
  assumes "drive_inv (view_job s i j)" and "tlog_ok (log_of s')"
    and "task_status (log_of s') i = task_status (log_of s) i"
    and "map_of (ts_results (lv_ts s')) i = map_of (ts_results (lv_ts s)) i"
  shows "drive_inv (view_job s' i j)"
proof -
  have h: "has_rows (view_job s' i j) r = has_rows (view_job s i j) r" for r
    using assms(4) by (simp add: has_rows_def view_job_def)
  have "pc_ok (view_job s' i j) r q = pc_ok (view_job s i j) r q" for r q
    by (rule pc_ok_cong) (simp_all add: h, simp_all add: view_job_def)
  then show ?thesis using assms h unfolding drive_inv_def by (simp add: view_job_def drive_log_def log_of_def)
qed

text \<open>Records of new, finished tasks in the log.\<close>

lemma log_grows:
  assumes inv: "live_inv env s" and log: "tlog_ok lg"
    and st: "\<And>i. task_status lg i = (case find (\<lambda>t. t_id t = PStr i) us of None \<Rightarrow> task_status (log_of s) i | Some u \<Rightarrow> Inr u)"
    and new: "\<And>u i. u \<in> set us \<Longrightarrow> t_id u = PStr i \<Longrightarrow>
      t_op u \<noteq> PStr ''query'' \<and> \<not> future env n i \<and> (\<exists>m \<ge> lv_hex s. drawn env (lv_hex s) m i)"
    and env: "env_live env" and n: "lv_hex s \<le> n"
    and s': "lv_ts s' = (lv_ts s)\<lparr>ts_log := lg\<rparr>" "lv_jobs s' = lv_jobs s" "lv_hex s' = n"
  shows "live_inv env s' \<and> log_moves s s'"
proof -
  have lg: "log_of s' = lg" by (simp add: log_of_def s'(1))
  have old: "find (\<lambda>t. t_id t = PStr i) us = None" if "map_of (lv_jobs s) i \<noteq> None \<or> (\<exists>r. task_status (log_of s) i = Inr r)" for i
  proof (rule ccontr)
    assume "find (\<lambda>t. t_id t = PStr i) us \<noteq> None"
    then obtain u where "u \<in> set us" "t_id u = PStr i" by (auto simp: find_Some_iff) (metis nth_mem)
    then have "future env (lv_hex s) i" using new drawn_facts(2) [OF env] by blast
    then have "map_of (lv_jobs s) i = None" "\<forall>r. task_status (log_of s) i \<noteq> Inr r" using inv by (simp_all add: live_inv_def)
    then show False using that by auto
  qed
  have same: "task_status lg i = task_status (log_of s) i" if "map_of (lv_jobs s) i \<noteq> None \<or> (\<exists>r. task_status (log_of s) i = Inr r)" for i
    using st [of i] old [OF that] by simp
  have jobs: "drive_inv (view_job s' i j) \<and> work_ok (bj_task j) (bj_work j)" if "map_of (lv_jobs s') i = Some j" for i j
    using inv that view_undisturbed [of s i j s'] same [of i] log lg by (simp add: live_inv_def s')
  have fresh: "map_of (lv_jobs s') i = None \<and> (\<forall>r. task_status lg i \<noteq> Inr r)" if f: "future env n i" for i
  proof -
    have "find (\<lambda>t. t_id t = PStr i) us = None" using new f by (auto simp: find_None_iff)
    then show ?thesis using inv future_mono [OF f n] st [of i] by (simp add: live_inv_def s'(2))
  qed
  have kept: "result_kept (lv_ts s') i r" if r: "task_status lg i = Inr r" for i r
  proof (cases "find (\<lambda>t. t_id t = PStr i) us")
    case None
    then show ?thesis using inv r st [of i] by (simp add: live_inv_def result_kept_def s'(1))
  next
    case (Some u)
    then have u: "u \<in> set us" "t_id u = PStr i" by (auto simp: find_Some_iff)
    then show ?thesis using new [OF u] r st [of i] Some by (simp add: result_kept_def)
  qed
  have "live_inv env s'" unfolding live_inv_def lg s'(3) using log jobs fresh kept by blast
  moreover have "log_moves s s'" unfolding log_moves_def lg s'(2) using same by fastforce
  ultimately show ?thesis by blast
qed

text \<open>The first records of a batch that was executed, as far as they were appended.\<close>

lemma prefix_logged:
  assumes inv: "live_inv env s" and env: "env_live env" and js: "distinct (map j_id js)"
    and ids: "\<forall>j \<in> set js. drawn env (lv_hex s) n (j_id j)" and n: "lv_hex s \<le> n"
    and rs: "execute_batch (le_w env) js w0 = (rs, w)" and us: "us = take m (batch_tasks tm js rs)"
    and s': "lv_ts s' = (lv_ts s)\<lparr>ts_log := snd (append_tasks us (log_of s))\<rparr>" "lv_jobs s' = lv_jobs s" "lv_hex s' = n"
  shows "fst (append_tasks us (log_of s)) = Inr () \<and> live_inv env s' \<and> log_moves s s' \<and>
     (\<forall>i. task_status (log_of s') i = (case find (\<lambda>t. t_id t = PStr i) us of None \<Rightarrow> task_status (log_of s) i | Some t \<Rightarrow> Inr t))"
proof -
  have ok: "\<forall>j \<in> set js. id_ok (j_id j)" using ids drawn_facts(1) [OF env] by blast
  have log: "tlog_ok (log_of s)" using inv by (simp add: live_inv_def)
  have sub: "u \<in> set (batch_tasks tm js rs)" if "u \<in> set us" for u using that us in_set_takeD by metis
  have "good_tasks us" using good_batch [OF rs ok js, of tm] sub by (auto simp: good_tasks_def us take_map [symmetric] list_all_iff)
  then obtain lg where lg: "append_tasks us (log_of s) = (Inr (), lg)" "tlog_ok lg"
    "\<forall>i. task_status lg i = (case find (\<lambda>t. t_id t = PStr i) us of None \<Rightarrow> task_status (log_of s) i | Some t \<Rightarrow> Inr t)"
    using append_tasks_found [OF log] by blast
  have new: "t_op u \<noteq> PStr ''query'' \<and> \<not> future env n i \<and> (\<exists>m \<ge> lv_hex s. drawn env (lv_hex s) m i)"
    if u: "u \<in> set us" "t_id u = PStr i" for u i
  proof -
    obtain j where "j \<in> set js" "t_id u = PStr (j_id j)" using batch_task_ok(3) [OF rs ok sub [OF u(1)]] by blast
    then have "drawn env (lv_hex s) n i" using ids u(2) by simp
    then show ?thesis using batch_task_ok(2) [OF rs ok sub [OF u(1)]] drawn_facts(3) [OF env] n by blast
  qed
  have "lv_ts s' = (lv_ts s)\<lparr>ts_log := lg\<rparr>" using s'(1) lg(1) by simp
  from log_grows [OF inv lg(2) lg(3) [rule_format] new env n this s'(2,3)]
  show ?thesis using lg(1,3) s'(1) by (simp add: log_of_def)
qed

lemma run_batch_logged:
  assumes inv: "live_inv env s" and env: "env_live env" and js: "distinct (map j_id js)"
    and ids: "\<forall>j \<in> set js. drawn env (lv_hex s) n (j_id j)" and n: "lv_hex s \<le> n"
    and run: "run_batch env tm js (s\<lparr>lv_hex := n\<rparr>) = (q, s')"
  shows "live_inv env s' \<and> log_moves s s' \<and> lv_jobs s' = lv_jobs s \<and> (\<exists>rs w. execute_batch (le_w env) js (lv_w s) = (rs, w) \<and>
     q = Inr (map (\<lambda>(j, r). case r of Inl e \<Rightarrow> Inl e | Inr ex \<Rightarrow> Inr (born_done (j_id j) tm ex)) (zip js rs)) \<and>
     (\<forall>i. task_status (log_of s') i = (case find (\<lambda>t. t_id t = PStr i) (batch_tasks tm js rs) of
        None \<Rightarrow> task_status (log_of s) i | Some t \<Rightarrow> Inr t)))"
proof -
  obtain rs w where rs: "execute_batch (le_w env) js (lv_w s) = (rs, w)" by fastforce
  let ?us = "batch_tasks tm js rs"
  obtain r lg where lg: "append_tasks ?us (log_of s) = (r, lg)" by fastforce
  have s': "lv_ts s' = (lv_ts s)\<lparr>ts_log := snd (append_tasks ?us (log_of s))\<rparr>" "lv_jobs s' = lv_jobs s" "lv_hex s' = n"
    using run rs lg by (auto simp: run_batch_def process_batch_def Let_def log_of_def split: prod.splits)
  have all: "?us = take (length ?us) ?us" by simp
  note p = prefix_logged [OF inv env js ids n rs all s']
  then have "r = Inr ()" using lg by simp
  then have "q = Inr (map (\<lambda>(j, r). case r of Inl e \<Rightarrow> Inl e | Inr ex \<Rightarrow> Inr (born_done (j_id j) tm ex)) (zip js rs))"
    using run rs lg by (auto simp: run_batch_def process_batch_def Let_def log_of_def split: prod.splits)
  then show ?thesis using p s'(2) rs by blast
qed

lemma live_batch_logged:
  assumes inv: "live_inv env s" and env: "env_live env" and run: "live_batch env ws s = (Inr out, s')"
  shows "live_inv env s' \<and> log_moves s s' \<and> lv_jobs s' = lv_jobs s \<and> length out = length ws \<and>
     (\<forall>k < length ws. \<forall>t. out ! k = Inr t \<longrightarrow> t_state t = PStr ''done'' \<and>
        (\<exists>i. t_id t = PStr i \<and> drawn env (lv_hex s) (lv_hex s') i \<and> task_status (log_of s') i = Inr t))"
proof -
  obtain js s1 tm where js: "draw_jobs env ws s = (Inr js, s1)" and r: "run_batch env tm js s1 = (Inr out, s')"
    using run by (auto simp: live_batch_def bindM_Inr read_now_def)
  note d = draw_jobs_Inr [OF env js]
  let ?n = "lv_hex s + length ws"
  have s1: "s1 = s\<lparr>lv_hex := ?n\<rparr>" "lv_hex s1 = ?n" using d by simp_all
  obtain rs w where rs: "execute_batch (le_w env) js (lv_w s) = (rs, w)"
    and out: "out = map (\<lambda>(j, r). case r of Inl e \<Rightarrow> Inl e | Inr ex \<Rightarrow> Inr (born_done (j_id j) tm ex)) (zip js rs)"
    and st: "\<forall>i. task_status (log_of s') i = (case find (\<lambda>t. t_id t = PStr i) (batch_tasks tm js rs) of
        None \<Rightarrow> task_status (log_of s) i | Some t \<Rightarrow> Inr t)" and safe: "live_inv env s'" "log_moves s s'" "lv_jobs s' = lv_jobs s"
    using run_batch_logged [OF inv env, of js ?n tm "Inr out" s'] d r s1 by auto
  have n: "lv_hex s' = ?n" using r s1 by (auto simp: run_batch_def split: prod.splits)
  have len: "length rs = length js" "length js = length ws"
    using execute_batch_length [OF rs] d by (simp, metis length_map)
  have found: "t_state t = PStr ''done'' \<and> (\<exists>i. t_id t = PStr i \<and> drawn env (lv_hex s) (lv_hex s') i \<and> task_status (log_of s') i = Inr t)"
    if k: "k < length ws" "out ! k = Inr t" for k t
  proof -
    obtain ex where ex: "rs ! k = Inr ex" "t = born_done (j_id (js ! k)) tm ex"
      using k len by (auto simp: out split: sum.splits)
    have "(js ! k, rs ! k) \<in> set (zip js rs)" using k len by (metis length_zip min.idem nth_mem nth_zip)
    then have mem: "t \<in> set (batch_tasks tm js rs)" using ex by (force simp: batch_tasks_def)
    have dist: "distinct (map t_id (batch_tasks tm js rs))" using d by (intro batch_ids_distinct) simp
    have "find (\<lambda>u. t_id u = PStr (j_id (js ! k))) (batch_tasks tm js rs) = Some t"
      using find_distinct [OF dist mem] by (simp add: ex(2))
    moreover have "drawn env (lv_hex s) (lv_hex s') (j_id (js ! k))" using d k len n s1 by simp
    moreover have "t_state t = PStr ''done''" by (simp add: ex(2) born_done_def mk_task_def split: executed.splits)
    ultimately show ?thesis using st by (simp add: ex(2))
  qed
  show ?thesis using safe found len by (simp add: out)
qed

lemma safe_live_batch:
  assumes env: "env_live env"
  shows "safe env (live_batch env ws)"
  unfolding safe_def
proof (intro allI impI)
  fix s q s' assume inv: "live_inv env s" and run: "live_batch env ws s = (q, s')"
  show "live_inv env s' \<and> log_moves s s'"
  proof (cases q)
    case (Inr out)
    then show ?thesis using live_batch_logged [OF inv env] run by blast
  next
    case (Inl e)
    then have "draw_jobs env ws s = (Inl e, s') \<or> (\<exists>js. draw_jobs env ws s = (Inr js, s'))"
      using run by (auto simp: live_batch_def bindM_def read_now_def run_batch_def split: prod.splits sum.splits)
    then show ?thesis using safe_draw_jobs inv unfolding safe_def by blast
  qed
qed

lemma jobs_gone: "live_inv env s \<Longrightarrow> lv_ts s' = lv_ts s \<Longrightarrow> lv_hex s' = lv_hex s \<Longrightarrow> lv_jobs s' = [] \<Longrightarrow> live_inv env s' \<and> log_moves s s'"
  by (auto simp: live_inv_def log_moves_def log_of_def)

lemma safe_crash:
  assumes env: "env_live env"
  shows "safe env (live_crash env ws k n)"
  unfolding safe_def
proof (intro allI impI)
  fix s q s' assume inv: "live_inv env s" and run: "live_crash env ws k n s = (q, s')"
  obtain d s1 where d: "draw_jobs env ws s = (d, s1)" by fastforce
  have safe1: "live_inv env s1" "log_moves s s1" using safe_draw_jobs inv d unfolding safe_def by blast+
  show "live_inv env s' \<and> log_moves s s'"
  proof (cases d)
    case (Inl e)
    then show ?thesis using run d safe1 by (auto simp: live_crash_def bindM_def)
  next
    case (Inr js)
    note j = draw_jobs_Inr [OF env d [unfolded Inr]]
    obtain tm where n: "now (lv_clock s1) = Inr tm \<or> s' = s1" using run d Inr
      by (cases "now (lv_clock s1)") (auto simp: live_crash_def bindM_def read_now_def)
    show ?thesis
    proof (cases "s' = s1")
      case False
      then have tm: "now (lv_clock s1) = Inr tm" using n by simp
      obtain rs w where rs: "execute_batch (le_w env) (take k js) (lv_w s) = (rs, w)" by fastforce
      obtain w1 lg where b: "crash_batch (le_w env) tm k n js (lv_w s1) (ts_log (lv_ts s1)) = (w1, lg)" by fastforce
      have s': "s' = s1\<lparr>lv_w := w1, lv_ts := (lv_ts s1)\<lparr>ts_log := lg\<rparr>, lv_jobs := []\<rparr>"
        using run d Inr tm b by (simp add: live_crash_def bindM_def read_now_def)
      show ?thesis
      proof (cases "k < length js")
        case True
        then have "lg = ts_log (lv_ts s1)" using b by (simp add: crash_batch_def split: prod.splits)
        then show ?thesis using jobs_gone [OF safe1(1), of s'] log_moves_trans [OF safe1(2)] s' by simp
      next
        case False
        then have rs: "execute_batch (le_w env) js (lv_w s) = (rs, w)" using rs by simp
        let ?us = "take (n - length (remdups (concat (map fts_table rs)))) (batch_tasks tm js rs)"
        let ?s2 = "s1\<lparr>lv_w := w1, lv_ts := (lv_ts s1)\<lparr>ts_log := lg\<rparr>\<rparr>"
        have same: "lv_w s1 = lv_w s" "lv_ts s1 = lv_ts s" "lv_jobs s1 = lv_jobs s" using j by simp_all
        have "lg = snd (append_tasks ?us (log_of s))" using b rs False by (simp add: crash_batch_def Let_def log_of_def same)
        then have s2: "lv_ts ?s2 = (lv_ts s)\<lparr>ts_log := snd (append_tasks ?us (log_of s))\<rparr>" "lv_jobs ?s2 = lv_jobs s" "lv_hex ?s2 = lv_hex s1"
          by (simp_all add: same)
        have pre: "distinct (map j_id js)" "\<forall>j \<in> set js. drawn env (lv_hex s) (lv_hex s1) (j_id j)" "lv_hex s \<le> lv_hex s1"
          using j by auto
        have inv2: "live_inv env ?s2" "log_moves s ?s2" using prefix_logged [OF inv env pre rs refl s2] by blast+
        have "live_inv env s' \<and> log_moves ?s2 s'" by (rule jobs_gone [OF inv2(1)]) (simp_all add: s')
        then show ?thesis using log_moves_trans [OF inv2(2)] by blast
      qed
    qed (use safe1 in simp)
  qed
qed

lemma safe_write: "env_live env \<Longrightarrow> safe env (live_write env w)"
  unfolding live_write_def by (intro safe_bind safe_live_batch safe_basic)

lemma safe_insert: "env_live env \<Longrightarrow> safe env (live_insert env t rs)"
  unfolding live_insert_def by (intro safe_bind safe_write safe_basic)

lemma safe_delete: "env_live env \<Longrightarrow> safe env (live_delete env t w ps)"
  unfolding live_delete_def by (intro safe_bind safe_write safe_basic)

section \<open>Background tasks\<close>

lemma job_own_step:
  assumes inv: "live_inv env s" and j: "map_of (lv_jobs s) i = Some j" and own: "own_step (view_job s i j) d"
    and work: "work_ok (bj_task j) work"
  shows "live_inv env (put_job d work s) \<and> log_moves s (put_job d work s)"
proof (rule job_step [OF inv])
  show "drive_inv d" using own by (simp add: own_step_def)
  have op: "t_op (d_task d) = t_op (bj_task j)" "d_id d = i" using own by (simp_all add: own_step_def view_job_def)
  show "work_ok (d_task d) work" using work unfolding work_ok_def op(1) .
  show "others_same (d_id d) (lv_ts s) (d_st d)" using own op by (simp add: own_step_def view_job_def)
  show "\<And>r. task_status (log_of s) (d_id d) = Inr r \<Longrightarrow> \<exists>r'. task_status (drive_log d) (d_id d) = Inr r' \<and> moved r r'"
    using own op by (simp add: own_step_def view_job_def drive_log_def log_of_def)
  show "map_of (lv_jobs s) (d_id d) = None \<Longrightarrow> \<forall>r. task_status (log_of s) (d_id d) \<noteq> Inr r" using j op by simp
  show "\<not> future env (lv_hex s) (d_id d)" using inv j op by (auto simp: live_inv_def)
qed

lemma safe_launch:
  assumes env: "env_live env" and q: "wf_json query"
    and work: "\<And>t. t_op t = PStr opn \<Longrightarrow> work_ok t work"
  shows "safe env (live_launch env adopted opn query work)"
  unfolding safe_def
proof (intro allI impI)
  fix s r s' assume inv: "live_inv env s" and run: "live_launch env adopted opn query work s = (r, s')"
  have dsafe: "draw_id env s = (x, s1) \<Longrightarrow> live_inv env s1 \<and> log_moves s s1" for x s1
    using safe_draw_id inv unfolding safe_def by blast
  consider (undrawn) x where "draw_id env s = (x, s')"
    | (born) i s1 d tm where "draw_id env s = (Inr i, s1)" "launch adopted i opn query tm (lv_ts s1) = Inr d" "s' = put_job d work s1"
  proof (cases "draw_id env s")
    case (Pair x s1)
    show thesis
    proof (cases x)
      case (Inl e)
      then have "s' = s1" using run Pair by (simp add: live_launch_def bindM_def)
      then show thesis using undrawn Pair by blast
    next
      case (Inr i)
      then have l: "s' = s1 \<or> (\<exists>tm d. launch adopted i opn query tm (lv_ts s1) = Inr d \<and> s' = put_job d work s1)"
        using run Pair by (cases "now (lv_clock s1)") (auto simp: live_launch_def bindM_def read_now_def split: sum.splits)
      then show thesis
      proof
        assume "s' = s1"
        then show thesis using undrawn Pair by blast
      qed (use born Pair Inr in blast)
    qed
  qed
  then show "live_inv env s' \<and> log_moves s s'"
  proof cases
    case undrawn
    then show ?thesis by (rule dsafe)
  next
    case born
    have inv1: "live_inv env s1" "log_moves s s1" using dsafe born(1) by blast+
    obtain day where i: "s1 = s\<lparr>lv_hex := Suc (lv_hex s)\<rparr>" "list_all is_ascii_digit day" "day \<noteq> []"
      "i = new_task_id day (le_hex env (lv_hex s))" using draw_id_Inr [OF born(1)] by blast
    have dr: "drawn env (lv_hex s) (lv_hex s1) i" using i by (auto simp: drawn_def)
    note f = drawn_facts [OF env dr]
    have log: "tlog_ok (ts_log (lv_ts s1))" using inv1 by (simp add: live_inv_def log_of_def)
    have d: "drive_inv d" "d_id d = i" "t_op (d_task d) = PStr opn" using launch_inv [OF born(2) log f(1) q] by simp_all
    let ?t = "born i opn (if adopted then ''running'' else ''pending'') query tm"
    obtain lg where lg: "task_append (ts_log (lv_ts s1)) ?t = Inr lg" "d_st d = (lv_ts s1)\<lparr>ts_log := lg\<rparr>"
      using born(2) by (auto simp: launch_def Let_def bindR_Inr_iff)
    have tok: "task_ok ?t" using q f(1) by (intro fields_task_ok [where i = i]) simp_all
    have others: "others_same (d_id d) (lv_ts s1) (d_st d)"
      using task_status_append [OF log tok lg(1)] by (simp add: others_same_def lg(2) d(2))
    have unknown: "\<forall>r. task_status (log_of s1) (d_id d) \<noteq> Inr r"
      using inv f(2) i(1) by (simp add: live_inv_def d(2) log_of_def)
    have "live_inv env (put_job d work s1) \<and> log_moves s1 (put_job d work s1)"
      by (rule job_step [OF inv1(1) d(1) work [OF d(3)] others]) (use unknown f(3) d(2) in auto)
    then show ?thesis using born(3) inv1(2) log_moves_trans by blast
  qed
qed

lemma safe_submit: "env_live env \<Longrightarrow> safe env (live_submit env qa)"
  unfolding live_submit_def
  by (intro safe_bind safe_launch safe_basic) (auto simp: opt_str_def work_ok_def split: option.splits)

lemma safe_adopt: "env_live env \<Longrightarrow> safe env (live_adopt env qa)"
  unfolding live_adopt_def
  by (intro safe_bind safe_launch safe_basic) (auto simp: opt_str_def work_ok_def split: option.splits)

lemma safe_rebuild: "env_live env \<Longrightarrow> safe env (live_rebuild env)"
  unfolding live_rebuild_def by (intro safe_launch) (auto simp: work_ok_def start_rebuild_def)

lemma rebuild_next_ok: "rebuild_next ev tf (p, w) = (p', w') \<Longrightarrow> rebuilding_ok p \<Longrightarrow> rebuilding_ok p'"
  by (induction ev tf "(p, w)" rule: rebuild_next.induct) (auto simp: replay_stats_def split: sum.splits prod.splits)

lemma live_query_Inr:
  assumes "live_query env qa s = (Inr d, s')"
  shows "\<exists>sql ps a b c c' rows. engine_query env sql ps a b c = (Inr rows, c') \<and> d = [(''rows'', PList (map PDict rows))]"
proof -
  obtain sql ps a b rows s1 where "on_engine (engine_query env sql ps a b) s = (Inr rows, s1)" "d = [(''rows'', PList (map PDict rows))]"
    using assms by (auto simp: live_query_def bindM_Inr)
  then show ?thesis unfolding on_engine_def by (cases "engine_query env sql ps a b (lv_cur s, w_db (lv_w s))") (fastforce split: prod.splits)
qed

lemma work_next_ok:
  assumes env: "env_live env" and work: "work_ok t work" and run: "work_next env tm work s = (out, work', s')"
  shows "lv_ts s' = lv_ts s \<and> lv_jobs s' = lv_jobs s \<and> lv_hex s' = lv_hex s" and "work_ok t work'"
    and "out = Some w \<Longrightarrow> stim_ok t (Proceed w tm)"
proof -
  have all: "(lv_ts s' = lv_ts s \<and> lv_jobs s' = lv_jobs s \<and> lv_hex s' = lv_hex s) \<and> work_ok t work' \<and>
    (out = Some w \<longrightarrow> stim_ok t (Proceed w tm))"
  proof (cases work)
    case (BgQuery qa)
    obtain r where r: "live_query env qa s = (r, s')" "out = Some (task_outcome r)" "work' = work"
      using run by (auto simp: work_next_def BgQuery split: prod.splits)
    have same: "lv_ts s' = lv_ts s \<and> lv_jobs s' = lv_jobs s \<and> lv_hex s' = lv_hex s"
      using r(1) by (auto simp: live_query_def on_engine_def bindM_def split: prod.splits sum.splits)
    have "stim_ok t (Proceed (task_outcome r) tm)"
    proof (cases r)
      case (Inr d)
      then obtain rows where rows: "rows_ok (map PDict rows)" "d = [(''rows'', PList (map PDict rows))]"
        using live_query_Inr [of env qa s d s'] r(1) engine_rows_ok [OF env] by blast
      then show ?thesis using work BgQuery Inr
        by (auto simp: stim_ok_def task_outcome_def work_ok_def query_rows_def iterate_def)
    qed (simp add: task_outcome_def stim_ok_def)
    then show ?thesis using r same work by auto
  next
    case (BgRebuild p)
    obtain p' w' where n: "rebuild_next (le_w env) (\<lambda>_. tm) (p, lv_w s) = (p', w')" by fastforce
    then have ok: "rebuilding_ok p'" using rebuild_next_ok work by (simp add: work_ok_def BgRebuild)
    have o: "out = (case p' of Rebuilt r \<Rightarrow> Some (task_outcome r) | _ \<Rightarrow> None)" "work' = BgRebuild p'" "s' = s\<lparr>lv_w := w'\<rparr>"
      using run n by (auto simp: work_next_def BgRebuild)
    have "out = Some w \<longrightarrow> stim_ok t (Proceed w tm)"
      using ok work by (auto simp: o(1) stim_ok_def task_outcome_def work_ok_def BgRebuild split: rebuilding.splits sum.splits)
    then show ?thesis using o ok work by (simp add: work_ok_def BgRebuild)
  qed
  then show "lv_ts s' = lv_ts s \<and> lv_jobs s' = lv_jobs s \<and> lv_hex s' = lv_hex s" "work_ok t work'"
    "out = Some w \<Longrightarrow> stim_ok t (Proceed w tm)" by blast+
qed

lemma advance_job_safe:
  assumes env: "env_live env" and inv: "live_inv env s" and j: "map_of (lv_jobs s) i = Some j"
  shows "live_inv env (advance_job env tm timed_out i j s) \<and> log_moves s (advance_job env tm timed_out i j s)"
proof -
  have job: "drive_inv (view_job s i j)" "work_ok (bj_task j) (bj_work j)" using inv j by (simp_all add: live_inv_def)
  show ?thesis
  proof (cases "bj_pc j = Working \<and> \<not> timed_out")
    case False
    have "own_step (view_job s i j) (drive_next (le_timeout env) (Proceed TimedOut tm) (view_job s i j))"
      by (rule drive_own_step [OF job(1)]) (simp_all add: stim_ok_def)
    from job_own_step [OF inv j this job(2)] show ?thesis using False by (auto simp: advance_job_def)
  next
    case True
    obtain out work s1 where w: "work_next env tm (bj_work j) s = (out, work, s1)" by (rule prod_cases3)
    note ok = work_next_ok [OF env job(2) w]
    have inv1: "live_inv env s1" "log_moves s s1" using live_inv_cong [OF inv] ok(1) by simp_all
    have j1: "map_of (lv_jobs s1) i = Some j" using j ok(1) by simp
    have job1: "drive_inv (view_job s1 i j)" using inv1(1) j1 by (simp add: live_inv_def)
    show ?thesis
    proof (cases out)
      case None
      have "live_inv env (put_job (view_job s1 i j) work s1) \<and> log_moves s1 (put_job (view_job s1 i j) work s1)"
        by (rule job_own_step [OF inv1(1) j1 own_step_refl [OF job1] ok(2)])
      then show ?thesis using True w None inv1(2) log_moves_trans by (auto simp: advance_job_def)
    next
      case (Some o1)
      let ?d = "drive_next (le_timeout env) (Proceed o1 tm) (view_job s1 i j)"
      have "own_step (view_job s1 i j) ?d"
        by (rule drive_own_step [OF job1]) (use ok(3) [OF Some] in \<open>simp_all add: view_job_def\<close>)
      from job_own_step [OF inv1(1) j1 this ok(2)]
      show ?thesis using True w Some inv1(2) log_moves_trans by (auto simp: advance_job_def)
    qed
  qed
qed

lemma safe_advance: "env_live env \<Longrightarrow> safe env (live_advance env timed_out i)"
  unfolding live_advance_def
  by (rule safe_bind [OF safe_reading(1)]) (auto simp: safe_def advance_job_safe split: option.splits)

lemma cancel_own_step:
  assumes "drive_inv d" and "cancel_task tmo landed tm d = (d', r)"
  shows "own_step d d'" "r = task_status (drive_log d') (d_id d')"
proof -
  let ?d = "drive_next tmo (CancelIt landed tm) d"
  have one: "own_step d ?d" by (rule drive_own_step [OF assms(1)]) (simp_all add: stim_ok_def)
  have "own_step ?d (drive_next tmo (Proceed TimedOut tm) ?d)"
    by (rule drive_own_step) (use one in \<open>simp_all add: stim_ok_def own_step_def\<close>)
  with one show "own_step d d'" "r = task_status (drive_log d') (d_id d')"
    using own_step_trans assms(2) by (auto simp: cancel_task_def Let_def)
qed

lemma safe_cancel:
  assumes "env_live env"
  shows "safe env (live_cancel env i)"
  unfolding live_cancel_def
proof (rule safe_bind)
  fix tm
  show "safe env (\<lambda>s. case map_of (lv_jobs s) i of None \<Rightarrow> live_status i s
     | Some j \<Rightarrow> (case cancel_task (le_timeout env) (le_landed env i) tm (view_job s i j) of (d, r) \<Rightarrow> (r, put_job d (bj_work j) s)))"
    unfolding safe_def
  proof (intro allI impI)
    fix s q s' assume inv: "live_inv env s" and run: "(case map_of (lv_jobs s) i of None \<Rightarrow> live_status i s
       | Some j \<Rightarrow> (case cancel_task (le_timeout env) (le_landed env i) tm (view_job s i j) of (d, r) \<Rightarrow> (r, put_job d (bj_work j) s))) = (q, s')"
    show "live_inv env s' \<and> log_moves s s'"
    proof (cases "map_of (lv_jobs s) i")
      case None
      then show ?thesis using run inv by (auto simp: live_status_def)
    next
      case (Some j)
      obtain d r where c: "cancel_task (le_timeout env) (le_landed env i) tm (view_job s i j) = (d, r)" by fastforce
      have job: "drive_inv (view_job s i j)" "work_ok (bj_task j) (bj_work j)" using inv Some by (simp_all add: live_inv_def)
      from job_own_step [OF inv Some cancel_own_step(1) [OF job(1) c] job(2)] show ?thesis using run Some c by auto
    qed
  qed
qed simp

section \<open>Every step\<close>

lemma safe_task_result_of: "safe env m \<Longrightarrow> safe env (task_result_of m)"
  unfolding task_result_of_def by (intro safe_bind safe_basic)

lemma safe_if: "safe env m \<Longrightarrow> safe env m' \<Longrightarrow> safe env (if b then m else m')"
  by simp

lemma safe_local_execute:
  assumes "env_live env"
  shows "safe env (local_execute (live_services env) rq)"
  unfolding local_execute_def live_services_def services.select_convs
  by (intro safe_task_result_of safe_bind safe_basic safe_reading safe_submit [OF assms] safe_query safe_insert [OF assms]
      safe_delete [OF assms] safe_cancel [OF assms] safe_rebuild [OF assms] safe_if)

lemma close_jobs_safe:
  "env_live env \<Longrightarrow> live_inv env s \<Longrightarrow> live_inv env (close_jobs env is s) \<and> log_moves s (close_jobs env is s)"
proof (induction "is" arbitrary: s)
  case (Cons i "is")
  have "live_inv env (snd (live_cancel env i s)) \<and> log_moves s (snd (live_cancel env i s))"
    using safe_cancel [OF Cons.prems(1), of i] Cons.prems(2) unfolding safe_def by (cases "live_cancel env i s") auto
  then show ?case using Cons.IH [OF Cons.prems(1)] log_moves_trans by auto
qed simp

lemma gc_retained: "retained (Reopen t ml mr) \<Longrightarrow> gc t ml mr st = st"
  by (simp add: retained_def gc_def not_less)

lemma live_next_safe:
  assumes env: "env_live env" and inv: "live_inv env s" and ret: "retained a"
  shows "live_inv env (live_next env a s) \<and> log_moves s (live_next env a s)"
proof -
  have step: "live_inv env (snd (m s)) \<and> log_moves s (snd (m s))" if "safe env m" for m :: "('a live, exn, 'b) sm"
    using that inv unfolding safe_def by (cases "m s") auto
  show ?thesis
  proof (cases a)
    case (Tick n)
    then show ?thesis using live_inv_cong [OF inv, of "s\<lparr>lv_clock := lv_clock s + n\<rparr>"] by simp
  next
    case (Reopen t ml mr)
    then show ?thesis using inv ret gc_retained [of t ml mr] by (auto simp: live_inv_def log_moves_def log_of_def)
  next
    case Quit
    then show ?thesis using close_jobs_safe [OF env inv] by simp
  qed (simp_all add: step [OF safe_local_execute [OF env]] step [OF safe_adopt [OF env]] step [OF safe_live_batch [OF env]]
      step [OF safe_crash [OF env]] step [OF safe_advance [OF env]])
qed

lemma live_run_simps [simp]: "live_run env [] s = s" "live_run env (a # as) s = live_run env as (live_next env a s)"
  by (simp_all add: live_run_def)

lemma live_run_safe:
  assumes "env_live env" and "live_inv env s" and "list_all retained as"
  shows "live_inv env (live_run env as s) \<and> log_moves s (live_run env as s)"
  using assms(2,3)
proof (induction as arbitrary: s)
  case (Cons a as)
  have "live_inv env (live_next env a s)" "log_moves s (live_next env a s)"
    using live_next_safe [OF assms(1) Cons.prems(1)] Cons.prems(2) by simp_all
  then show ?case using Cons.IH Cons.prems(2) log_moves_trans by auto
qed simp

definition fresh_live :: "wstate \<Rightarrow> 'c \<Rightarrow> nat \<Rightarrow> 'c live" where
  "fresh_live w c us = \<lparr>lv_w = w, lv_ts = \<lparr>ts_log = [], ts_results = []\<rparr>, lv_cur = c, lv_clock = us, lv_hex = 0, lv_jobs = []\<rparr>"

lemma status_fresh: "task_status [] i \<noteq> Inr r"
proof -
  have "scan_lines [] = Inr []" by (simp add: scan_lines_def line_values_def py_lines_def drop_last_empty_def)
  then show ?thesis by (simp add: task_status_def log_text_def find_last_def bindR_Inr_iff split: option.splits)
qed

lemma fresh_inv: "live_inv env (fresh_live w c us)"
  using tlog_ok_Nil by (simp add: live_inv_def fresh_live_def log_of_def status_fresh)

end
