(* ===== verification/Live_Clients.thy ===== *)
theory Live_Clients
  imports Live_Safe Http_Props
begin

text \<open>
  The clients of the live system: the embedded executor and the one over HTTP. What the services
  return in a reachable state travels over HTTP unchanged (\<open>live_good\<close>), so that one answer of the
  log is the answer of either client (\<open>client_of_log\<close>).
\<close>

section \<open>Records read from the log\<close>

lemma wf_dict_get: "wf_json (PDict d) \<Longrightarrow> wf_json (dict_get d k)"
  by (auto simp: dict_get_def list_all_iff split: option.splits dest: map_of_SomeD)

lemma wf_dict_get_or: "wf_json (PDict d) \<Longrightarrow> wf_json v \<Longrightarrow> wf_json (dict_get_or d k v)"
  by (auto simp: dict_get_or_def list_all_iff split: option.splits dest: map_of_SomeD)

lemma from_wire_fields:
  assumes "from_wire d = Inr t"
  shows "t = \<lparr>t_id = if truthy (dict_get d ''task'') then dict_get d ''task'' else dict_get d ''ticket'',
     t_op = dict_get_or d ''op'' (PStr []), t_state = dict_get_or d ''state'' (PStr ''done''), t_error = dict_get d ''error'',
     t_matched = dict_get d ''matched'', t_stats = dict_get d ''stats'', t_query = dict_get d ''query'', t_rows = dict_get d ''rows'',
     t_submitted_at = dict_get d ''submitted_at'', t_finished_at = dict_get d ''finished_at''\<rparr>"
proof (cases "truthy (dict_get d ''task'')")
  case False
  then obtain v where "map_of d ''ticket'' = Some v" using assms by (auto simp: from_wire_def split: option.splits)
  then have "dict_get d ''ticket'' = v" by (simp add: dict_get_def)
  then show ?thesis using assms False \<open>map_of d ''ticket'' = Some v\<close> by (simp add: from_wire_def)
qed (use assms in \<open>simp add: from_wire_def\<close>)

lemma from_wire_wf:
  assumes "from_wire d = Inr t" and "wf_json (PDict d)"
  shows "wf_json (PDict (to_wire t))"
proof -
  have "fields_ok t" unfolding from_wire_fields [OF assms(1)] fields_ok_def
    using wf_dict_get [OF assms(2)] wf_dict_get_or [OF assms(2)] by simp
  then show ?thesis by (rule fields_ok_wire)
qed

lemma scan_lines_wf:
  assumes "scan_lines s = Inr recs"
  shows "list_all (\<lambda>d. wf_json (PDict d)) recs"
proof -
  have read: "\<forall>v \<in> set (line_values s). \<forall>w. v = Some w \<longrightarrow> wf_json w" by (auto simp: line_values_def intro: json_loads_wf)
  have "mapR f vs = Inr recs \<Longrightarrow> \<forall>v \<in> set vs. \<forall>w. v = Some w \<longrightarrow> wf_json w \<Longrightarrow>
      (\<And>v d. f v = Inr d \<Longrightarrow> v = Some (PDict d)) \<Longrightarrow> list_all (\<lambda>d. wf_json (PDict d)) recs" for f and vs :: "pyval option list"
    by (induction vs arbitrary: recs) (auto simp: bindR_Inr_iff simp del: wf_json.simps)
  from this [OF assms [unfolded scan_lines_def] read] show ?thesis
    by (rule meta_mp) (auto split: option.splits pyval.splits)
qed

lemma find_last_mem: "find_last P xs = Some x \<Longrightarrow> x \<in> set xs \<and> P x"
  by (induction xs rule: rev_induct) (auto simp: find_last_def split: if_splits)

lemma status_wire_ok:
  assumes "task_status lg i = Inr r"
  shows "wire_task_ok r"
proof -
  obtain ds where ds: "ds_of i = Some ds" using assms by (auto simp: task_status_def split: option.splits)
  obtain recs d where d: "scan_lines (log_text lg ds) = Inr recs" "find_last (is_record_of i) recs = Some d" "from_wire d = Inr r"
    using assms ds by (auto simp: task_status_def bindR_Inr_iff split: option.splits)
  have mem: "d \<in> set recs" "is_record_of i d" using find_last_mem [OF d(2)] by simp_all
  have "wf_json (PDict d)" using scan_lines_wf [OF d(1)] mem(1) by (simp add: list_all_iff)
  then have wf: "wf_json (PDict (to_wire r))" by (rule from_wire_wf [OF d(3)])
  have "i \<noteq> []" using ds by (auto simp: ds_of_def)
  then have "truthy (t_id r)"
    using from_wire_fields [OF d(3)] mem(2) by (cases "truthy (dict_get d ''task'')") (auto simp: is_record_of_def)
  then show ?thesis using wf by (simp add: wire_task_ok_def)
qed

lemma task_ok_wire: "task_ok t \<Longrightarrow> wire_task_ok t"
  by (auto simp: task_ok_iff wire_task_ok_def simp del: wf_json.simps)

section \<open>What the services return\<close>

lemma write_task_logged:
  assumes "env_live env" and "live_inv env s" and "live_write env w s = (Inr t, s')"
  shows "live_inv env s' \<and> t_state t = PStr ''done'' \<and>
     (\<exists>i. t_id t = PStr i \<and> drawn env (lv_hex s) (lv_hex s') i \<and> task_status (log_of s') i = Inr t \<and> map_of (lv_jobs s') i = None)"
proof -
  obtain out where out: "live_batch env [w] s = (Inr out, s')" "hd out = Inr t"
    using assms(3) by (auto simp: live_write_def bindM_Inr)
  note l = live_batch_logged [OF assms(2,1) out(1)]
  then obtain i where i: "t_state t = PStr ''done''" "t_id t = PStr i" "drawn env (lv_hex s) (lv_hex s') i" "task_status (log_of s') i = Inr t"
    using out(2) by (cases out) fastforce+
  have "map_of (lv_jobs s') i = None"
    using l assms(2) drawn_facts(2) [OF assms(1) i(3)] by (simp add: live_inv_def)
  then show ?thesis using l i by blast
qed

lemma launch_wire:
  assumes "env_live env" and "live_inv env s" and "wf_json query" and "live_launch env adopted opn query work s = (Inr t, s')"
  shows "wire_task_ok t"
proof -
  obtain i s1 d tm where d: "draw_id env s = (Inr i, s1)" "launch adopted i opn query tm (lv_ts s1) = Inr d" "t = d_task d"
    using assms(4) by (cases "draw_id env s"; cases "fst (draw_id env s)") (auto simp: live_launch_def bindM_def read_now_def split: sum.splits)
  have s1: "s1 = s\<lparr>lv_hex := Suc (lv_hex s)\<rparr>" and "drawn env (lv_hex s) (lv_hex s1) i"
    using draw_id_Inr [OF d(1)] by (auto simp: drawn_def)
  then have ok: "id_ok i" using drawn_facts(1) [OF assms(1)] by blast
  have "tlog_ok (ts_log (lv_ts s1))" using assms(2) s1 by (simp add: live_inv_def log_of_def)
  from launch_inv [OF d(2) this ok assms(3)] have "drive_inv d" "d_id d = i" by simp_all
  then have "task_ok (d_task d)" using fields_task_ok ok by (simp add: drive_inv_def)
  then show ?thesis using task_ok_wire d(3) by simp
qed

lemma insert_is_write: "live_insert env t rs s = (Inr u, s') \<Longrightarrow> \<exists>w. live_write env w s = (Inr u, s')"
  by (auto simp: live_insert_def bindM_Inr)

lemma delete_is_write: "live_delete env t w ps s = (Inr u, s') \<Longrightarrow> \<exists>x. live_write env x s = (Inr u, s')"
  by (auto simp: live_delete_def bindM_Inr)

lemma write_wire: "env_live env \<Longrightarrow> live_inv env s \<Longrightarrow> live_write env w s = (Inr t, s') \<Longrightarrow> wire_task_ok t"
  using write_task_logged status_wire_ok by blast

lemma cancel_wire:
  assumes "live_inv env s" and "live_cancel env i s = (Inr t, s')"
  shows "wire_task_ok t"
proof -
  obtain tm where c: "(case map_of (lv_jobs s) i of None \<Rightarrow> live_status i s
      | Some j \<Rightarrow> (case cancel_task (le_timeout env) (le_landed env i) tm (view_job s i j) of (d, r) \<Rightarrow> (r, put_job d (bj_work j) s))) = (Inr t, s')"
    using assms(2) by (auto simp: live_cancel_def bindM_Inr read_now_def)
  show ?thesis
  proof (cases "map_of (lv_jobs s) i")
    case None
    then show ?thesis using c status_wire_ok by (auto simp: live_status_def)
  next
    case (Some j)
    obtain d r where d: "cancel_task (le_timeout env) (le_landed env i) tm (view_job s i j) = (d, r)" by fastforce
    have "drive_inv (view_job s i j)" using assms(1) Some by (simp add: live_inv_def)
    from cancel_own_step(2) [OF this d] show ?thesis using c Some d status_wire_ok by auto
  qed
qed

lemma result_wire: "task_result st i = Inr rows \<Longrightarrow> list_all wf_json rows"
proof -
  assume "task_result st i = Inr rows"
  then obtain s where "result_lines s = Inr rows"
    by (auto simp: task_result_def bindR_Inr_iff split: if_splits option.splits)
  then show ?thesis unfolding result_lines_def
    by (rule mapR_all) (auto split: option.splits intro: json_loads_wf)
qed

lemma live_good:
  assumes env: "env_live env" and inv: "live_inv env s" and op: "rq_op rq \<notin> {''query'', ''tasks''}"
  shows "good_outcome wire_result (local_execute (live_services env) rq s)"
proof -
  have task: "good_outcome wire_result (task_result_of m s)" if "\<And>t s'. m s = (Inr t, s') \<Longrightarrow> wire_task_ok t" for m :: "('a live, exn, task) sm"
    using that by (auto simp: good_outcome_def task_result_of_def bindM_def wire_result_def split: prod.splits sum.splits)
  have w: "wire_task_ok t" if "live_write env w s = (Inr t, s')" for w t s' by (rule write_wire [OF env inv that])
  have ticket: "good_outcome wire_result (bindM (liftM (ticket_of rq)) f s)"
    if "\<And>i. good_outcome wire_result (f i s)" for f :: "string \<Rightarrow> ('a live, exn, result) sm"
    using that by (auto simp: bindM_def ticket_of_def good_outcome_def split: option.splits)
  consider (insert) "rq_op rq = ''insert''" | (delete) "rq_op rq = ''delete''" | (status) "rq_op rq = ''status''"
    | (res) "rq_op rq = ''task_result''" | (cancel) "rq_op rq = ''task_cancel''" | (rebuild) "rq_op rq = ''rebuild''"
    | (unknown) "rq_op rq \<notin> {''query'', ''tasks'', ''insert'', ''delete'', ''status'', ''task_result'', ''task_cancel'', ''rebuild''}"
    using op by auto
  then show ?thesis
  proof cases
    case insert
    have "wire_task_ok t" if "live_insert env a b s = (Inr t, s')" for a b t s' using insert_is_write [OF that] w by blast
    then show ?thesis using insert by (auto simp: local_execute_def live_services_def intro!: task)
  next
    case delete
    have "wire_task_ok t" if "live_delete env a b c s = (Inr t, s')" for a b c t s' using delete_is_write [OF that] w by blast
    then show ?thesis using delete by (auto simp: local_execute_def live_services_def intro!: task)
  next
    case status
    then show ?thesis
      by (auto simp: local_execute_def live_services_def live_status_def intro!: ticket task status_wire_ok)
  next
    case res
    then show ?thesis using result_wire
      by (auto simp: local_execute_def live_services_def live_result_def bindM_def good_outcome_def wire_result_def
          intro!: ticket split: prod.splits sum.splits)
  next
    case cancel
    then show ?thesis using cancel_wire [OF inv]
      by (auto simp: local_execute_def live_services_def intro!: ticket task)
  next
    case rebuild
    have "wire_task_ok t" if "live_rebuild env s = (Inr t, s')" for t s'
      by (rule launch_wire [OF env inv _ that [unfolded live_rebuild_def]]) simp
    then show ?thesis using rebuild by (auto simp: local_execute_def live_services_def intro!: task)
  next
    case unknown
    then show ?thesis by (simp add: local_execute_def good_outcome_def)
  qed
qed

section \<open>Either client\<close>

definition clients :: "'c live_env \<Rightarrow> transport \<Rightarrow> string option \<Rightarrow> 'c live executor set" where
  "clients env tp key = {local_execute (live_services env), http_execute tp (app (live_services env) key False) key}"

lemma client_call:
  assumes "env_live env" and "live_inv env s" and "transport_ok tp key" and "ex \<in> clients env tp key"
    and "wire_request rq" and "rq_op rq \<notin> {''query'', ''tasks''}"
  shows "seekbase_call ex rq s = (Inr a, s') \<longleftrightarrow> seekbase_call (local_execute (live_services env)) rq s = (Inr a, s')"
proof -
  have "http_execute tp (app (live_services env) key False) key rq s = wire_outcome (local_execute (live_services env) rq s)"
    by (rule remote_outcome [OF assms(3,5) live_good [OF assms(1,2,6)]]) (use assms(6) in simp)
  then have "seekbase_call (http_execute tp (app (live_services env) key False) key) rq s = (Inr a, s') \<longleftrightarrow>
      seekbase_call (local_execute (live_services env)) rq s = (Inr a, s')"
    by (auto simp: seekbase_call_def bindM_def liftM_def wire_outcome_def split: prod.splits sum.splits)
  then show ?thesis using assms(4) by (auto simp: clients_def)
qed

lemma local_status: "seekbase_call (local_execute (live_services env)) (sb_task ''status'' i) s =
    (case task_status (log_of s) i of Inl e \<Rightarrow> Inl e | Inr t \<Rightarrow> Inr (ATask t), s)"
  by (auto simp: seekbase_call_def local_execute_def live_services_def live_status_def sb_task_def mk_request_def ticket_of_def
      task_result_of_def bindM_def port_answer_def as_answer_def log_of_def split: sum.splits)

lemma local_result: "seekbase_call (local_execute (live_services env)) (sb_task ''task_result'' i) s =
    (case task_result (lv_ts s) i of Inl e \<Rightarrow> Inl e | Inr rows \<Rightarrow> Inr (Rows (PList rows)), s)"
  by (auto simp: seekbase_call_def local_execute_def live_services_def live_result_def sb_task_def mk_request_def ticket_of_def
      bindM_def port_answer_def res_item_def item_def split: sum.splits)

text \<open>A status that is in the log, at either client.\<close>

lemma client_of_log:
  assumes "env_live env" and "live_inv env s" and "transport_ok tp key" and "ex \<in> clients env tp key"
    and "wire_request (sb_task ''status'' i)"
  shows "seekbase_call ex (sb_task ''status'' i) s = (Inr a, s') \<longleftrightarrow> (\<exists>r. task_status (log_of s) i = Inr r \<and> a = ATask r \<and> s' = s)"
proof -
  have "rq_op (sb_task ''status'' i) \<notin> {''query'', ''tasks''}" by (simp add: sb_task_def mk_request_def)
  from client_call [OF assms this] show ?thesis by (auto simp: local_status split: sum.splits)
qed

lemma drawn_wire: "env_live env \<Longrightarrow> drawn env m n i \<Longrightarrow> wire_request (sb_task ''status'' i)"
proof -
  assume "env_live env" and "drawn env m n i"
  then obtain d h where i: "i = ''tk_'' @ d @ ''_'' @ h" and d: "list_all is_ascii_digit d" and h: "hex_digits h"
    by (auto simp: drawn_def env_live_def new_task_id_def)
  let ?P = "\<lambda>c. url_safe c \<and> c \<noteq> CHR ''/''"
  have all: "list_all ?P ''0123456789abcdef''" "list_all ?P ''tk_''" "list_all ?P ''_''" by code_simp+
  have dig: "?P c" if "is_ascii_digit c" for c
  proof -
    have code: "ord c = 48 \<longleftrightarrow> c = CHR ''0''" "ord c = 49 \<longleftrightarrow> c = CHR ''1''" "ord c = 50 \<longleftrightarrow> c = CHR ''2''" "ord c = 51 \<longleftrightarrow> c = CHR ''3''" "ord c = 52 \<longleftrightarrow> c = CHR ''4''" "ord c = 53 \<longleftrightarrow> c = CHR ''5''" "ord c = 54 \<longleftrightarrow> c = CHR ''6''" "ord c = 55 \<longleftrightarrow> c = CHR ''7''" "ord c = 56 \<longleftrightarrow> c = CHR ''8''" "ord c = 57 \<longleftrightarrow> c = CHR ''9''"
      using ord_inj [of c "CHR ''0''"] ord_inj [of c "CHR ''1''"] ord_inj [of c "CHR ''2''"] ord_inj [of c "CHR ''3''"] ord_inj [of c "CHR ''4''"] ord_inj [of c "CHR ''5''"] ord_inj [of c "CHR ''6''"] ord_inj [of c "CHR ''7''"] ord_inj [of c "CHR ''8''"] ord_inj [of c "CHR ''9''"]
      by (simp_all add: ord_def)
    have "ord c = 48 \<or> ord c = 49 \<or> ord c = 50 \<or> ord c = 51 \<or> ord c = 52 \<or> ord c = 53 \<or> ord c = 54 \<or> ord c = 55 \<or> ord c = 56 \<or> ord c = 57"
      using that unfolding is_ascii_digit_def by presburger
    then have "c \<in> set ''0123456789''" unfolding code by simp
    then have "c \<in> set ''0123456789abcdef''" by auto
    then show ?thesis using all(1) unfolding list_all_iff by blast
  qed
  have "list_all ?P d" using d dig by (simp add: list_all_iff)
  moreover have "list_all ?P h" using h all(1) unfolding list_all_iff hex_digits_def by blast
  ultimately have "list_all ?P i" unfolding i list_all_append using all(2,3) by blast
  then have safe: "list_all url_safe i" "CHR ''/'' \<notin> set i" unfolding list_all_iff by blast+
  have "i \<noteq> []" by (simp add: i)
  then show ?thesis using safe by (simp add: wire_request_def sb_task_def mk_request_def slash_free_def)
qed

end
