(* ===== verification/Live_Props.thy ===== *)
theory Live_Props
  imports Live_Clients
begin

text \<open>
  The promises of the whole program, through its clients: what an acknowledged write means, what the
  recorded states of tasks do over time, when the rows of a finished query can be fetched. Between two
  requests anything may happen (\<open>live_run\<close>): requests of other clients, queued batches, steps of
  background tasks, cancellations, rebuilds, the passing of time, the process ending, in the middle of a batch too, and being opened
  again, as long as the retention has not expired (\<open>retained\<close>).
\<close>

section \<open>A system\<close>

definition live_cursor :: "(unit \<times> db) cursor" where
  "live_cursor = \<lparr>cu_extract = (\<lambda>sql. Inr [SelectStmt]), cu_execute = (\<lambda>sql ps c. (Inr ([''n''], [[PInt 1]]), c)),
     cu_read_json = (\<lambda>b c. (Inr (), c))\<rparr>"

definition sample_live :: "unit live_env" where
  "sample_live = \<lparr>le_w = sample_env, le_policy = default_policy, le_registry = builtin_registry, le_cursor = live_cursor,
     le_chain = (\<lambda>argvs inp. raise QueryError ''no chain''), le_hex = (\<lambda>n. replicate (Suc n) (CHR ''a'')), le_timeout = 300,
     le_landed = (\<lambda>i. True)\<rparr>"

lemma sample_live_ok: "env_live sample_live"
proof -
  have "hex_digits (replicate (Suc n) (CHR ''a''))" for n unfolding hex_digits_def set_replicate_conv_if by auto
  then show ?thesis by (auto simp: env_live_def sample_live_def cells_ok_def live_cursor_def inj_on_def simp del: replicate_Suc)
qed

abbreviation local_client :: "unit live executor" where
  "local_client \<equiv> local_execute (live_services sample_live)"

abbreviation remote_client :: "unit live executor" where
  "remote_client \<equiv> http_execute sample_tp (app (live_services sample_live) (Some ''k'') False) (Some ''k'')"

lemma sample_clients: "local_client \<in> clients sample_live sample_tp (Some ''k'')" "remote_client \<in> clients sample_live sample_tp (Some ''k'')"
  by (simp_all add: clients_def)

definition fresh_sample :: "unit live" where
  "fresh_sample = fresh_live fresh_state () 0"

text \<open>The clock of the sample stands at its origin; so evaluated, no large number is written out.\<close>

lemma epoch: "now 0 = Inr ''1970-01-01T00:00:00+00:00''" "today 0 = Inr ''19700101''"
proof -
  have "split_year 1970 0 = (1970, 0)" by (subst split_year.simps) simp
  then have d: "date_of 0 = \<lparr>dt_year = 1970, dt_month = 1, dt_day = 1\<rparr>"
    by (simp add: date_of_def month_lengths_def)
  have "padded 4 1970 = ''1970''" "padded 2 1 = ''01''" "padded 2 0 = ''00''" by code_simp+
  then show "now 0 = Inr ''1970-01-01T00:00:00+00:00''" "today 0 = Inr ''19700101''"
    by (simp_all add: now_def today_def datetime_ok_def date_text_def time_text_def d)
qed

lemma epoch_code [code]:
  "now us = (if us = 0 then Inr ''1970-01-01T00:00:00+00:00'' else if \<not> datetime_ok us then raise PyValueError ''year is out of range''
     else Inr (date_text ''-'' (us div US_PER_DAY) @ ''T'' @ time_text (us mod US_PER_DAY)))"
  "today us = (if us = 0 then Inr ''19700101'' else if \<not> datetime_ok us then raise PyValueError ''year is out of range''
     else Inr (date_text [] (us div US_PER_DAY)))"
  by (cases "us = 0", simp add: epoch, simp add: now_def) (cases "us = 0", simp add: epoch, simp add: today_def)

text \<open>A query in the background, driven to its end.\<close>

definition sample_acts :: "live_act list" where
  "sample_acts = Call (sb_query ''SELECT 1'' None None None True) # replicate 6 (Advance ''tk_19700101_a'' False)"

lemma sample_retained: "list_all retained []" "list_all retained sample_acts"
  "list_all retained [Tick 5, Crash [sample_insert, sample_delete] 1 1, Reopen 100 (\<lambda>_. 100) (\<lambda>_. 100)]"
  "list_all retained [Reopen 100 (\<lambda>_. 100) (\<lambda>_. 100), Call rq]"
  by (simp_all add: retained_def sample_acts_def LOG_RETENTION_DAYS_def RESULT_RETENTION_DAYS_def list_all_iff)

lemma sample_ticket: "wire_request (sb_task ''status'' ''tk_19700101_a'')"
  by code_simp

lemma live_insert_runs:
  "case seekbase_call local_client (sb_insert ''docs'' (Inr sample_rows)) (live_run sample_live [] fresh_sample) of
     (Inr (TaskId v), s) \<Rightarrow> v = PStr ''tk_19700101_a'' | _ \<Rightarrow> False"
  by code_simp

lemma live_query_runs:
  "case seekbase_call local_client (sb_task ''status'' ''tk_19700101_a'') (live_run sample_live sample_acts fresh_sample) of
     (Inr (ATask r), s) \<Rightarrow> t_state r = PStr ''done'' \<and> t_op r = PStr ''query'' | _ \<Rightarrow> False"
  by code_simp

section \<open>Writes\<close>

lemma client_insert_write:
  assumes "rq_op rq \<in> {''insert'', ''delete''}"
    and "seekbase_call (local_execute (live_services env)) rq s = (Inr (TaskId v), s')"
  shows "\<exists>w t. live_write env w s = (Inr t, s') \<and> v = t_id t"
proof (cases "rq_op rq = ''insert''")
  case True
  then obtain t where "live_insert env (opt_str (rq_table rq)) (PList (map PDict (rq_rows rq))) s = (Inr t, s')" "v = t_id t"
    using assms(2)
    by (auto simp: seekbase_call_def local_execute_def live_services_def task_result_of_def bindM_Inr port_answer_def task_id_of_def)
  then show ?thesis using insert_is_write by blast
next
  case False
  then obtain t where "live_delete env (opt_str (rq_table rq)) (opt_str (rq_where rq)) (PList (rq_params rq)) s = (Inr t, s')" "v = t_id t"
    using assms
    by (auto simp: seekbase_call_def local_execute_def live_services_def task_result_of_def bindM_Inr port_answer_def task_id_of_def)
  then show ?thesis using delete_is_write by blast
qed

text \<open>C4: An insert or delete that a client got acknowledged stays acknowledged: whatever happens next, the
  process dying and being opened again within the retention included, either client that asks for the id it was given is told that the write is done,
  and is told the same every time.\<close>

theorem acknowledged_write_stays_done:
  assumes "env_live env" and "transport_ok tp key" and "ex \<in> clients env tp key" and "ex' \<in> clients env tp key"
    and "rq_op rq \<in> {''insert'', ''delete''}" and "wire_request rq" and "list_all retained as" and "list_all retained bs"
    and "seekbase_call ex rq (live_run env as (fresh_live w c us)) = (Inr (TaskId v), s)"
  shows "\<exists>i t. v = PStr i \<and> t_state t = PStr ''done'' \<and>
     fst (seekbase_call ex' (sb_task ''status'' i) (live_run env bs s)) = Inr (ATask t)"
proof -
  let ?s0 = "live_run env as (fresh_live w c us)"
  have inv0: "live_inv env ?s0" using live_run_safe [OF assms(1) fresh_inv assms(7)] by blast
  have "seekbase_call (local_execute (live_services env)) rq ?s0 = (Inr (TaskId v), s)"
    using client_call [OF assms(1) inv0 assms(2,3,6), THEN iffD1, OF _ assms(9)] assms(5) by auto
  then obtain x t where x: "live_write env x ?s0 = (Inr t, s)" "v = t_id t"
    using client_insert_write [OF assms(5)] by blast
  obtain i where i: "live_inv env s" "t_state t = PStr ''done''" "t_id t = PStr i" "drawn env (lv_hex ?s0) (lv_hex s) i"
    "task_status (log_of s) i = Inr t" "map_of (lv_jobs s) i = None"
    using write_task_logged [OF assms(1) inv0 x(1)] by blast
  have later: "live_inv env (live_run env bs s)" "task_status (log_of (live_run env bs s)) i = Inr t"
    using live_run_safe [OF assms(1) i(1) assms(8)] i(5,6) unfolding log_moves_def by fastforce+
  have "seekbase_call ex' (sb_task ''status'' i) (live_run env bs s) = (Inr (ATask t), live_run env bs s)"
    using client_of_log [OF assms(1) later(1) assms(2,4) drawn_wire [OF assms(1) i(4)]] later(2) by blast
  then show ?thesis using i x by auto
qed

theorem acknowledged_write_stays_done_witness:
  "\<exists>s t. seekbase_call local_client (sb_insert ''docs'' (Inr sample_rows)) (live_run sample_live [] fresh_sample) =
      (Inr (TaskId (PStr ''tk_19700101_a'')), s) \<and> t_state t = PStr ''done'' \<and>
     fst (seekbase_call remote_client (sb_task ''status'' ''tk_19700101_a'') (live_run sample_live [Tick 5, Crash [sample_insert, sample_delete] 1 1, Reopen 100 (\<lambda>_. 100) (\<lambda>_. 100)] s)) = Inr (ATask t)"
proof -
  obtain s where s: "seekbase_call local_client (sb_insert ''docs'' (Inr sample_rows)) (live_run sample_live [] fresh_sample) =
      (Inr (TaskId (PStr ''tk_19700101_a'')), s)"
    using live_insert_runs by (auto split: prod.splits sum.splits answer.splits)
  have "rq_op (sb_insert ''docs'' (Inr sample_rows)) \<in> {''insert'', ''delete''}" by code_simp
  moreover have "wire_request (sb_insert ''docs'' (Inr sample_rows))" by code_simp
  ultimately show ?thesis
    using acknowledged_write_stays_done [OF sample_live_ok sample_tp_ok sample_clients _ _ sample_retained(1,3)] s
    unfolding fresh_sample_def by blast
qed

section \<open>Tasks\<close>

text \<open>C22: The state that a client is told of a task only moves forward in the life of the system (within the retention): along pending,
  running, done, failed or cancelled, where failed and cancelled are final and done can only be followed by
  cancelled. A task that was known once stays known.\<close>

theorem told_states_move_forward:
  assumes "env_live env" and "transport_ok tp key" and "ex \<in> clients env tp key" and "ex' \<in> clients env tp key"
    and "wire_request (sb_task ''status'' i)" and "list_all retained as" and "list_all retained bs"
    and "seekbase_call ex (sb_task ''status'' i) (live_run env as (fresh_live w c us)) = (Inr (ATask r), s)"
  shows "\<exists>r'. fst (seekbase_call ex' (sb_task ''status'' i) (live_run env bs s)) = Inr (ATask r') \<and>
     (t_state r, t_state r') \<in> {(PStr a, PStr b) | a b. (a, b) \<in> set STATE_EDGES}\<^sup>*"
proof -
  let ?s0 = "live_run env as (fresh_live w c us)"
  have inv0: "live_inv env ?s0" using live_run_safe [OF assms(1) fresh_inv assms(6)] by blast
  have r: "task_status (log_of s) i = Inr r" "s = ?s0"
    using client_of_log [OF assms(1) inv0 assms(2,3,5), THEN iffD1, OF assms(8)] by auto
  have inv: "live_inv env s" using inv0 r(2) by simp
  obtain r' where r': "live_inv env (live_run env bs s)" "task_status (log_of (live_run env bs s)) i = Inr r'" "moved r r'"
    using live_run_safe [OF assms(1) inv assms(7)] r(1) unfolding log_moves_def by blast
  have "seekbase_call ex' (sb_task ''status'' i) (live_run env bs s) = (Inr (ATask r'), live_run env bs s)"
    using client_of_log [OF assms(1) r'(1) assms(2,4,5)] r'(2) by blast
  then show ?thesis using r'(3) by (auto simp: moved_def edge_def)
qed

theorem told_states_move_forward_witness:
  "\<exists>s r r'. seekbase_call local_client (sb_task ''status'' ''tk_19700101_a'') (live_run sample_live sample_acts fresh_sample) = (Inr (ATask r), s) \<and>
     t_state r = PStr ''done'' \<and>
     fst (seekbase_call remote_client (sb_task ''status'' ''tk_19700101_a'')
        (live_run sample_live [Reopen 100 (\<lambda>_. 100) (\<lambda>_. 100), Call (sb_task ''task_cancel'' ''tk_19700101_a'')] s)) = Inr (ATask r') \<and>
     (t_state r, t_state r') \<in> {(PStr a, PStr b) | a b. (a, b) \<in> set STATE_EDGES}\<^sup>*"
proof -
  obtain s r where s: "seekbase_call local_client (sb_task ''status'' ''tk_19700101_a'') (live_run sample_live sample_acts fresh_sample) =
      (Inr (ATask r), s)" "t_state r = PStr ''done''"
    using live_query_runs by (auto split: prod.splits sum.splits answer.splits)
  from told_states_move_forward [OF sample_live_ok sample_tp_ok sample_clients sample_ticket sample_retained(2,4) s(1) [unfolded fresh_sample_def]] s
  show ?thesis by blast
qed

text \<open>C5: Whenever a client is told that a query is done, its rows can be fetched then (within the retention), by either client, and
  there are as many as the record says: no interleaving of cancellations, timeouts, writes and other tasks
  shows a finished query without its result.\<close>

theorem done_query_is_fetchable:
  assumes "env_live env" and "transport_ok tp key" and "ex \<in> clients env tp key" and "ex' \<in> clients env tp key"
    and "wire_request (sb_task ''status'' i)" and "list_all retained as"
    and "seekbase_call ex (sb_task ''status'' i) (live_run env as (fresh_live w c us)) = (Inr (ATask r), s)"
    and "t_state r = PStr ''done''" and "t_op r = PStr ''query''"
  shows "\<exists>rows. fst (seekbase_call ex' (sb_task ''task_result'' i) s) = Inr (Rows (PList rows)) \<and>
     t_rows r = PInt (int (length rows))"
proof -
  let ?s0 = "live_run env as (fresh_live w c us)"
  have inv0: "live_inv env ?s0" using live_run_safe [OF assms(1) fresh_inv assms(6)] by blast
  have r: "task_status (log_of s) i = Inr r" and s: "s = ?s0"
    using client_of_log [OF assms(1) inv0 assms(2,3,5), THEN iffD1, OF assms(7)] by auto
  have inv: "live_inv env s" using inv0 s by simp
  obtain rows where rows: "rows_ok rows" "map_of (ts_results (lv_ts s)) i = Some (result_text rows)" "t_rows r = PInt (int (length rows))"
    using inv r assms(8,9) unfolding live_inv_def result_kept_def by blast
  have "task_result (lv_ts s) i = Inr (map json_default_str rows)"
    using r assms(8,9) rows(2) result_lines_text [OF rows(1)] by (simp add: task_result_def log_of_def)
  then have l: "seekbase_call (local_execute (live_services env)) (sb_task ''task_result'' i) s =
      (Inr (Rows (PList (map json_default_str rows))), s)" by (simp add: local_result)
  have op: "rq_op (sb_task ''task_result'' i) \<notin> {''query'', ''tasks''}" by (simp add: sb_task_def mk_request_def)
  have wr: "wire_request (sb_task ''task_result'' i)" using assms(5) by (simp add: wire_request_def sb_task_def mk_request_def)
  have "seekbase_call ex' (sb_task ''task_result'' i) s = (Inr (Rows (PList (map json_default_str rows))), s)"
    by (rule client_call [OF assms(1) inv assms(2,4) wr op, THEN iffD2, OF l])
  then show ?thesis using rows(3) by auto
qed

theorem done_query_is_fetchable_witness:
  "\<exists>r s rows. seekbase_call local_client (sb_task ''status'' ''tk_19700101_a'') (live_run sample_live sample_acts fresh_sample) = (Inr (ATask r), s) \<and>
     fst (seekbase_call remote_client (sb_task ''task_result'' ''tk_19700101_a'') s) = Inr (Rows (PList rows)) \<and>
     t_rows r = PInt (int (length rows))"
proof -
  obtain s r where s: "seekbase_call local_client (sb_task ''status'' ''tk_19700101_a'') (live_run sample_live sample_acts fresh_sample) =
      (Inr (ATask r), s)" "t_state r = PStr ''done''" "t_op r = PStr ''query''"
    using live_query_runs by (auto split: prod.splits sum.splits answer.splits)
  from done_query_is_fetchable [OF sample_live_ok sample_tp_ok sample_clients sample_ticket sample_retained(2) s(1) [unfolded fresh_sample_def] s(2,3)] s(1)
  show ?thesis by blast
qed

end
