(* ===== verification/Mirror_Growth.thy ===== *)
theory Mirror_Growth
  imports Rebuild_Steps Write_Crash
begin

text \<open>
  The file mirror only grows: every operation of the write path, failed or not, leaves each file a
  prefix of what it becomes (\<open>grown\<close>). An event read from a file is therefore read from every later
  state of it, and a replay of a later mirror puts the row back, or marks it deleted, whatever else the
  mirror holds by then.
\<close>

section \<open>Growing files\<close>

definition clean_mirror :: "mirror \<Rightarrow> bool" where
  "clean_mirror m \<longleftrightarrow> (\<forall>k. clean_text (log_text m k))"

definition grown :: "mirror \<Rightarrow> mirror \<Rightarrow> bool" where
  "grown m m' \<longleftrightarrow> (clean_mirror m \<longrightarrow> clean_mirror m') \<and> (\<forall>k. \<exists>t. log_text m' k = log_text m k @ t)"

lemma grown_refl [simp]: "grown m m"
  by (simp add: grown_def)

lemma grown_trans: "grown m m' \<Longrightarrow> grown m' m'' \<Longrightarrow> grown m m''"
  unfolding grown_def by (metis append_assoc)

lemma grown_clean: "grown m m' \<Longrightarrow> clean_mirror m \<Longrightarrow> clean_mirror m'"
  by (simp add: grown_def)

lemma clean_Nil [simp]: "clean_mirror []"
  by (simp add: clean_mirror_def log_text_def clean_text_def)

lemma iter_events_mem: "(ds, v) \<in> set (iter_events m table) \<longleftrightarrow> v \<in> set (read_tolerant (log_text m (ds, table)))"
proof
  assume "v \<in> set (read_tolerant (log_text m (ds, table)))"
  moreover from this have "(ds, table) \<in> set (dict_keys m)" using events_no_file by fastforce
  then have "ds \<in> set (mirror_days m)" by (force simp: mirror_days_set)
  ultimately show "(ds, v) \<in> set (iter_events m table)" by (auto simp: iter_events_def)
qed (auto simp: iter_events_def)

lemma read_tolerant_clean: "clean_text s \<Longrightarrow> read_tolerant (s @ t) = read_tolerant s @ read_tolerant t"
  by (simp add: read_tolerant_def line_values_clean)

lemma events_stay:
  assumes "grown m m'" and "clean_mirror m" and "(ds, v) \<in> set (iter_events m table)"
  shows "(ds, v) \<in> set (iter_events m' table)"
proof -
  obtain t where "log_text m' (ds, table) = log_text m (ds, table) @ t" using assms(1) by (auto simp: grown_def)
  then show ?thesis
    using assms(2,3) read_tolerant_clean [of "log_text m (ds, table)" t] by (simp add: iter_events_mem clean_mirror_def)
qed

section \<open>The write path\<close>

lemma mirror_append_grown:
  assumes "mirror_append ds table v m = (q, m')"
  shows "grown m m'"
proof (cases "json_line v")
  case None
  then show ?thesis using assms by (simp add: mirror_append_def log_append_def append_line_def)
next
  case (Some l)
  then have "m' = dict_set m (ds, table) (log_text m (ds, table) @ l @ [newline])"
    using assms by (simp add: mirror_append_def log_append_def append_line_def)
  then show ?thesis by (auto simp: grown_def clean_mirror_def log_text_set clean_text_def)
qed

lemma forM_grown: "forM (mirror_append ds table) vs m = (q, m') \<Longrightarrow> grown m m'"
proof (induction vs arbitrary: m)
  case (Cons v vs)
  obtain q1 m1 where m1: "mirror_append ds table v m = (q1, m1)" by fastforce
  note g = mirror_append_grown [OF m1]
  show ?case
  proof (cases q1)
    case (Inl e)
    then show ?thesis using Cons.prems m1 g by (simp add: bindM_def)
  next
    case (Inr u)
    then show ?thesis using Cons m1 grown_trans [OF g] by (simp add: bindM_def)
  qed
qed simp

lemma write_puts_grown: "write_puts spec recs ds ts m = (q, m') \<Longrightarrow> grown m m'"
  by (cases "mapR (put_line spec ds ts) recs") (auto simp: write_puts_def bindM_def intro: forM_grown)

lemma write_deletes_grown: "write_deletes table keys ds ts m = (q, m') \<Longrightarrow> grown m m'"
  by (rule forM_grown [of ds table "map (tombstone ts) keys"]) (simp add: write_deletes_def forM_map)

lemma on_files_grown: "on_files m s = (q, s') \<Longrightarrow> (\<And>f r f'. m f = (r, f') \<Longrightarrow> grown f f') \<Longrightarrow> grown (w_files s) (w_files s')"
  by (auto simp: on_files_Inr)

lemma on_db_files: "on_db m s = (q, s') \<Longrightarrow> w_files s' = w_files s"
  by (auto simp: on_db_Inr)

lemma on_db_files_snd [simp]: "w_files (snd (on_db m s)) = w_files s"
  by (simp add: on_db_def split: prod.splits)

lemma execute_one_grown:
  assumes "execute_one ev ds ts op s = (q, s')"
  shows "grown (w_files s) (w_files s')"
proof (cases op)
  case (OpInsert table rws skip)
  consider "w_files s' = w_files s"
    | spec recs q1 s1 where "on_files (write_puts spec recs ds ts) s = (q1, s1)" "w_files s' = w_files s1"
    using assms unfolding OpInsert
    by (auto simp: bindM_def readM_def liftM_def returnM_def split: sum.splits prod.splits if_splits dest!: on_db_files)
  then show ?thesis by cases (auto dest!: on_files_grown intro: write_puts_grown)
next
  case (OpDelete table wh ps)
  consider "w_files s' = w_files s"
    | keys q1 s1 where "on_files (write_deletes table keys ds ts) s = (q1, s1)" "w_files s' = w_files s1"
    using assms unfolding OpDelete
    by (auto simp: bindM_def readM_def liftM_def returnM_def split: sum.splits prod.splits if_splits dest!: on_db_files)
  then show ?thesis by cases (auto dest!: on_files_grown intro: write_deletes_grown)
next
  case (OpUnknown k)
  then show ?thesis using assms by simp
qed

lemma execute_batch_grown: "execute_batch ev js s = (rs, s') \<Longrightarrow> grown (w_files s) (w_files s')"
proof (induction js arbitrary: s rs)
  case (Cons j js)
  obtain q s1 where s1: "execute_one ev (j_ds j) (j_ts j) (j_op j) s = (q, s1)" by fastforce
  then obtain rs1 where "execute_batch ev js s1 = (rs1, s')" using Cons.prems by (auto split: prod.splits)
  from Cons.IH [OF this] execute_one_grown [OF s1] show ?case by (rule grown_trans [rotated])
qed simp

lemma process_batch_grown:
  assumes "process_batch ev ts js b = (out, b')"
  shows "grown (w_files (b_w b)) (w_files (b_w b'))"
proof -
  obtain rs w1 where "execute_batch ev js (b_w b) = (rs, w1)" by fastforce
  with execute_batch_grown [OF this] assms show ?thesis
    by (auto simp: process_batch_def Let_def split: prod.splits)
qed

lemma cut_one_grown: "grown (w_files s) (w_files (snd (cut_one ev ds ts n op s)))"
proof -
  have puts: "grown (w_files t) (w_files t')" if "on_files (forM (mirror_append d tab) vs) t = (q, t')" for d tab vs t q t'
    using on_files_grown [OF that] forM_grown by blast
  have dels: "grown (w_files t) (w_files t')" if "on_files (write_deletes tab ks d u) t = (q, t')" for d tab ks u t q t'
    using on_files_grown [OF that] write_deletes_grown by blast
  show ?thesis
  proof (cases op)
    case (OpInsert table rws skip)
    then show ?thesis
      by (auto simp: bindM_def readM_def liftM_def returnM_def split: sum.splits prod.splits dest!: puts on_db_files)
  next
    case (OpDelete table wh ps)
    then show ?thesis
      by (auto simp: bindM_def readM_def liftM_def returnM_def split: sum.splits prod.splits dest!: dels on_db_files)
  qed simp
qed

lemma crash_batch_grown:
  assumes "crash_batch ev ts k n js s lg = (w', lg')"
  shows "grown (w_files s) (w_files w')"
proof -
  obtain rs w where e: "execute_batch ev (take k js) s = (rs, w)" by fastforce
  show ?thesis
    using execute_batch_grown [OF e] grown_trans [OF execute_batch_grown [OF e] cut_one_grown] e assms
    by (auto simp: crash_batch_def Let_def split: if_splits)
qed

section \<open>The lines of an operation\<close>

lemma forM_clean:
  assumes "clean_mirror m" and "list_all record_ok vs" and "forM (mirror_append ds table) vs m = (Inr u, m')"
  shows "\<forall>v \<in> set vs. (ds, v) \<in> set (iter_events m' table)"
  using assms
proof (induction vs arbitrary: m)
  case (Cons v vs)
  then obtain m1 where m1: "mirror_append ds table v m = (Inr (), m1)" "forM (mirror_append ds table) vs m1 = (Inr u, m')"
    by (auto simp: bindM_Inr)
  obtain d where d: "v = PDict d" "wf_json (PDict d)" using Cons.prems(2) by (auto simp: record_ok_def)
  have clean: "clean_text (log_text m (ds, table))" using Cons.prems(1) by (simp add: clean_mirror_def)
  obtain t where t: "append_line (log_text m (ds, table)) v = Inr t" "m1 = dict_set m (ds, table) t"
    using m1(1) by (auto simp: mirror_append_def log_append_def bindR_Inr_iff split: sum.splits)
  have c1: "clean_mirror m1" by (rule grown_clean [OF mirror_append_grown [OF m1(1)] Cons.prems(1)])
  have "(ds, v) \<in> set (iter_events m1 table)"
    using line_values_append(1) [OF clean d(2)] t d(1) by (simp add: iter_events_mem log_text_set read_tolerant_def image_iff)
  then have "(ds, v) \<in> set (iter_events m' table)" by (rule events_stay [OF forM_grown [OF m1(2)] c1])
  then show ?case using Cons.IH [OF c1 _ m1(2)] Cons.prems(2) by simp
qed simp

lemma write_puts_events:
  assumes "wf_table spec" and "\<forall>rec \<in> set recs. \<exists>rw. rec = norm_record spec rw \<and> list_all (\<lambda>(k, v). wf_json v) rw"
    and "clean_mirror m" and "write_puts spec recs ds ts m = (Inr u, m')" and "rec \<in> set recs"
  shows "(ds, PDict (put_dict ds ts rec)) \<in> set (iter_events m' (ts_name spec))"
proof -
  let ?lines = "map (\<lambda>rec. PDict (put_dict ds ts rec)) recs"
  have "mapR (put_line spec ds ts) recs = Inr ?lines"
    using assms(2) put_line_norm [OF assms(1)] by (intro mapR_map_Inr) auto
  then have f: "forM (mirror_append ds (ts_name spec)) ?lines m = (Inr u, m')"
    using assms(4) by (simp add: write_puts_def bindM_def)
  have "list_all record_ok ?lines" using assms(2) put_dict_ok [OF assms(1)] by (fastforce simp: list_all_iff)
  from forM_clean [OF assms(3) this f] show ?thesis using assms(5) by auto
qed

lemma write_deletes_events:
  assumes "list_all wf_json keys" and "clean_mirror m" and "write_deletes table keys ds ts m = (Inr u, m')" and "k \<in> set keys"
  shows "(ds, tombstone ts k) \<in> set (iter_events m' table)"
proof -
  have "forM (mirror_append ds table) (map (tombstone ts) keys) m = (Inr u, m')"
    using assms(3) by (simp add: write_deletes_def forM_map)
  moreover have "list_all record_ok (map (tombstone ts) keys)"
    using assms(1) by (auto simp: list_all_iff record_ok_def tombstone_def)
  ultimately show ?thesis using forM_clean [OF assms(2)] assms(4) by auto
qed

section \<open>Replaying a mirror that holds an event\<close>

text \<open>The cells of the row are what the columns store of the values written.\<close>

definition stores :: "duck \<Rightarrow> tablespec \<Rightarrow> pyrow \<Rightarrow> row \<Rightarrow> bool" where
  "stores x spec rw r \<longleftrightarrow>
     (case mapR (\<lambda>c. bindR (bind_cell c rw) (x_conv x (c_sql_type c))) (ts_columns spec) of
        Inl e \<Rightarrow> False | Inr cells \<Rightarrow> r_cells r = zip (column_names spec) cells)"

lemma stores_norm: "stores x spec (norm_record spec rw) r = stores x spec rw r"
proof -
  have same: "bind_cell c (norm_record spec rw) = bind_cell c rw" if "c \<in> set (ts_columns spec)" for c
    using that norm_record_get [of "c_name c" spec rw] by (simp add: bind_cell_def column_names_def)
  have "mapR (\<lambda>c. bindR (bind_cell c (norm_record spec rw)) (x_conv x (c_sql_type c))) (ts_columns spec) =
      mapR (\<lambda>c. bindR (bind_cell c rw) (x_conv x (c_sql_type c))) (ts_columns spec)"
    by (intro mapR_cong [OF refl]) (simp only: same)
  then show ?thesis by (simp add: stores_def)
qed

lemma stored_row_stores:
  assumes "mapR (\<lambda>c. bind_cell c rw) (ts_columns spec) = Inr (ir_cells ir)" and "stored_row x spec ir = Inr r"
  shows "stores x spec rw r"
proof -
  obtain cells where cells: "mapR (\<lambda>(c, v). x_conv x (c_sql_type c) v) (zip (ts_columns spec) (ir_cells ir)) = Inr cells"
    "r_cells r = zip (column_names spec) cells"
    using assms(2) by (auto simp: stored_row_def bindR_Inr_iff)
  have "mapR (\<lambda>c. bind_cell c rw) cs = Inr vs \<Longrightarrow> mapR (\<lambda>(c, v). x_conv x (c_sql_type c) v) (zip cs vs) = Inr ws \<Longrightarrow>
      mapR (\<lambda>c. bindR (bind_cell c rw) (x_conv x (c_sql_type c))) cs = Inr ws" for cs vs ws
    by (induction cs arbitrary: vs ws) (auto simp: bindR_Inr_iff)
  from this [OF assms(1) cells(1)] cells(2) show ?thesis by (simp add: stores_def)
qed

lemma reload_row_rows:
  assumes "reload_row ev now spec rt (i, rec) d = (Inr u, d')"
  shows "\<exists>r. stores (e_duck ev) spec rec r \<and>
     (\<forall>t. rows_of d' t = (if t = ts_name spec then rows_of d t @ [r] else rows_of d t))"
proof -
  obtain irs where irs: "insert_payload (e_cfg ev) spec 0 [rec] (single (rt_vecs rt) i) (single (rt_toks rt) i)
      (rt_ds rt ! i) (or_now (rt_ca rt ! i) (now i)) = Inr irs"
    and ins: "forM (insert_one (e_duck ev) spec) irs d = (Inr u, d')"
    using assms by (auto simp: reload_row_def commit_rows_def insert_rows_def bindM_Inr)
  obtain ir where ir: "irs = [ir]" "mapR (\<lambda>c. bind_cell c rec) (ts_columns spec) = Inr (ir_cells ir)"
    using insert_payload_cells [OF irs] by (auto simp: list_all2_Cons1)
  have one: "insert_one (e_duck ev) spec ir d = (Inr u, d')" using ins ir(1) by (auto simp: bindM_Inr)
  obtain r where r: "stored_row (e_duck ev) spec ir = Inr r" "rows_of d' (ts_name spec) = rows_of d (ts_name spec) @ [r]"
    using ins.put_ok [OF one] by blast
  show ?thesis using stored_row_stores [OF ir(2) r(1)] r(2) forM_insert_frame [OF ins] by auto
qed

lemma reload_delete_rows:
  assumes "reload_delete ev spec (k, ds, dat) d = (Inr u, d')"
  shows "\<exists>spec' ds' now'. schema_table (cfg_schema (e_cfg ev)) (ts_name spec) = Inr spec' \<and> meta_cell (e_duck ev) (PStr ds) = Inr ds' \<and>
     (\<forall>t. rows_of d' t = (if t = ts_name spec then map (mark_deleted spec' [k] ds' now') (rows_of d t) else rows_of d t))"
  using soft_delete_Inr [of "e_cfg ev" "e_duck ev" "ts_name spec" "[PStr k]" "PStr ds" dat d u d'] assms
  by (fastforce simp: reload_delete_def)

lemma index_steps_rows:
  "run_rstep ev now (RFts spec) d = (q, d') \<Longrightarrow> rows_of d' t = rows_of d t"
  "run_rstep ev now (RIndex spec rt) d = (q, d') \<Longrightarrow> rows_of d' t = rows_of d t"
  using rebuild_fts_frame by (auto simp: rebuild_search_index_def lance_write_def rows_of_def split: if_splits)

fun clears :: "rstep \<Rightarrow> bool" where
  "clears (RClear t) = True"
| "clears _ = False"

lemma rstep_keeps_cells:
  assumes "run_rstep ev now y d = (Inr u, d')" and "\<not> clears y" and "r \<in> set (rows_of d t)"
  shows "\<exists>r' \<in> set (rows_of d' t). r_cells r' = r_cells r"
proof (cases y)
  case (RRow spec rt i rec)
  then have "set (rows_of d t) \<subseteq> set (rows_of d' t)" using reload_row_rows [of ev now spec rt i rec d u d'] assms(1) by auto
  then show ?thesis using assms(3) by auto
next
  case (RDelete spec e)
  obtain k ds dat where e: "e = (k, ds, dat)" by (cases e)
  have m: "r_cells (mark_deleted s ks a b q) = r_cells q" for s ks a b q by (simp add: mark_deleted_def)
  show ?thesis using reload_delete_rows [of ev spec k ds dat d u d'] assms RDelete e m by fastforce
qed (use assms index_steps_rows in auto)

lemma steps_keep_cells:
  "forM (run_rstep ev now) ys d = (Inr u, d') \<Longrightarrow> list_all (\<lambda>y. \<not> clears y) ys \<Longrightarrow> r \<in> set (rows_of d t) \<Longrightarrow>
     \<exists>r' \<in> set (rows_of d' t). r_cells r' = r_cells r"
proof (induction ys arbitrary: d r)
  case (Cons y ys)
  obtain d1 where d1: "run_rstep ev now y d = (Inr (), d1)" "forM (run_rstep ev now) ys d1 = (Inr u, d')"
    using Cons.prems(1) by (auto simp: bindM_Inr)
  obtain r1 where r1: "r1 \<in> set (rows_of d1 t)" "r_cells r1 = r_cells r"
    using rstep_keeps_cells [OF d1(1) _ Cons.prems(3)] Cons.prems(2) by auto
  show ?case using Cons.IH [OF d1(2) _ r1(1)] Cons.prems(2) r1(2) by auto
qed auto

text \<open>Where an event's step is in the plan of a replay, and what follows it.\<close>

lemma split_events_put:
  "split_events evs = Inr (puts, dels) \<Longrightarrow> (ds, PDict p) \<in> set evs \<Longrightarrow> map_of p ''_deleted'' = None \<Longrightarrow> PDict p \<in> set puts"
  by (induction evs arbitrary: puts dels rule: split_events.induct) (fastforce simp: bindR_Inr_iff)+

lemma split_events_del:
  "split_events evs = Inr (puts, dels) \<Longrightarrow> (ds, PDict p) \<in> set evs \<Longrightarrow> map_of p ''_deleted'' = Some k \<Longrightarrow>
     (py_str k, ds, dict_get p ''deleted_at'') \<in> set dels"
  by (induction evs arbitrary: puts dels rule: split_events.induct) (fastforce simp: bindR_Inr_iff)+

lemma read_all_split:
  assumes "read_all ev m (ss @ spec # ss') = Inr rts"
  shows "\<exists>r1 rt r2. rts = r1 @ (spec, rt) # r2 \<and> read_table ev m spec = Inr rt \<and> map fst r2 = ss'"
proof -
  have fst: "read_all ev m zs = Inr xs \<Longrightarrow> map fst xs = zs" for zs xs
    by (induction zs arbitrary: xs) (auto simp: read_all_def bindR_Inr_iff)
  from assms show ?thesis
  proof (induction ss arbitrary: rts)
    case Nil
    then obtain rt r2 where "read_table ev m spec = Inr rt" "read_all ev m ss' = Inr r2" "rts = [] @ (spec, rt) # r2"
      by (auto simp: read_all_def bindR_Inr_iff)
    then show ?case using fst by blast
  next
    case (Cons s ss)
    then obtain x rts' where "read_all ev m (ss @ spec # ss') = Inr rts'" "rts = x # rts'"
      by (auto simp: read_all_def bindR_Inr_iff)
    with Cons.IH show ?case by (metis append_Cons)
  qed
qed

text \<open>A replay that ends well has run, after the clearing, the steps of the table and then those of the tables behind it.\<close>

lemma replay_table_steps:
  assumes "replay ev m now d = (Inr st, d')" and "spec \<in> set (sc_tables (cfg_schema (e_cfg ev)))"
    and "wf_schema (cfg_schema (e_cfg ev))"
  shows "\<exists>rt d1 rts. read_table ev m spec = Inr rt \<and>
     forM (run_rstep ev now) (table_steps (spec, rt) @ concat (map table_steps rts)) d1 = (Inr (), d') \<and>
     (\<forall>x \<in> set rts. ts_name (fst x) \<noteq> ts_name spec)"
proof -
  obtain ss ss' where specs: "sc_tables (cfg_schema (e_cfg ev)) = ss @ spec # ss'" using assms(2) split_list by metis
  obtain rts where rts: "read_all ev m (ss @ spec # ss') = Inr rts"
    "forM (run_rstep ev now) (rebuild_plan (ss @ spec # ss') rts) d = (Inr (), d')"
    using assms(1) by (auto simp: replay_plan specs split: sum.splits prod.splits)
  obtain r1 rt r2 where r: "rts = r1 @ (spec, rt) # r2" "read_table ev m spec = Inr rt" "map fst r2 = ss'"
    using read_all_split [OF rts(1)] by blast
  have "distinct (map ts_name (ss @ spec # ss'))" using assms(3) by (simp add: wf_schema_def table_names_def specs)
  then have "ts_name spec \<notin> ts_name ` set ss'" by simp
  then have other: "ts_name (fst x) \<noteq> ts_name spec" if "x \<in> set r2" for x
    using that unfolding r(3) [symmetric] by (metis imageI list.set_map)
  have "rebuild_plan (ss @ spec # ss') rts =
      (map (\<lambda>spec. RClear (ts_name spec)) (ss @ spec # ss') @ concat (map table_steps r1)) @
      (table_steps (spec, rt) @ concat (map table_steps r2))" by (simp add: rebuild_plan_def r(1))
  with rts(2) obtain d1 where "forM (run_rstep ev now) (table_steps (spec, rt) @ concat (map table_steps r2)) d1 = (Inr (), d')"
    using forM_append_Inr by metis
  then show ?thesis using r(2) other by blast
qed

lemma table_steps_clear: "list_all (\<lambda>y. \<not> clears y) (table_steps x)"
  by (auto simp: table_steps_def list_all_iff split: prod.splits)

lemma replay_puts_back:
  assumes "replay ev m now d = (Inr st, d')" and "spec \<in> set (sc_tables (cfg_schema (e_cfg ev)))"
    and "wf_schema (cfg_schema (e_cfg ev))" and "(ds, PDict p) \<in> set (iter_events m (ts_name spec))"
    and "map_of p ''_deleted'' = None"
  shows "\<exists>r \<in> set (rows_of d' (ts_name spec)). stores (e_duck ev) spec (norm_record spec p) r"
proof -
  obtain rt d1 rts where rt: "read_table ev m spec = Inr rt"
    "forM (run_rstep ev now) (table_steps (spec, rt) @ concat (map table_steps rts)) d1 = (Inr (), d')"
    using replay_table_steps [OF assms(1-3)] by blast
  obtain puts dels ps where s: "split_events (iter_events m (ts_name spec)) = Inr (puts, dels)"
    "mapR as_object puts = Inr ps" "rt_recs rt = map (norm_record spec) ps"
    using rt(1) by (auto simp: read_table_def bindR_Inr_iff Let_def)
  have "PDict p \<in> set puts" by (rule split_events_put [OF s(1) assms(4,5)])
  then have "p \<in> set ps" using s(2) by (induction puts arbitrary: ps) (auto simp: bindR_Inr_iff as_object_def)
  then obtain i where "i < length (rt_recs rt)" "rt_recs rt ! i = norm_record spec p"
    using s(3) by (auto simp: in_set_conv_nth)
  then have "RRow spec rt i (norm_record spec p) \<in> set (table_steps (spec, rt))"
    by (force simp: table_steps_def in_set_enumerate_eq)
  then obtain a b where ab: "table_steps (spec, rt) @ concat (map table_steps rts) = a @ RRow spec rt i (norm_record spec p) # b"
    by (metis append.assoc append_Cons split_list)
  have "list_all (\<lambda>y. \<not> clears y) (table_steps (spec, rt) @ concat (map table_steps rts))"
    using table_steps_clear by (induction rts) auto
  then have clear: "list_all (\<lambda>y. \<not> clears y) b" unfolding ab by simp
  obtain d2 d3 where d: "reload_row ev now spec rt (i, norm_record spec p) d2 = (Inr (), d3)" "forM (run_rstep ev now) b d3 = (Inr (), d')"
    using forM_append_Inr [THEN iffD1, OF rt(2) [unfolded ab]] by (auto simp: bindM_Inr)
  obtain r where "stores (e_duck ev) spec (norm_record spec p) r" "r \<in> set (rows_of d3 (ts_name spec))"
    using reload_row_rows [OF d(1)] by auto
  with steps_keep_cells [OF d(2) clear this(2)] show ?thesis by (auto simp: stores_def split: sum.splits)
qed

text \<open>The rows of a table with a given key text are all marked deleted.\<close>

definition gone :: "tablespec \<Rightarrow> string \<Rightarrow> db \<Rightarrow> bool" where
  "gone spec k d \<longleftrightarrow> (\<forall>r \<in> set (rows_of d (ts_name spec)). pk_text spec r = k \<longrightarrow> r_deleted_ds r \<noteq> None)"

fun loads :: "string \<Rightarrow> rstep \<Rightarrow> bool" where
  "loads t (RRow spec rt i rec) = (ts_name spec = t)"
| "loads t (RClear t') = True"
| "loads t _ = False"

lemma rstep_keeps_gone:
  assumes "run_rstep ev now y d = (Inr u, d')" and "\<not> loads (ts_name spec) y" and "conv_ok (e_duck ev)" and "gone spec k d"
  shows "gone spec k d'"
proof (cases y)
  case (RRow spec' rt i rec)
  then have "rows_of d' (ts_name spec) = rows_of d (ts_name spec)"
    using reload_row_rows [of ev now spec' rt i rec d u d'] assms(1,2) by auto
  then show ?thesis using assms(4) by (simp add: gone_def)
next
  case (RDelete spec' e)
  obtain k' ds dat where e: "e = (k', ds, dat)" by (cases e)
  obtain spec'' ds' now' where r: "\<forall>t. rows_of d' t = (if t = ts_name spec' then map (mark_deleted spec'' [k'] ds' now') (rows_of d t)
      else rows_of d t)"
    using reload_delete_rows [of ev spec' k' ds dat d u d'] assms(1) RDelete e by auto
  have "pk_text spec r = k \<Longrightarrow> r_deleted_ds r \<noteq> None" if "r \<in> set (rows_of d (ts_name spec))" for r
    using assms(4) that by (simp add: gone_def)
  then have "pk_text spec (mark_deleted spec'' [k'] ds' now' r) = k \<longrightarrow> r_deleted_ds (mark_deleted spec'' [k'] ds' now' r) \<noteq> None"
    if "r \<in> set (rows_of d (ts_name spec))" for r
    using that unfolding pk_text_mark by (fastforce simp: mark_deleted_def)
  then show ?thesis using r assms(4) by (simp add: gone_def)
qed (use assms index_steps_rows in \<open>auto simp: gone_def\<close>)

lemma steps_keep_gone:
  "forM (run_rstep ev now) ys d = (Inr u, d') \<Longrightarrow> list_all (\<lambda>y. \<not> loads (ts_name spec) y) ys \<Longrightarrow> conv_ok (e_duck ev) \<Longrightarrow>
     gone spec k d \<Longrightarrow> gone spec k d'"
proof (induction ys arbitrary: d)
  case (Cons y ys)
  obtain d1 where d1: "run_rstep ev now y d = (Inr (), d1)" "forM (run_rstep ev now) ys d1 = (Inr u, d')"
    using Cons.prems(1) by (auto simp: bindM_Inr)
  have "gone spec k d1" using rstep_keeps_gone [OF d1(1) _ Cons.prems(3,4)] Cons.prems(2) by simp
  then show ?case using Cons.IH [OF d1(2)] Cons.prems(2,3) by simp
qed simp

lemma replay_marks:
  assumes "replay ev m now d = (Inr st, d')" and "spec \<in> set (sc_tables (cfg_schema (e_cfg ev)))"
    and "wf_schema (cfg_schema (e_cfg ev))" and "conv_ok (e_duck ev)"
    and "(ds, tombstone ts k) \<in> set (iter_events m (ts_name spec))"
  shows "gone spec (py_str k) d'"
proof -
  obtain rt d1 rts where rt: "read_table ev m spec = Inr rt"
    "forM (run_rstep ev now) (table_steps (spec, rt) @ concat (map table_steps rts)) d1 = (Inr (), d')"
    "\<forall>x \<in> set rts. ts_name (fst x) \<noteq> ts_name spec"
    using replay_table_steps [OF assms(1-3)] by blast
  obtain puts where "split_events (iter_events m (ts_name spec)) = Inr (puts, rt_dels rt)"
    using rt(1) by (auto simp: read_table_def bindR_Inr_iff Let_def)
  from split_events_del [OF this assms(5) [unfolded tombstone_def]]
  obtain dels1 dels2 where dels: "rt_dels rt = dels1 @ (py_str k, ds, PStr ts) # dels2"
    by (auto simp: dict_get_def dest: split_list)
  let ?post = "map (RDelete spec) dels2 @ [RFts spec, RIndex spec rt] @ concat (map table_steps rts)"
  have "table_steps (spec, rt) @ concat (map table_steps rts) =
      (map (\<lambda>(i, rec). RRow spec rt i rec) (enumerate 0 (rt_recs rt)) @ map (RDelete spec) dels1) @
      RDelete spec (py_str k, ds, PStr ts) # ?post"
    by (simp add: table_steps_def dels)
  from forM_append_Inr [THEN iffD1, OF rt(2) [unfolded this]] obtain d2 d3 where
    d: "reload_delete ev spec (py_str k, ds, PStr ts) d2 = (Inr (), d3)" "forM (run_rstep ev now) ?post d3 = (Inr (), d')"
    by (auto simp: bindM_Inr)
  have "\<not> loads (ts_name spec) y" if "x \<in> set rts" "y \<in> set (table_steps x)" for x y
    using that rt(3) by (auto simp: table_steps_def)
  then have others: "list_all (\<lambda>y. \<not> loads (ts_name spec) y) ?post" by (auto simp: list_all_iff)
  have "gone spec (py_str k) d3"
    using reload_delete_rows [OF d(1)] wf_schema_lookup [OF assms(3,2)] meta_cell_str [OF assms(4)]
    by (auto simp: gone_def mark_deleted_def)
  from steps_keep_gone [OF d(2) others assms(4) this] show ?thesis .
qed

end
