(* ===== verification/Live_Durable.thy ===== *)
theory Live_Durable
  imports Live_Props Mirror_Growth
begin

text \<open>
  Durability: what a client got acknowledged is in the file mirror from then on, in every later state
  of the system, and every rebuild from such a mirror that ends well has it again. Every step of the
  live system, of the environment's too, only lets the mirror grow (\<open>growing\<close>).
\<close>

section \<open>Every step lets the mirror grow\<close>

abbreviation files :: "'c live \<Rightarrow> mirror" where
  "files s \<equiv> w_files (lv_w s)"

definition growing :: "('c live, exn, 'a) sm \<Rightarrow> bool" where
  "growing m \<longleftrightarrow> (\<forall>s. grown (files s) (files (snd (m s))))"

lemma growing_step: "growing m \<Longrightarrow> m s = (q, s') \<Longrightarrow> grown (files s) (files s')"
  by (metis growing_def snd_conv)

lemma growing_basic [simp]: "growing (returnM a)" "growing (raiseM e)" "growing (liftM r)" "growing read_now" "growing read_today"
  "growing (live_status i)" "growing (live_list n)" "growing (live_result i)"
  by (simp_all add: growing_def returnM_def raiseM_def liftM_def read_now_def read_today_def live_status_def live_list_def live_result_def)

lemma growing_bind: "growing m \<Longrightarrow> (\<And>a. growing (f a)) \<Longrightarrow> growing (bindM m f)"
  unfolding growing_def by (auto simp: bindM_def split: prod.splits sum.splits) (metis grown_trans snd_conv)+

lemma growing_if: "growing m \<Longrightarrow> growing m' \<Longrightarrow> growing (if b then m else m')"
  by simp

lemma growing_same: "(\<And>s. files (snd (m s)) = files s) \<Longrightarrow> growing m"
  by (simp add: growing_def)

lemma files_draw_id: "files (snd (draw_id env s)) = files s"
  by (simp add: draw_id_def bindM_def read_today_def split: sum.splits)

lemma growing_query: "growing (live_query env qa)"
  unfolding live_query_def
  by (intro growing_bind growing_basic growing_same) (simp add: on_engine_def split: prod.splits)

lemma growing_draw_jobs: "growing (draw_jobs env ws)"
proof (induction ws)
  case (Cons w ws)
  show ?case unfolding draw_jobs.simps by (intro growing_bind growing_basic Cons) (rule growing_same, rule files_draw_id)
qed (simp add: growing_def)

lemma growing_batch: "growing (live_batch env ws)"
  unfolding live_batch_def
proof (intro growing_bind growing_draw_jobs growing_basic)
  show "growing (run_batch env t js)" for t js
    unfolding growing_def
  proof
    fix s :: "'a live"
    obtain out b where b: "process_batch (le_w env) t js \<lparr>b_w = lv_w s, b_log = ts_log (lv_ts s)\<rparr> = (out, b)" by fastforce
    from process_batch_grown [OF this] show "grown (files s) (files (snd (run_batch env t js s)))"
      by (simp add: run_batch_def b)
  qed
qed

lemma growing_crash: "growing (live_crash env ws k n)"
  unfolding live_crash_def
  by (intro growing_bind growing_draw_jobs growing_basic)
    (auto simp: growing_def split: prod.splits dest: crash_batch_grown)

lemma growing_write: "growing (live_write env w)"
  unfolding live_write_def by (intro growing_bind growing_batch growing_basic)

lemma files_put_job [simp]: "files (put_job d work s) = files s"
  by (simp add: put_job_def)

lemma growing_launch: "growing (live_launch env adopted opn query work)"
  unfolding live_launch_def
  by (intro growing_bind growing_same files_draw_id growing_basic) (simp split: sum.splits)

lemma growing_cancel: "growing (live_cancel env i)"
  unfolding live_cancel_def
  by (intro growing_bind growing_basic growing_same) (simp add: live_status_def split: option.splits prod.splits)

lemma growing_local: "growing (local_execute (live_services env) rq)"
  unfolding local_execute_def live_services_def services.select_convs task_result_of_def live_submit_def live_insert_def live_delete_def
    live_rebuild_def
  by (intro growing_if growing_bind growing_basic growing_query growing_write growing_launch growing_cancel)

lemma rebuild_next_files: "rebuild_next ev tf (p, w) = (p', w') \<Longrightarrow> w_files w' = w_files w"
  by (induction ev tf "(p, w)" rule: rebuild_next.induct) (auto dest: on_db_files split: sum.splits prod.splits)

lemma advance_job_grown: "grown (files s) (files (advance_job env tm timed_out i j s))"
proof (cases "bj_pc j = Working \<and> \<not> timed_out")
  case True
  obtain out work s1 where w: "work_next env tm (bj_work j) s = (out, work, s1)" by (rule prod_cases3)
  have "grown (files s) (files s1)"
  proof (cases "bj_work j")
    case (BgQuery qa)
    then show ?thesis using w growing_step [OF growing_query, of env qa s] by (auto simp: work_next_def split: prod.splits)
  next
    case (BgRebuild p)
    obtain p' w' where "rebuild_next (le_w env) (\<lambda>_. tm) (p, lv_w s) = (p', w')" by fastforce
    with rebuild_next_files [OF this] w show ?thesis by (auto simp: work_next_def BgRebuild)
  qed
  then show ?thesis using True w by (cases out) (auto simp: advance_job_def)
next
  case False
  then show ?thesis unfolding advance_job_def if_not_P [OF False] by simp
qed

lemma close_jobs_grown: "grown (files s) (files (close_jobs env is s))"
proof (induction "is" arbitrary: s)
  case (Cons i "is")
  have "grown (files s) (files (snd (live_cancel env i s)))" using growing_cancel [of env i] by (simp add: growing_def)
  from grown_trans [OF this Cons.IH] show ?case by simp
qed simp

lemma live_next_grown: "grown (files s) (files (live_next env a s))"
proof (cases a)
  case (Call rq)
  then show ?thesis using growing_local [of env rq] by (simp add: growing_def)
next
  case (Late rq)
  have "growing (live_adopt env (local_args rq))"
    unfolding live_adopt_def by (intro growing_bind growing_basic growing_launch)
  then show ?thesis using Late by (simp add: growing_def)
next
  case (Writes ws)
  then show ?thesis using growing_batch [of env ws] by (simp add: growing_def)
next
  case (Crash ws k n)
  then show ?thesis using growing_crash [of env ws k n] by (simp add: growing_def)
next
  case (Advance i timed_out)
  have "growing (live_advance env timed_out i)"
    unfolding live_advance_def
    by (intro growing_bind growing_basic) (auto simp: growing_def advance_job_grown split: option.splits)
  then show ?thesis using Advance by (simp add: growing_def)
qed (simp_all add: close_jobs_grown)

lemma live_run_grown: "grown (files s) (files (live_run env as s))"
proof (induction as arbitrary: s)
  case (Cons a as)
  from grown_trans [OF live_next_grown Cons.IH] show ?case by simp
qed simp

section \<open>A write that was acknowledged\<close>

lemma live_write_executed:
  assumes "live_write env w s = (Inr t, s')"
  shows "\<exists>ds ts ex w1 xs. today (lv_clock s) = Inr ds \<and> now (lv_clock s) = Inr ts \<and>
     execute_one (le_w env) ds ts w (lv_w s) = (Inr ex, w1) \<and> lv_w s' = rebuild_tables (le_w env) xs w1"
proof -
  obtain js s1 tm out where js: "draw_jobs env [w] s = (Inr js, s1)" and run: "run_batch env tm js s1 = (Inr out, s')"
    and hd: "hd out = Inr t"
    using assms by (auto simp: live_write_def live_batch_def bindM_Inr read_now_def)
  obtain d u i where j: "js = [\<lparr>j_op = w, j_ds = d, j_ts = u, j_id = i\<rparr>]" and s1: "lv_w s1 = lv_w s"
    and clk: "today (lv_clock s) = Inr d" "now (lv_clock s) = Inr u"
    using js by (auto simp: bindM_Inr read_today_def read_now_def dest!: draw_id_Inr)
  obtain q w1 where e: "execute_one (le_w env) d u w (lv_w s) = (q, w1)" by fastforce
  obtain b where b: "process_batch (le_w env) tm js \<lparr>b_w = lv_w s1, b_log = ts_log (lv_ts s1)\<rparr> = (out, b)" "lv_w s' = b_w b"
    using run by (auto simp: run_batch_def split: prod.splits)
  have "\<exists>ex. q = Inr ex" using b(1) hd by (auto simp: process_batch_def Let_def j s1 e split: prod.splits sum.splits)
  moreover have "\<exists>xs. lv_w s' = rebuild_tables (le_w env) xs w1"
    using b by (auto simp: process_batch_def Let_def j s1 e split: prod.splits)
  ultimately show ?thesis using e clk by blast
qed

lemma live_write_clock:
  assumes "live_write env w s = (Inr t, s')"
  shows "lv_clock s' = lv_clock s"
proof -
  obtain js s1 tm out where js: "draw_jobs env [w] s = (Inr js, s1)" and run: "run_batch env tm js s1 = (Inr out, s')"
    using assms by (auto simp: live_write_def live_batch_def bindM_Inr read_now_def)
  have "lv_clock s1 = lv_clock s" using js by (auto simp: bindM_Inr read_today_def read_now_def dest!: draw_id_Inr)
  moreover have "lv_clock s' = lv_clock s1" using run by (auto simp: run_batch_def split: prod.splits)
  ultimately show ?thesis by simp
qed

lemma live_write_served:
  assumes "live_write env w s = (Inr t, s')" and "served (le_w env) ds0 (lv_w s)" and "op_json w"
    and "today (lv_clock s) = Inr ds" and "ds0 \<le> ds" and "now (lv_clock s) = Inr ts" and "ts \<noteq> []"
  shows "served (le_w env) ds (lv_w s')"
proof -
  obtain x w1 xs where "execute_one (le_w env) ds ts w (lv_w s) = (Inr x, w1)" "lv_w s' = rebuild_tables (le_w env) xs w1"
    using live_write_executed [OF assms(1)] assms(4,6) by auto
  from served.index [OF served.done_write [OF served.later [OF assms(2,5)] assms(3,7) this(1)]] this(2) show ?thesis by simp
qed

lemma insert_in_mirror:
  assumes "execute_one ev ds ts (OpInsert table rws False) w = (Inr ex, w1)" and "clean_mirror (w_files w)"
    and "schema_table (cfg_schema (e_cfg ev)) table = Inr spec" and "wf_table spec" and "list_all (list_all (\<lambda>(k, v). wf_json v)) rws"
    and "rw \<in> set rws"
  shows "(ds, PDict (put_dict ds ts (norm_record spec rw))) \<in> set (iter_events (w_files w1) table)"
  using assms(1)
proof (cases rule: insert_Inr)
  case (none spec')
  then show ?thesis using validate_Inr(4) [OF none(1) assms(3)] assms(6) by simp
next
  case (some spec' recs vs ks m d1 d2)
  have spec: "spec' = spec" using some(3) assms(3) by simp
  have recs: "recs = map (norm_record spec) rws" using validate_Inr(4) [OF some(1) assms(3)] by simp
  have "\<forall>rec \<in> set recs. \<exists>rw. rec = norm_record spec rw \<and> list_all (\<lambda>(k, v). wf_json v) rw"
    using recs assms(5) by (auto simp: list_all_iff)
  from write_puts_events [OF assms(4) this assms(2) some(5) [unfolded spec]]
  have "(ds, PDict (put_dict ds ts (norm_record spec rw))) \<in> set (iter_events m (ts_name spec))"
    using recs assms(6) by simp
  then show ?thesis using some(8) schema_table_Inr [OF assms(3)] by simp
qed

lemma insert_in_table:
  assumes "execute_one ev ds ts (OpInsert table rws False) w = (Inr ex, w1)"
    and "schema_table (cfg_schema (e_cfg ev)) table = Inr spec" and "rw \<in> set rws"
  shows "\<exists>r \<in> set (rows_of (w_db w1) table). stores (e_duck ev) spec rw r"
  using assms(1)
proof (cases rule: insert_Inr)
  case (none spec')
  then show ?thesis using validate_Inr(4) [OF none(1) assms(2)] assms(3) by simp
next
  case (some spec' recs vs ks m d1 d2)
  have spec: "spec' = spec" "ts_name spec = table" using some(3) assms(2) schema_table_Inr [OF assms(2)] by auto
  have rec: "norm_record spec rw \<in> set recs" using validate_Inr(4) [OF some(1) assms(2)] assms(3) by simp
  obtain irs where irs: "insert_payload (e_cfg ev) spec 0 recs vs ks (PStr ds) (PStr ts) = Inr irs"
    and f: "forM (insert_one (e_duck ev) spec) irs (w_db w) = (Inr (), d1)"
    using some(6) by (auto simp: spec commit_rows_def insert_rows_def bindM_Inr)
  obtain ir where ir: "ir \<in> set irs" "mapR (\<lambda>c. bind_cell c (norm_record spec rw)) (ts_columns spec) = Inr (ir_cells ir)"
    using list_all2_target [OF insert_payload_cells [OF irs] rec] by blast
  obtain rs where rs: "rows_of d1 table = rows_of (w_db w) table @ rs"
    "list_all2 (\<lambda>ir r. stored_row (e_duck ev) spec ir = Inr r \<and> pk_of spec r \<noteq> PNone) irs rs"
    using ins.forM_rows [OF f] spec(2) by auto
  obtain r where r: "r \<in> set rs" "stored_row (e_duck ev) spec ir = Inr r"
    using list_all2_target [OF rs(2) ir(1)] by blast
  have "rows_of d2 table = rows_of d1 table" using index_search_rows_frame [OF some(7)] by blast
  then show ?thesis using stored_row_stores [OF ir(2) r(2)] r(1) rs(1) some(8) by (auto simp: stores_norm)
qed

lemma delete_in_mirror:
  assumes "execute_one ev ds ts (OpDelete table wh ps) w = (Inr ex, w1)" and "clean_mirror (w_files w)"
    and "match_live (e_cfg ev) (e_duck ev) (w_db w) table wh ps = Inr keys" and "list_all wf_json keys" and "k \<in> set keys"
  shows "(ds, tombstone ts k) \<in> set (iter_events (w_files w1) table)"
proof -
  obtain m where "write_deletes table keys ds ts (w_files w) = (Inr (), m)" "w_files w1 = m"
    using assms(1,3) by (auto simp: sm_iff)
  then show ?thesis using write_deletes_events [OF assms(4,2) _ assms(5)] by simp
qed

text \<open>The state that a request finds, and its write there.\<close>

lemma client_local:
  assumes "env_live env" and "live_inv env s" and "transport_ok tp key" and "ex \<in> clients env tp key"
    and "rq_op rq \<in> {''insert'', ''delete''}" and "wire_request rq" and "seekbase_call ex rq s = (Inr a, s')"
  shows "seekbase_call (local_execute (live_services env)) rq s = (Inr a, s')"
  using client_call [OF assms(1-4,6), THEN iffD1, OF _ assms(7)] assms(5) by auto

lemma client_insert:
  assumes "seekbase_call (local_execute (live_services env)) (sb_insert table (Inr rws)) s = (Inr (TaskId v), s')"
  shows "\<exists>t. live_write env (OpInsert table rws False) s = (Inr t, s')"
proof -
  have "mapR row_arg (map PDict xs) = Inr xs" for xs by (induction xs) (simp_all add: row_arg_def)
  then show ?thesis using assms
    by (auto simp: seekbase_call_def local_execute_def live_services_def task_result_of_def bindM_Inr sb_insert_def mk_request_def
        live_insert_def list_arg_def table_arg_def text_arg_def opt_str_def split: sum.splits)
qed

lemma client_delete:
  assumes "seekbase_call (local_execute (live_services env)) (sb_delete table wh ps) s = (Inr (TaskId v), s')"
  shows "\<exists>t. live_write env (OpDelete table wh (case ps of None \<Rightarrow> [] | Some xs \<Rightarrow> xs)) s = (Inr t, s')"
  using assms
  by (auto simp: seekbase_call_def local_execute_def live_services_def task_result_of_def bindM_Inr sb_delete_def mk_request_def
      live_delete_def list_arg_def table_arg_def text_arg_def opt_str_def delete_op_def split: sum.splits if_splits)

section \<open>Durability\<close>

text \<open>C2: An insert that a client got acknowledged is durable. For each of its rows the table has a row at once, with the
  cells that the columns store of the values given; whatever happens next (crashes, in the middle of another write too,
  and new starts, rebuilds that are cancelled or fail, other writes), the event of the row is in the file mirror of every later state; and a rebuild from
  such a mirror that ends well, over whatever database is left, has that row again.\<close>

theorem acknowledged_insert_is_durable:
  assumes "env_live env" and "transport_ok tp key" and "ex \<in> clients env tp key" and "list_all retained as"
    and "wire_request (sb_insert table (Inr rws))" and "clean_mirror (w_files w)"
    and "wf_schema (cfg_schema (e_cfg (le_w env)))" and "schema_table (cfg_schema (e_cfg (le_w env))) table = Inr spec"
    and "''_deleted'' \<notin> set (column_names spec)"
    and "seekbase_call ex (sb_insert table (Inr rws)) (live_run env as (fresh_live w c us)) = (Inr (TaskId v), s)" and "rw \<in> set rws"
  shows "(\<exists>r \<in> set (rows_of (w_db (lv_w s)) table). stores (e_duck (le_w env)) spec rw r) \<and>
     (\<exists>ds ts. (ds, PDict (put_dict ds ts (norm_record spec rw))) \<in> set (iter_events (w_files (lv_w (live_run env bs s))) table)) \<and>
     (\<forall>clk d st d'. replay (le_w env) (w_files (lv_w (live_run env bs s))) clk d = (Inr st, d') \<longrightarrow>
        (\<exists>r \<in> set (rows_of d' table). stores (e_duck (le_w env)) spec rw r))"
proof -
  let ?s0 = "live_run env as (fresh_live w c us)" and ?s2 = "live_run env bs s"
  have inv: "live_inv env ?s0" using live_run_safe [OF assms(1) fresh_inv assms(4)] by blast
  have clean: "clean_mirror (files ?s0)"
    by (rule grown_clean [OF live_run_grown]) (simp add: fresh_live_def assms(6))
  have tab: "spec \<in> set (sc_tables (cfg_schema (e_cfg (le_w env))))" "ts_name spec = table" "wf_table spec"
    using schema_table_Inr [OF assms(8)] wf_schema_table [OF assms(7,8)] by auto
  have "rq_op (sb_insert table (Inr rws)) \<in> {''insert'', ''delete''}" by (simp add: sb_insert_def mk_request_def)
  from client_local [OF assms(1) inv assms(2,3) this assms(5,10)] client_insert
  obtain t where "live_write env (OpInsert table rws False) ?s0 = (Inr t, s)" by blast
  from live_write_executed [OF this] obtain ds ts x w1 where
    e: "execute_one (le_w env) ds ts (OpInsert table rws False) (lv_w ?s0) = (Inr x, w1)"
    and s: "files s = w_files w1" "\<forall>u. rows_of (w_db (lv_w s)) u = rows_of (w_db w1) u" by auto
  have clean_s: "clean_mirror (files s)" using grown_clean [OF execute_one_grown [OF e] clean] s(1) by simp
  have here: "\<exists>r \<in> set (rows_of (w_db (lv_w s)) table). stores (e_duck (le_w env)) spec rw r"
    using insert_in_table [OF e assms(8,11)] s(2) by simp
  have js: "list_all (list_all (\<lambda>(k, v). wf_json v)) rws"
    using assms(5) by (auto simp: wire_request_def sb_insert_def mk_request_def list_all_iff)
  let ?ev = "(ds, PDict (put_dict ds ts (norm_record spec rw)))"
  have "?ev \<in> set (iter_events (files s) table)"
    using insert_in_mirror [OF e clean assms(8) tab(3) js assms(11)] by (simp add: s)
  then have in2: "?ev \<in> set (iter_events (files ?s2) table)"
    by (rule events_stay [OF live_run_grown clean_s])
  note put = put_dict_get [OF tab(3) refl, of ds ts rw]
  have "\<exists>r \<in> set (rows_of d' table). stores (e_duck (le_w env)) spec rw r"
    if r: "replay (le_w env) (files ?s2) clk d = (Inr st, d')" for clk d st d'
    using replay_puts_back [OF r tab(1) assms(7) _ put(4) [OF assms(9)]] in2 tab(2) put(3) by (simp add: stores_norm)
  then show ?thesis using here in2 by blast
qed

text \<open>The rows of the sample, inserted by a client; the process dies and starts again; the files are replayed.\<close>

definition sample_history :: "live_act list" where
  "sample_history = [Call (sb_insert ''docs'' (Inr sample_rows))]"

definition sample_crash :: "live_act list" where
  "sample_crash = [Quit, Crash [OpUnknown ''nothing''] 0 1, Reopen 100 (\<lambda>_. 100) (\<lambda>_. 100), Tick 5]"

definition sample_replayed :: "unit live \<Rightarrow> (pyrow res \<times> db)" where
  "sample_replayed s = replay sample_env (w_files (lv_w (live_run sample_live sample_crash s))) (\<lambda>i. ''t9'') \<lparr>db_rows = [], db_fts = [], db_lance = []\<rparr>"

lemma sample_schema_facts:
  "wf_schema (cfg_schema (e_cfg (le_w sample_live)))" "schema_table (cfg_schema (e_cfg (le_w sample_live))) ''docs'' = Inr sample_table"
  "''_deleted'' \<notin> set (column_names sample_table)" "conv_ok (e_duck (le_w sample_live))" "clean_mirror (w_files fresh_state)"
  "list_all retained sample_history"
  using sample_wf sample_conv_ok
  by (simp_all add: sample_live_def sample_env_def sample_cfg_def sample_schema_def schema_table_def sample_table_def column_names_def
      fresh_state_def sample_history_def retained_def)

text \<open>Nothing in the sample's end changes a file, and what was served is replayed.\<close>

lemma close_jobs_files: "(\<And>i t. files (snd (live_cancel env i t)) = files t) \<Longrightarrow> files (close_jobs env is s) = files s"
  by (induction "is" arbitrary: s) simp_all

lemma cancel_files: "files (snd (live_cancel env i s)) = files s"
  by (simp add: live_cancel_def bindM_def read_now_def live_status_def split: sum.splits option.splits prod.splits)

lemma crash_nothing: "files (snd (live_crash env [OpUnknown x] 0 (Suc 0) s)) = files s"
  by (auto simp: live_crash_def bindM_def read_today_def read_now_def draw_id_def crash_batch_def returnM_def split: sum.splits prod.splits)

lemma sample_crash_files: "files (live_run sample_live sample_crash s) = files s"
  by (simp add: sample_crash_def crash_nothing close_jobs_files cancel_files)

lemma served_replayed:
  assumes "served sample_env ds (lv_w s)"
  shows "\<exists>st d. sample_replayed s = (Inr st, d) \<and> rows_of d ''docs'' = rows_of (w_db (lv_w s)) ''docs''"
proof -
  obtain ddl where ddl: "create_tables (e_cfg sample_env) = Inr ddl" using sample_tables by blast
  have "sample_table \<in> set (sc_tables (cfg_schema (e_cfg sample_env)))" "ts_name sample_table = ''docs''"
    by (simp_all add: sample_env_def sample_cfg_def sample_schema_def sample_table_def)
  with replay_restores [OF sample_env_ok ddl, of "lv_w s" "\<lambda>i. ''t9''"] served_synced [OF assms sample_env_ok ddl]
  show ?thesis unfolding sample_replayed_def sample_crash_files restored_def by metis
qed

lemma sample_client_served:
  assumes "live_write sample_live w s = (Inr t, s')" and "served sample_env ''19700101'' (lv_w s)" and "op_json w" and "lv_clock s = 0"
  shows "served sample_env ''19700101'' (lv_w s')"
  using live_write_served [OF assms(1) _ assms(3)] assms(2,4) epoch by (simp add: sample_live_def)

lemma sample_fresh: "lv_clock fresh_sample = 0" "served sample_env ''19700101'' (lv_w fresh_sample)"
  using served.fresh by (simp_all add: fresh_sample_def fresh_live_def)

theorem acknowledged_insert_is_durable_witness:
  "\<exists>s st d. seekbase_call local_client (sb_insert ''docs'' (Inr sample_rows)) (live_run sample_live [] fresh_sample) =
      (Inr (TaskId (PStr ''tk_19700101_a'')), s) \<and> sample_replayed s = (Inr st, d) \<and>
     (\<exists>r \<in> set (rows_of d ''docs''). stores (e_duck sample_env) sample_table [(''body'', PStr ''second note''), (''id'', PStr ''b'')] r)"
proof -
  obtain s where s: "seekbase_call local_client (sb_insert ''docs'' (Inr sample_rows)) (live_run sample_live [] fresh_sample) =
      (Inr (TaskId (PStr ''tk_19700101_a'')), s)"
    using live_insert_runs by (auto split: prod.splits sum.splits answer.splits)
  have wire: "wire_request (sb_insert ''docs'' (Inr sample_rows))" by code_simp
  have row: "[(''body'', PStr ''second note''), (''id'', PStr ''b'')] \<in> set sample_rows" by (simp add: sample_rows_def)
  have ev: "le_w sample_live = sample_env" by (simp add: sample_live_def)
  obtain t where "live_write sample_live (OpInsert ''docs'' sample_rows False) fresh_sample = (Inr t, s)"
    using client_insert [OF s] by auto
  moreover have "op_json (OpInsert ''docs'' sample_rows False)" by code_simp
  ultimately obtain st d where d: "sample_replayed s = (Inr st, d)"
    using served_replayed sample_client_served sample_fresh by blast
  note main = acknowledged_insert_is_durable [OF sample_live_ok sample_tp_ok sample_clients(1) sample_retained(1) wire
      sample_schema_facts(5,1,2,3) s [unfolded fresh_sample_def] row, where bs = sample_crash, unfolded ev]
  then show ?thesis using s d unfolding sample_replayed_def by blast
qed

text \<open>C3: A delete that a client got acknowledged is durable: for every key it matched, a rebuild from the mirror of any
  later state that ends well has no live row with that key's text, although its row is loaded again first.\<close>

theorem acknowledged_delete_is_durable:
  assumes "env_live env" and "transport_ok tp key" and "ex \<in> clients env tp key" and "list_all retained as"
    and "wire_request (sb_delete table wh (Some ps))" and "clean_mirror (w_files w)"
    and "wf_schema (cfg_schema (e_cfg (le_w env)))" and "schema_table (cfg_schema (e_cfg (le_w env))) table = Inr spec"
    and "conv_ok (e_duck (le_w env))"
    and "match_live (e_cfg (le_w env)) (e_duck (le_w env)) (w_db (lv_w (live_run env as (fresh_live w c us)))) table wh ps = Inr keys"
    and "list_all wf_json keys"
    and "seekbase_call ex (sb_delete table wh (Some ps)) (live_run env as (fresh_live w c us)) = (Inr (TaskId v), s)"
    and "replay (le_w env) (w_files (lv_w (live_run env bs s))) clk d = (Inr st, d')"
    and "k \<in> set keys" and "r \<in> set (visible_rows None None (rows_of d' table))"
  shows "pk_text spec r \<noteq> py_str k"
proof -
  let ?s0 = "live_run env as (fresh_live w c us)" and ?s2 = "live_run env bs s"
  have inv: "live_inv env ?s0" using live_run_safe [OF assms(1) fresh_inv assms(4)] by blast
  have clean: "clean_mirror (files ?s0)"
    by (rule grown_clean [OF live_run_grown]) (simp add: fresh_live_def assms(6))
  have tab: "spec \<in> set (sc_tables (cfg_schema (e_cfg (le_w env))))" "ts_name spec = table"
    using schema_table_Inr [OF assms(8)] by auto
  have "rq_op (sb_delete table wh (Some ps)) \<in> {''insert'', ''delete''}" by (simp add: sb_delete_def mk_request_def)
  from client_delete [OF client_local [OF assms(1) inv assms(2,3) this assms(5,12)]]
  obtain t where "live_write env (OpDelete table wh ps) ?s0 = (Inr t, s)" by auto
  from live_write_executed [OF this] obtain ds ts x w1 where
    e: "execute_one (le_w env) ds ts (OpDelete table wh ps) (lv_w ?s0) = (Inr x, w1)" and s: "files s = w_files w1" by auto
  have clean_s: "clean_mirror (files s)" using grown_clean [OF execute_one_grown [OF e] clean] s by simp
  have "(ds, tombstone ts k) \<in> set (iter_events (files s) table)"
    using delete_in_mirror [OF e clean assms(10,11,14)] by (simp add: s)
  then have "(ds, tombstone ts k) \<in> set (iter_events (files ?s2) table)"
    by (rule events_stay [OF live_run_grown clean_s])
  then have "gone spec (py_str k) d'"
    using replay_marks [OF assms(13) tab(1) assms(7,9)] tab(2) by simp
  then show ?thesis using assms(15) tab(2) by (auto simp: gone_def visible_rows_def visible_now)
qed

lemma sample_delete_runs:
  "case seekbase_call local_client (sb_delete ''docs'' ''id = ?'' (Some [PStr ''a''])) (live_run sample_live sample_history fresh_sample) of
     (Inr (TaskId v), s) \<Rightarrow> map (pk_text sample_table) (rows_of (w_db (lv_w s)) ''docs'') = [''a'', ''b''] | _ \<Rightarrow> False"
  by code_simp

lemma sample_delete_matches:
  "match_live (e_cfg sample_env) (e_duck sample_env) (w_db (lv_w (live_run sample_live sample_history fresh_sample))) ''docs'' ''id = ?'' [PStr ''a''] =
     Inr [PStr ''a'']"
  by code_simp

lemma sample_history_served: "lv_clock (live_run sample_live sample_history fresh_sample) = 0"
  "served sample_env ''19700101'' (lv_w (live_run sample_live sample_history fresh_sample))"
proof -
  obtain s v where s: "seekbase_call local_client (sb_insert ''docs'' (Inr sample_rows)) fresh_sample = (Inr (TaskId v), s)"
    using live_insert_runs by (auto split: prod.splits sum.splits answer.splits)
  then have "snd (local_client (sb_insert ''docs'' (Inr sample_rows)) fresh_sample) = s" by (auto simp: seekbase_call_def bindM_Inr)
  then have run: "live_run sample_live sample_history fresh_sample = s" by (simp add: sample_history_def)
  obtain t where t: "live_write sample_live (OpInsert ''docs'' sample_rows False) fresh_sample = (Inr t, s)"
    using client_insert [OF s] by blast
  from live_write_clock [OF t] show "lv_clock (live_run sample_live sample_history fresh_sample) = 0" using sample_fresh(1) run by simp
  have "op_json (OpInsert ''docs'' sample_rows False)" by code_simp
  from sample_client_served [OF t sample_fresh(2) this sample_fresh(1)] run
  show "served sample_env ''19700101'' (lv_w (live_run sample_live sample_history fresh_sample))" by simp
qed

theorem acknowledged_delete_is_durable_witness:
  "\<exists>v s st d. seekbase_call local_client (sb_delete ''docs'' ''id = ?'' (Some [PStr ''a''])) (live_run sample_live sample_history fresh_sample) =
      (Inr (TaskId v), s) \<and> sample_replayed s = (Inr st, d) \<and> map (pk_text sample_table) (rows_of d ''docs'') = [''a'', ''b''] \<and>
     (\<forall>r \<in> set (visible_rows None None (rows_of d ''docs'')). pk_text sample_table r \<noteq> ''a'')"
proof -
  obtain v s where s: "seekbase_call local_client (sb_delete ''docs'' ''id = ?'' (Some [PStr ''a''])) (live_run sample_live sample_history fresh_sample) =
      (Inr (TaskId v), s)" "map (pk_text sample_table) (rows_of (w_db (lv_w s)) ''docs'') = [''a'', ''b'']"
    using sample_delete_runs by (auto split: prod.splits sum.splits answer.splits)
  have wire: "wire_request (sb_delete ''docs'' ''id = ?'' (Some [PStr ''a'']))" by code_simp
  have ev: "le_w sample_live = sample_env" by (simp add: sample_live_def)
  have keys: "list_all wf_json [PStr ''a'']" "PStr ''a'' \<in> set [PStr ''a'']" by simp_all
  obtain t where "live_write sample_live (OpDelete ''docs'' ''id = ?'' [PStr ''a'']) (live_run sample_live sample_history fresh_sample) = (Inr t, s)"
    using client_delete [OF s(1)] by auto
  moreover have "op_json (OpDelete ''docs'' ''id = ?'' [PStr ''a''])" by code_simp
  ultimately obtain st d where d: "sample_replayed s = (Inr st, d)" "rows_of d ''docs'' = rows_of (w_db (lv_w s)) ''docs''"
    using served_replayed sample_client_served sample_history_served by blast
  have rep: "replay (le_w sample_live) (files (live_run sample_live sample_crash s)) (\<lambda>i. ''t9'') \<lparr>db_rows = [], db_fts = [], db_lance = []\<rparr> = (Inr st, d)"
    using d(1) by (simp add: sample_replayed_def ev)
  note main = acknowledged_delete_is_durable [OF sample_live_ok sample_tp_ok sample_clients(1) sample_schema_facts(6) wire
      sample_schema_facts(5,1,2,4) sample_delete_matches [folded ev, unfolded fresh_sample_def] keys(1) s(1) [unfolded fresh_sample_def] rep keys(2)]
  have "py_str (PStr ''a'') = ''a''" by simp
  then show ?thesis using main s d by metis
qed

end
