(* ===== verification/Worker_Life.thy ===== *)
theory Worker_Life
  imports Storage_Facts Sample_Store
begin

text \<open>
  The life of the write service of \<open>service/write_service.py\<close>: its queue, its stop flag and its worker
  coroutine, from one suspension to the next. Between two turns of the worker anything may be
  submitted, and the service may be started and closed. A batch is one turn; what an operation is
  answered is paired with it.
\<close>

section \<open>The worker\<close>

text \<open>\<open>Created\<close>: the task exists and has not run; \<open>AtGet\<close>: it waits for the queue; \<open>Busy\<close>: a batch is in hand.\<close>

datatype worker = Unstarted | Created | AtGet | Busy "job list" | Over

record wlife =
  wl_q :: "job option list"
  wl_stop :: bool
  wl_worker :: worker
  wl_b :: bstate
  wl_out :: "(job \<times> task res) list"

definition wl_new :: "bstate \<Rightarrow> wlife" where
  "wl_new b = \<lparr>wl_q = [], wl_stop = False, wl_worker = Unstarted, wl_b = b, wl_out = []\<rparr>"

text \<open>Everything that is queued, up to the sentinel.\<close>

fun drain :: "job option list \<Rightarrow> job list \<times> bool \<times> job option list" where
  "drain [] = ([], False, [])"
| "drain (None # q) = ([], True, q)"
| "drain (Some j # q) = (let (js, stop, rest) = drain q in (j # js, stop, rest))"

definition take_batch :: "wlife \<Rightarrow> wlife" where
  "take_batch s = (case wl_q s of
       [] \<Rightarrow> s\<lparr>wl_worker := AtGet\<rparr>
     | None # q \<Rightarrow> s\<lparr>wl_q := q, wl_worker := Over\<rparr>
     | Some j # q \<Rightarrow> (case drain q of (js, stop, rest) \<Rightarrow>
         s\<lparr>wl_q := rest, wl_stop := wl_stop s \<or> stop, wl_worker := Busy (j # js)\<rparr>))"

definition loop_head :: "wlife \<Rightarrow> wlife" where
  "loop_head s = (if wl_stop s then s\<lparr>wl_worker := Over\<rparr> else take_batch s)"

definition worker_turn :: "wenv \<Rightarrow> string \<Rightarrow> wlife \<Rightarrow> wlife" where
  "worker_turn ev ts s = (case wl_worker s of
       Created \<Rightarrow> loop_head s
     | AtGet \<Rightarrow> take_batch s
     | Busy js \<Rightarrow> (case process_batch ev ts js (wl_b s) of (out, b) \<Rightarrow>
         loop_head (s\<lparr>wl_b := b, wl_out := wl_out s @ zip js out\<rparr>))
     | _ \<Rightarrow> s)"

section \<open>Start, submit, close\<close>

definition write_start :: "wlife \<Rightarrow> wlife" where
  "write_start s = (if wl_worker s = Unstarted then s\<lparr>wl_worker := Created\<rparr> else s)"

definition write_submit :: "job \<Rightarrow> wlife \<Rightarrow> wlife" where
  "write_submit j s = s\<lparr>wl_q := wl_q s @ [Some j]\<rparr>"

definition write_close :: "wlife \<Rightarrow> wlife" where
  "write_close s = s\<lparr>wl_stop := True, wl_q := (if wl_worker s = Unstarted then wl_q s else wl_q s @ [None])\<rparr>"

text \<open>\<open>close\<close> waits for the end of a worker that was started.\<close>

definition close_returned :: "wlife \<Rightarrow> bool" where
  "close_returned s \<longleftrightarrow> wl_worker s = Unstarted \<or> wl_worker s = Over"

datatype wact = Submit job | Turn string | Start | Close

fun wl_next :: "wenv \<Rightarrow> wact \<Rightarrow> wlife \<Rightarrow> wlife" where
  "wl_next ev (Submit j) s = write_submit j s"
| "wl_next ev (Turn ts) s = worker_turn ev ts s"
| "wl_next ev Start s = write_start s"
| "wl_next ev Close s = write_close s"

definition wl_run :: "wenv \<Rightarrow> wact list \<Rightarrow> wlife \<Rightarrow> wlife" where
  "wl_run ev acts s = foldl (\<lambda>s a. wl_next ev a s) s acts"

fun submitted :: "wact list \<Rightarrow> job list" where
  "submitted [] = []"
| "submitted (Submit j # as) = j # submitted as"
| "submitted (_ # as) = submitted as"

section \<open>Answered, in hand, waiting\<close>

lemma wl_run_simps [simp]: "wl_run ev [] s = s" "wl_run ev (a # as) s = wl_run ev as (wl_next ev a s)"
  "wl_run ev (as @ bs) s = wl_run ev bs (wl_run ev as s)"
  by (simp_all add: wl_run_def)

definition in_hand :: "wlife \<Rightarrow> job list" where
  "in_hand s = (case wl_worker s of Busy js \<Rightarrow> js | _ \<Rightarrow> [])"

fun jobs_of :: "job option list \<Rightarrow> job list" where
  "jobs_of [] = []"
| "jobs_of (None # q) = jobs_of q"
| "jobs_of (Some j # q) = j # jobs_of q"

definition accounted :: "wlife \<Rightarrow> job list" where
  "accounted s = map fst (wl_out s) @ in_hand s @ jobs_of (wl_q s)"

lemma jobs_of_append [simp]: "jobs_of (q @ r) = jobs_of q @ jobs_of r"
  by (induction q rule: jobs_of.induct) simp_all

lemma drain_jobs: "drain q = (js, stop, rest) \<Longrightarrow> js @ jobs_of rest = jobs_of q"
  by (induction q arbitrary: js stop rest rule: drain.induct) (auto split: prod.splits)

lemma drain_all: "None \<notin> set q \<Longrightarrow> drain q = (jobs_of q, False, [])"
  by (induction q rule: drain.induct) auto

lemma take_batch_accounted: "accounted (take_batch s) = map fst (wl_out s) @ jobs_of (wl_q s)"
  by (auto simp: take_batch_def accounted_def in_hand_def drain_jobs split: list.splits option.splits prod.splits)

lemma loop_head_accounted: "accounted (loop_head s) = map fst (wl_out s) @ jobs_of (wl_q s)"
  by (simp add: loop_head_def take_batch_accounted) (simp add: accounted_def in_hand_def)

lemma turn_accounted: "accounted (worker_turn ev ts s) = accounted s"
proof (cases "wl_worker s")
  case (Busy js)
  obtain out b where p: "process_batch ev ts js (wl_b s) = (out, b)" by fastforce
  have "map fst (zip js out) = js" using process_batch_length [OF p] by simp
  then show ?thesis by (simp add: worker_turn_def Busy p loop_head_accounted) (simp add: accounted_def in_hand_def Busy)
qed (simp_all add: worker_turn_def loop_head_accounted take_batch_accounted, simp_all add: accounted_def in_hand_def)

lemma next_accounted: "accounted (wl_next ev a s) = accounted s @ submitted [a]"
proof (cases a)
  case (Turn ts)
  then show ?thesis by (simp add: turn_accounted)
qed (auto simp: write_submit_def write_start_def write_close_def accounted_def in_hand_def)

lemma submitted_append [simp]: "submitted (as @ bs) = submitted as @ submitted bs"
  by (induction as rule: submitted.induct) simp_all

lemma submitted_Cons: "submitted (a # as) = submitted [a] @ submitted as"
  using submitted_append [of "[a]" as] by simp

text \<open>Every operation submitted is answered, in hand or waiting, in the order of submission, once.\<close>

lemma run_accounted: "accounted (wl_run ev as s) = accounted s @ submitted as"
proof (induction as arbitrary: s)
  case (Cons a as)
  then show ?case by (simp add: next_accounted submitted_Cons [of a as])
qed simp

section \<open>An open service\<close>

definition wl_open :: "wlife \<Rightarrow> bool" where
  "wl_open s \<longleftrightarrow> \<not> wl_stop s \<and> None \<notin> set (wl_q s) \<and> wl_worker s \<noteq> Over"

lemma take_batch_open: "\<not> wl_stop s \<Longrightarrow> None \<notin> set (wl_q s) \<Longrightarrow> take_batch s =
    s\<lparr>wl_q := [], wl_worker := (if wl_q s = [] then AtGet else Busy (jobs_of (wl_q s)))\<rparr>"
  by (auto simp: take_batch_def drain_all split: list.splits option.splits)

lemma next_open: "wl_open s \<Longrightarrow> a \<noteq> Close \<Longrightarrow> wl_open (wl_next ev a s)"
  by (cases a; cases "wl_worker s")
    (auto simp: wl_open_def write_submit_def write_start_def worker_turn_def loop_head_def take_batch_open split: prod.splits)

lemma run_open: "wl_open s \<Longrightarrow> Close \<notin> set as \<Longrightarrow> wl_open (wl_run ev as s)"
  by (induction as arbitrary: s) (auto simp: next_open)

lemma next_started: "wl_worker s \<noteq> Unstarted \<Longrightarrow> wl_worker (wl_next ev a s) \<noteq> Unstarted"
  by (cases a; cases "wl_worker s") (auto simp: write_submit_def write_start_def write_close_def worker_turn_def loop_head_def take_batch_def
    split: prod.splits list.splits option.splits)

lemma run_started: "Start \<in> set as \<or> wl_worker s \<noteq> Unstarted \<Longrightarrow> wl_worker (wl_run ev as s) \<noteq> Unstarted"
proof (induction as arbitrary: s)
  case (Cons a as)
  have "Start \<in> set as \<or> wl_worker (wl_next ev a s) \<noteq> Unstarted"
    using Cons.prems next_started [of s ev a] by (auto simp: write_start_def split: if_splits)
  from Cons.IH [OF this] show ?case by simp
qed simp

text \<open>In three turns an open worker has nothing left: it may have to begin, then to take what is queued, then to run it.\<close>

lemma turn_busy:
  assumes "wl_open s" and "wl_worker s = Busy js" and "wl_q s = []"
  shows "wl_worker (worker_turn ev ts s) = AtGet \<and> wl_q (worker_turn ev ts s) = []"
  using assms by (auto simp: worker_turn_def wl_open_def loop_head_def take_batch_open split: prod.splits)

lemma turn_idle: "wl_worker s = AtGet \<Longrightarrow> wl_q s = [] \<Longrightarrow> worker_turn ev ts s = s"
  by (simp add: worker_turn_def take_batch_def)

lemma turn_takes:
  assumes "wl_open s" and "wl_worker s \<noteq> Unstarted"
  shows "wl_q (worker_turn ev ts s) = [] \<and> wl_open (worker_turn ev ts s) \<and>
     (wl_worker (worker_turn ev ts s) = AtGet \<or> (\<exists>js. wl_worker (worker_turn ev ts s) = Busy js))"
  using assms next_open [OF assms(1), of "Turn ts" ev]
  by (cases "wl_worker s") (auto simp: worker_turn_def wl_open_def loop_head_def take_batch_open split: prod.splits)

lemma two_turns:
  assumes "wl_open s" and "wl_worker s \<noteq> Unstarted"
  shows "wl_worker (wl_run ev [Turn t1, Turn t2] s) = AtGet \<and> wl_q (wl_run ev [Turn t1, Turn t2] s) = []"
  using turn_takes [OF assms, of ev t1] turn_busy [of "worker_turn ev t1 s" _ ev t2] turn_idle [of "worker_turn ev t1 s" ev t2] by auto

text \<open>C19: The write worker of an open service gets through its queue: whatever was submitted, whenever, before or after
  the start, two turns of the worker later every operation has its answer, one each, in the order in
  which they were submitted, and the worker waits for the next.\<close>

theorem worker_answers_all:
  assumes "Start \<in> set as" and "Close \<notin> set as"
  shows "map fst (wl_out (wl_run ev (as @ [Turn t1, Turn t2]) (wl_new b))) = submitted as \<and>
     wl_worker (wl_run ev (as @ [Turn t1, Turn t2]) (wl_new b)) = AtGet"
proof -
  let ?s = "wl_run ev as (wl_new b)" and ?s2 = "wl_run ev (as @ [Turn t1, Turn t2]) (wl_new b)"
  have "wl_open (wl_new b)" by (simp add: wl_open_def wl_new_def)
  from run_open [OF this assms(2)] run_started [of as "wl_new b" ev] assms(1)
  have "wl_open ?s" "wl_worker ?s \<noteq> Unstarted" by auto
  from two_turns [OF this, of ev t1 t2] have idle: "wl_worker ?s2 = AtGet" "wl_q ?s2 = []" by simp_all
  have "accounted ?s2 = submitted as"
    unfolding run_accounted by (simp add: accounted_def wl_new_def in_hand_def)
  then show ?thesis using idle by (simp add: accounted_def in_hand_def)
qed

text \<open>The insert is submitted before the start, the delete while the worker has the insert in hand.\<close>

definition sample_turns :: "wact list" where
  "sample_turns = [Submit (sample_jobs ! 0), Start, Turn ''t1'', Submit (sample_jobs ! 1)]"

theorem worker_answers_all_witness:
  "map fst (wl_out (wl_run sample_env (sample_turns @ [Turn ''t2'', Turn ''t3'']) (wl_new \<lparr>b_w = fresh_state, b_log = []\<rparr>))) = sample_jobs"
proof -
  have "Start \<in> set sample_turns" "Close \<notin> set sample_turns" by (simp_all add: sample_turns_def)
  note main = worker_answers_all [OF this, of sample_env "''t2''" "''t3''" "\<lparr>b_w = fresh_state, b_log = []\<rparr>"]
  have "submitted sample_turns = sample_jobs" by (simp add: sample_turns_def sample_jobs_def)
  then show ?thesis using main by simp
qed

section \<open>Closing\<close>

text \<open>Closed while it waits for the queue, the worker takes what was submitted before and ends with it.\<close>

lemma drain_sentinel: "None \<notin> set q \<Longrightarrow> drain (q @ [None]) = (jobs_of q, True, [])"
  by (induction q rule: drain.induct) auto

lemma idle_close_drains:
  assumes "wl_open s" and "wl_worker s = AtGet"
  shows "map fst (wl_out (wl_run ev [Close, Turn t1, Turn t2] s)) = accounted s \<and> close_returned (wl_run ev [Close, Turn t1, Turn t2] s)"
proof (cases "wl_q s")
  case Nil
  then show ?thesis using assms
    by (simp add: write_close_def worker_turn_def take_batch_def accounted_def in_hand_def close_returned_def)
next
  case (Cons x q)
  then obtain j where x: "x = Some j" "None \<notin> set q" using assms(1) by (cases x) (auto simp: wl_open_def)
  obtain out b where p: "process_batch ev t2 (j # jobs_of q) (wl_b s) = (out, b)" by fastforce
  have "map fst (zip (j # jobs_of q) out) = j # jobs_of q" using process_batch_length [OF p] by simp
  then show ?thesis using assms(2) p
    by (simp add: write_close_def worker_turn_def take_batch_def Cons x drain_sentinel loop_head_def accounted_def in_hand_def close_returned_def)
qed

text \<open>A closed worker with a batch in hand answers that batch and ends, whatever else is queued.\<close>

definition closing :: "job list \<Rightarrow> job list \<Rightarrow> wlife \<Rightarrow> bool" where
  "closing done js s \<longleftrightarrow> wl_stop s \<and> (wl_worker s = Busy js \<and> map fst (wl_out s) = done \<or>
     wl_worker s = Over \<and> map fst (wl_out s) = done @ js)"

lemma next_closing: "closing done js s \<Longrightarrow> closing done js (wl_next ev a s)"
proof (cases a)
  case (Turn ts)
  assume c: "closing done js s"
  show ?thesis
  proof (cases "wl_worker s = Busy js")
    case True
    obtain out b where p: "process_batch ev ts js (wl_b s) = (out, b)" by fastforce
    have "map fst (zip js out) = js" using process_batch_length [OF p] by simp
    then show ?thesis using c True p by (simp add: Turn closing_def worker_turn_def loop_head_def)
  qed (use c in \<open>simp add: Turn closing_def worker_turn_def\<close>)
qed (auto simp: closing_def write_submit_def write_start_def write_close_def)

lemma run_closing: "closing done js s \<Longrightarrow> closing done js (wl_run ev as s)"
  by (induction as arbitrary: s) (simp_all add: next_closing)

text \<open>C20: Operations that wait in the queue behind a batch in hand when the service is closed are never answered,
  whatever happens afterwards: the worker stops after that batch, \<open>close\<close> returns, and only the batch gets its answers.\<close>

theorem close_drops_waiting:
  assumes "wl_worker (wl_run ev as (wl_new b)) = Busy js"
  shows "map fst (wl_out (wl_run ev as (wl_new b))) @ js @ jobs_of (wl_q (wl_run ev as (wl_new b))) = submitted as \<and>
     close_returned (wl_run ev (as @ [Close, Turn ts]) (wl_new b)) \<and>
     map fst (wl_out (wl_run ev (as @ Close # bs) (wl_new b))) \<in>
       {map fst (wl_out (wl_run ev as (wl_new b))), map fst (wl_out (wl_run ev as (wl_new b))) @ js}"
proof -
  let ?s = "wl_run ev as (wl_new b)"
  let ?done = "map fst (wl_out ?s)"
  have "closing ?done js (write_close ?s)" using assms by (simp add: closing_def write_close_def)
  from run_closing [OF this, of ev bs] have "map fst (wl_out (wl_run ev bs (write_close ?s))) \<in> {?done, ?done @ js}"
    by (auto simp: closing_def)
  moreover have "?done @ js @ jobs_of (wl_q ?s) = submitted as"
    using run_accounted [of ev as "wl_new b"] assms by (simp add: accounted_def in_hand_def wl_new_def)
  moreover have "close_returned (worker_turn ev ts (write_close ?s))"
    using assms by (simp add: write_close_def worker_turn_def loop_head_def close_returned_def split: prod.splits)
  ultimately show ?thesis by simp
qed

theorem close_drops_waiting_witness:
  "sample_jobs ! 1 \<in> set (submitted sample_turns) \<and>
   close_returned (wl_run sample_env (sample_turns @ [Close, Turn ''t2'']) (wl_new \<lparr>b_w = fresh_state, b_log = []\<rparr>)) \<and>
   (\<forall>bs. sample_jobs ! 1 \<notin> set (map fst (wl_out (wl_run sample_env (sample_turns @ Close # bs) (wl_new \<lparr>b_w = fresh_state, b_log = []\<rparr>)))))"
proof -
  let ?s = "wl_run sample_env sample_turns (wl_new \<lparr>b_w = fresh_state, b_log = []\<rparr>)"
  have s: "wl_worker ?s = Busy [sample_jobs ! 0]" "wl_out ?s = []"
    by (simp_all add: sample_turns_def wl_new_def write_submit_def write_start_def worker_turn_def loop_head_def take_batch_def)
  have j: "sample_jobs ! 1 \<noteq> sample_jobs ! 0" "sample_jobs ! 1 \<in> set (submitted sample_turns)"
    by (simp_all add: sample_jobs_def sample_turns_def)
  have "sample_jobs ! 1 \<notin> set (map fst (wl_out (wl_run sample_env (sample_turns @ Close # bs) (wl_new \<lparr>b_w = fresh_state, b_log = []\<rparr>))))" for bs
    using close_drops_waiting [OF s(1), of "''t2''" bs] s(2) j(1) by auto
  then show ?thesis using close_drops_waiting [OF s(1), of "''t2''" "[]"] j(2) by simp
qed

end
