(* ===== verification/Client_Life.thy ===== *)
theory Client_Life
  imports Errors_Wire
begin

text \<open>
  The life of a \<open>Seekbase\<close> (\<open>client.py\<close>): \<open>LocalExecutor.start\<close> and \<open>close\<close> over the parts they start
  and close, \<open>Seekbase.close\<close> with its flag, \<open>async with\<close>, and \<open>stream\<close>, which only an embedded database has.
  The state is whatever the parts share.
\<close>

record 's parts =
  pt_worker :: "('s, exn, unit) sm"
  pt_gc :: "('s, exn, unit) sm"
  pt_streams :: "('s, exn, unit) sm"
  pt_tasks :: "('s, exn, unit) sm"
  pt_writes :: "('s, exn, unit) sm"
  pt_store :: "('s, exn, unit) sm"
  pt_bridge :: "('s, exn, unit) sm"

definition local_start :: "'s parts \<Rightarrow> ('s, exn, unit) sm" where
  "local_start p = bindM (pt_worker p) (\<lambda>_. pt_gc p)"

definition local_close :: "'s parts \<Rightarrow> ('s, exn, unit) sm" where
  "local_close p = bindM (pt_streams p) (\<lambda>_. bindM (pt_tasks p) (\<lambda>_. bindM (pt_writes p) (\<lambda>_.
     bindM (pt_store p) (\<lambda>_. pt_bridge p))))"

text \<open>What closes the executor, and whether the services are in this process.\<close>

record 's port =
  po_close :: "('s, exn, unit) sm"
  po_embedded :: bool

definition embedded_port :: "'s parts \<Rightarrow> 's port" where
  "embedded_port p = \<lparr>po_close = local_close p, po_embedded = True\<rparr>"

definition connect_port :: "('s, exn, unit) sm \<Rightarrow> 's port" where
  "connect_port http_close = \<lparr>po_close = http_close, po_embedded = False\<rparr>"

text \<open>The flag \<open>_closed\<close> beside the state.\<close>

definition sb_close :: "'s port \<Rightarrow> (bool \<times> 's, exn, unit) sm" where
  "sb_close po = (\<lambda>(closed, s).
     if closed then (Inr (), (True, s)) else (case po_close po s of (r, t) \<Rightarrow> (r, (True, t))))"

definition sb_stream :: "'s port \<Rightarrow> (string \<Rightarrow> string \<Rightarrow> ('s, exn, 'h) sm) \<Rightarrow> string \<Rightarrow> string \<Rightarrow> ('s, exn, 'h) sm" where
  "sb_stream po start pipeline name =
     (if \<not> po_embedded po then raiseM (Exn QueryError ''stream() is embedded-only'') else start pipeline name)"

text \<open>\<open>async with\<close>: the exception of the closing replaces the body's.\<close>

definition sb_with :: "'s port \<Rightarrow> (bool \<times> 's, exn, 'a) sm \<Rightarrow> (bool \<times> 's, exn, 'a) sm" where
  "sb_with po body x = (case body x of (r, y) \<Rightarrow>
     (case sb_close po y of (Inl e, z) \<Rightarrow> (Inl e, z) | (Inr u, z) \<Rightarrow> (r, z)))"

text \<open>However a close ends, the database counts as closed: closing it again does nothing.\<close>

lemma close_once: "sb_close po x = (r, y) \<Longrightarrow> fst y \<and> sb_close po y = (Inr (), y)"
  by (auto simp: sb_close_def split: prod.splits if_splits)

lemma with_closes: "fst (snd (sb_with po body x))"
proof -
  obtain r y where b: "body x = (r, y)" by (cases "body x")
  obtain q z where c: "sb_close po y = (q, z)" by (cases "sb_close po y")
  have "fst z" using close_once [OF c] by blast
  then show ?thesis by (cases q) (simp_all add: sb_with_def b c)
qed

text \<open>A stream whose closing raises keeps every other part open for good.\<close>

lemma close_aborts:
  assumes "pt_streams p s = (Inl e, t)"
  shows "sb_close (embedded_port p) (False, s) = (Inl e, (True, t))" "sb_close (embedded_port p) (True, t) = (Inr (), (True, t))"
  using assms by (simp_all add: sb_close_def embedded_port_def local_close_def bindM_def)

lemma local_close_order:
  assumes "local_close p s = (Inr (), s')"
  shows "\<exists>s1 s2 s3 s4. pt_streams p s = (Inr (), s1) \<and> pt_tasks p s1 = (Inr (), s2) \<and> pt_writes p s2 = (Inr (), s3) \<and>
     pt_store p s3 = (Inr (), s4) \<and> pt_bridge p s4 = (Inr (), s')"
  using assms by (auto simp: local_close_def bindM_Inr)

end
