(* ===== verification/Spec2Isabelle.thy ===== *)
theory Spec2Isabelle
  imports Errors_Wire Pipeline_Props Storage_Props Component_Props Task_Props Stream_Props Plan_Props Http_Props Open_Props Runtime_Props
    Rebuild_Steps Live_Props Live_Durable Worker_Life Client_Life
begin

text \<open>
  A model of seekbase, a document store over DuckDB with a time machine, hybrid search, a canonical
  file mirror, a pipeline language for reads, background tasks, streams and an HTTP surface. All
  sources are under \<open>src/seekbase\<close>.

  \<^bold>\<open>How the program works.\<close> A \<open>Seekbase\<close> (\<open>client.py\<close>) is opened over a directory. Writes go through one
  worker (\<open>write_service.py\<close>): a batch of operations is validated, written to the JSONL file mirror
  first (\<open>file_service.py\<close>), then to the DuckDB tables (\<open>store_service.py\<close>), its search indexes are
  refreshed and a born-done task is logged (\<open>task_service.py\<close>). Rows are never removed: a delete stamps
  them, and a read as of a day filters by the stamps. A read is a pipeline of SQL and operator segments
  (\<open>pipeline_service.py\<close>), checked against a policy (\<open>operator/\<close>), compiled into phases for DuckDB and
  for processes, and run. A rebuild (\<open>admin_service.py\<close>) replays the mirror. A stream
  (\<open>stream_service.py\<close>) follows files into the write path. \<open>server.py\<close> and \<open>api/\<close> serve all of it over
  HTTP, \<open>api/remote.py\<close> is the client's half.

  \<^bold>\<open>Conventions.\<close> A raised exception is the left value of a sum (\<open>'a res\<close>), an effect is a function
  from a state to a result and the state after it, so that what was written before an exception stays
  written (\<open>('s, exn, 'a) sm\<close>, both in \<open>Sb_Prelude\<close> and \<open>Errors_Wire\<close>). Python values are \<open>pyval\<close>, dictionaries
  insertion-ordered association lists, integers unbounded. A text has code points below 256; the white
  space, case and digit classes are Python's on these. Messages of exceptions name the raise
  site only. Clock readings and random parts of ids are arguments.

  \<^bold>\<open>The theories.\<close>
  \<^item> \<open>Py_Text\<close>, \<open>Py_Value\<close>, \<open>Json_Text\<close>, \<open>Json_Roundtrip\<close>, \<open>Json_Wf\<close>, \<open>Jsonl\<close>, \<open>Bytes_Text\<close>: the parts of the language and its
    library that the code uses: strip, split, int, str, json.dumps and json.loads, lines, UTF-8; with
    \<open>_rows_to_jsonl\<close> and \<open>_jsonl_to_rows\<close>. The JSON reader recurses with fuel, twice the length of the text,
    which is enough (\<open>json_fuel\<close>).
  \<^item> \<open>Errors_Wire\<close> (\<open>_types.py\<close>, \<open>_wire.py\<close>), \<open>Task_Record\<close> (\<open>struct/task.py\<close>), \<open>Schema_Parse\<close> (\<open>schema.py\<close>,
    \<open>struct/schema.py\<close>).
  \<^item> \<open>Pipeline_Split\<close>, \<open>Sql_Text\<close>, \<open>Operator_Base\<close>, \<open>Operators\<close>, \<open>Builtins\<close>, \<open>Pipeline_Compile\<close>: the read compiler, from
    the text of a query to its plan; \<open>Bash_Chain\<close> and \<open>Plan_Exec\<close> run the plan.
  \<^item> \<open>Embedding\<close> (\<open>embedding_service.py\<close>, \<open>embedders/api.py\<close>), \<open>Row_Store\<close> (the rows of
    \<open>store_service.py\<close>), \<open>File_Mirror\<close>, \<open>Write_Service\<close>, \<open>Admin_Rebuild\<close>: the write path and the rebuild.
    \<open>Rebuild_Sync\<close>, \<open>Rebuild_Replay\<close>, \<open>Served_States\<close>, \<open>Write_Facts\<close> and \<open>Storage_Facts\<close> hold the
    simulation between mirror and tables (\<open>synced\<close>), the states a database goes through (\<open>served\<close>)
    and what a write may touch (\<open>touched\<close>). \<open>Rebuild_Steps\<close> takes the rebuild apart at its \<open>await\<close>s,
    \<open>Worker_Life\<close> the write worker: queue, stop flag, start and close. \<open>Mirror_Growth\<close> shows that files only grow and
    what a replay of a later mirror puts back.
  \<^item> \<open>Task_Log\<close>, \<open>Task_Service\<close>, \<open>Task_Runs\<close>: the log and the runner, a coroutine moved from one \<open>await\<close> to the next by
    stimuli, a cancellation among them; \<open>drive_inv\<close> is its invariant.
  \<^item> \<open>Stream_Service\<close>, \<open>Stream_Facts\<close>, \<open>Stream_System\<close>: one stream, and all streams of a database with their checkpoint
    files; \<open>streaming\<close> is the step relation of growing files, turns, crashes, starts, stops and other writes.
  \<^item> \<open>Engine_Clock\<close> (\<open>runtime/clock.py\<close>), \<open>Async_Runtime\<close> (\<open>runtime/bridge.py\<close>, \<open>runtime/readpool.py\<close>): the calendar, the
    one-thread bridge, the pool of read cursors.
  \<^item> \<open>Http_Api\<close>, \<open>Client_Port\<close>, \<open>Http_Facts\<close>: routes, handlers, server, both executors and the methods of the port.
  \<^item> \<open>Open_Db\<close>, \<open>Client_Life\<close>: \<open>Seekbase.open\<close>, the set-up statements, the wiring, starting and closing.
  \<^item> \<open>Live_System\<close>: all parts over one state: database, mirror, task log, results, clock, the background tasks that are
    alive; the services as the executors and the HTTP handlers call them; \<open>live_next\<close> is whatever can happen between
    two requests, the end of the process in the middle of a batch included (\<open>Write_Crash\<close>). \<open>Live_Facts\<close>, \<open>Live_Safe\<close> hold its invariant \<open>live_inv\<close> and show that every service keeps it;
    \<open>Live_Clients\<close> shows that what the services return in a reachable state crosses the wire unchanged,
    \<open>Live_Durable\<close> that every step lets the mirror grow.
  \<^item> \<open>Sample_Data\<close>, \<open>Sample_Store\<close>: a small database at which the properties are instantiated.
  \<^item> \<open>Storage_Props\<close>, \<open>Pipeline_Props\<close>, \<open>Task_Props\<close>, \<open>Stream_Props\<close>, \<open>Plan_Props\<close>, \<open>Http_Props\<close>, \<open>Open_Props\<close>,
    \<open>Runtime_Props\<close>, \<open>Live_Props\<close>, \<open>Component_Props\<close>: the properties.

  \<^bold>\<open>What is shown.\<close> Storage: the tables are what a replay of the mirror produces, past views never change,
  keys stay unique, writes and deletes do exactly what they say, a batch refreshes its
  indexes and answers every job, an open write worker answers everything in order, a closing one forgets what waits
  behind its batch. Reads: only permitted operators reach a plan, its statements bind
  their parameters, no query writes. Tasks: states move
  forward, a task that is left alone settles, a finished query has its rows; and the one cancellation
  that is lost. Streams: no line before a committed offset is lost. The whole: the rows of an acknowledged insert and the
  keys of an acknowledged delete are in every later mirror and come out of its replay, an acknowledged write is
  reported done by either client ever after, the states that clients are told only move forward, a query that is
  reported done has its rows; a rebuild beside a write loses the row from the table. Runtime: the bridge is serial,
  cursors are lent once, clock texts are ordered as the times. Surface: routes are unambiguous and a remote
  client behaves as an embedded one. Texts: JSON, schemas and pipelines round-trip.

  \<^bold>\<open>Interfaces.\<close> \<open>append_log\<close> (a keyed log), \<open>write_once\<close> (a table with a write-once key), \<open>authorizer\<close> (a policy
  check) and \<open>duck_cell\<close> (an operator's SQL lowering) are locales; each is interpreted on the model's own
  operations, which the users of the interface then reason with.

  \<^bold>\<open>What is a parameter.\<close> DuckDB (conversion of cells, SELECT results, statement kinds, temporary objects), the
  embedder and the tokenizer, what a process does with its input, the HTTP library and the server's
  runner. The hypotheses about them are named definitions (\<open>conv_ok\<close>, \<open>select_ok\<close>, \<open>reads_only\<close>, \<open>pointwise\<close>,
  \<open>transport_ok\<close>), each shown to hold of a concrete instance.

  \<^bold>\<open>Bounds.\<close> In the live system a batch of writes, a query, one step of a background task and one job of a rebuild are
  single steps, except that the end of the process may cut a batch short after any line or row (\<open>Write_Crash\<close>); its
  write service is open. Its claims hold within the retention of logs and results (\<open>retained\<close>) and for ids whose
  random parts do not repeat (\<open>env_live\<close>). Arguments of a JSON type that the method does not declare are refused there.

  \<^bold>\<open>Not modelled.\<close> The thread pools of the standard library under \<open>runtime/\<close>, sleeping (it only decides when a turn
  comes), I/O errors of the mirror and the logs, lines torn by a crash of the machine in the live system,
  \<open>serve()\<close>, checkpoint files with negative or fractional offsets,
  the re-exports of the packages, the proofs of concept under \<open>src/poc\<close>. Floats are their texts, rounding in vector
  normalisation is ignored.
\<close>

end
